(* ===== verification/Prelude.thy ===== *)
theory Prelude
  imports Main
begin

text \<open>
  Shared vocabulary of the development: the theorem collections the component theories fill, the
  Go conventions every theory uses (a nil-able value is an \<open>option\<close>, a \<open>time.Duration\<close> is an
  \<open>int\<close> of nanoseconds), and the generic list lemmas the component proofs share.
\<close>

named_theorems err_simps \<open>walking error trees with errors.Is and errors.As\<close>
named_theorems ctx_simps \<open>evaluating the context store\<close>
named_theorems tw_simps \<open>the step bookkeeping of a task wrapper\<close>
named_theorems eff_defs \<open>the effects of the actions of the run machine\<close>

type_synonym duration = int

section \<open>The first success in a list\<close>

text \<open>\<open>first_some f xs\<close> is the result of a Go loop that returns at the first hit.\<close>

fun first_some :: "('a \<Rightarrow> 'b option) \<Rightarrow> 'a list \<Rightarrow> 'b option" where
  "first_some f [] = None"
| "first_some f (x # xs) = (case f x of Some y \<Rightarrow> Some y | None \<Rightarrow> first_some f xs)"

lemma first_some_cong [fundef_cong]:
  "xs = ys \<Longrightarrow> (\<And>x. x \<in> set ys \<Longrightarrow> f x = g x) \<Longrightarrow> first_some f xs = first_some g ys"
  by (induction xs arbitrary: ys) (auto split: option.split)

lemma first_some_None [simp]: "first_some f xs = None \<longleftrightarrow> (\<forall>x\<in>set xs. f x = None)"
  by (induction xs) (auto split: option.split)

lemma first_some_SomeD: "first_some f xs = Some y \<Longrightarrow> \<exists>x\<in>set xs. f x = Some y"
  by (induction xs) (auto split: option.splits)

lemma first_some_append:
  "first_some f (xs @ ys) = (case first_some f xs of Some y \<Rightarrow> Some y | None \<Rightarrow> first_some f ys)"
  by (induction xs) (auto simp del: first_some_None split: option.split)

section \<open>Joining strings\<close>

text \<open>A string between single quotes, for the messages that quote an operand.\<close>

definition quoted :: "string \<Rightarrow> string" where
  "quoted s = CHR 0x27 # s @ [CHR 0x27]"

fun join_with :: "string \<Rightarrow> string list \<Rightarrow> string" where
  "join_with sep [] = ''''"
| "join_with sep [x] = x"
| "join_with sep (x # y # zs) = x @ sep @ join_with sep (y # zs)"

section \<open>Decimal numbers\<close>

fun string_of_nat :: "nat \<Rightarrow> string" where
  "string_of_nat n =
     (if n < 10 then [char_of (48 + n)] else string_of_nat (n div 10) @ [char_of (48 + n mod 10)])"

declare string_of_nat.simps [simp del]

definition string_of_int :: "int \<Rightarrow> string" where
  "string_of_int i = (if i < 0 then CHR 0x2D # string_of_nat (nat (- i)) else string_of_nat (nat i))"

section \<open>Lists without repetition\<close>

lemma distinct_append_singleton [simp]: "distinct (xs @ [x]) \<longleftrightarrow> distinct xs \<and> x \<notin> set xs"
  by auto

lemma nth_append_last [simp]: "(xs @ [x]) ! length xs = x"
  by simp

lemma list_update_mem_cases: "y \<in> set (xs[i := x]) \<Longrightarrow> y = x \<or> y \<in> set xs"
  using set_update_subset_insert by fastforce

lemma length_filter_update:
  assumes "i < length xs"
  shows "length (filter P (xs[i := x])) + (if P (xs ! i) then 1 else 0)
    = length (filter P xs) + (if P x then 1 else 0)"
  using assms
proof (induction xs arbitrary: i)
  case Nil
  then show ?case by simp
next
  case (Cons y ys)
  show ?case
  proof (cases i)
    case 0
    then show ?thesis by simp
  next
    case (Suc j)
    with Cons.prems have "j < length ys" by simp
    from Cons.IH [OF this] Suc show ?thesis by auto
  qed
qed

section \<open>Invariants of a labelled transition system\<close>

text \<open>
  The contract between a step relation and an invariant: the invariant holds at the start and
  every step keeps it. The client lemmas carry it to every state a run reaches. The run machine
  interprets this locale once for every invariant it proves.
\<close>

inductive runs_to :: "('s \<Rightarrow> 'a \<Rightarrow> 's \<Rightarrow> bool) \<Rightarrow> 's \<Rightarrow> 'a list \<Rightarrow> 's \<Rightarrow> bool" for R where
  runs_nil: "runs_to R s [] s"
| runs_snoc: "runs_to R s as t \<Longrightarrow> R t a u \<Longrightarrow> runs_to R s (as @ [a]) u"

inductive_cases runs_to_nilE: "runs_to R s [] t"
inductive_cases runs_to_snocE: "runs_to R s (as @ [a]) t"

lemma runs_to_trans: "runs_to R t bs u \<Longrightarrow> runs_to R s as t \<Longrightarrow> runs_to R s (as @ bs) u"
proof (induction rule: runs_to.induct)
  case (runs_nil t)
  then show ?case by simp
next
  case (runs_snoc t bs u a v)
  then have "runs_to R s ((as @ bs) @ [a]) v" by (blast intro: runs_to.runs_snoc)
  then show ?case by simp
qed

lemma runs_to_cons: "R s a t \<Longrightarrow> runs_to R t as u \<Longrightarrow> runs_to R s (a # as) u"
  using runs_to_trans [of R t as u s "[a]"] runs_to.runs_snoc [OF runs_to.runs_nil, of R s a t] by simp

locale invariant_machine =
  fixes R :: "'s \<Rightarrow> 'a \<Rightarrow> 's \<Rightarrow> bool"
    and start :: "'s \<Rightarrow> bool"
    and inv :: "'s \<Rightarrow> bool"
  assumes inv_start: "start s \<Longrightarrow> inv s"
    and inv_step: "inv s \<Longrightarrow> R s a t \<Longrightarrow> inv t"
begin

lemma inv_runs_from: "runs_to R s as t \<Longrightarrow> inv s \<Longrightarrow> inv t"
  by (induction rule: runs_to.induct) (auto intro: inv_step)

lemma inv_run: "runs_to R s as t \<Longrightarrow> start s \<Longrightarrow> inv t"
  by (blast intro: inv_runs_from inv_start)

end

end
