(* ===== verification/Errors.thy ===== *)
theory Errors
  imports Prelude
begin

text \<open>
  Go error values, as \<open>defs.go\<close> and \<open>util.go\<close> use them: the sentinel errors, the wrapping done by
  \<open>fmt.Errorf\<close> with the percent-w verb, \<open>errors.Join\<close>, the internal \<open>fatalError\<close> and the
  \<open>multiError\<close> with its builder. \<open>errors.Is\<close> and \<open>errors.As\<close> walk the tree that \<open>Unwrap\<close> spans.
  A Go value of type \<open>error\<close> is a \<open>go_error option\<close>; \<open>None\<close> is nil.
\<close>

section \<open>The errors of the program\<close>

datatype sentinel =
    ErrExit | ErrInvalidStage | ErrInvalidTaskStep | ErrInvalidStepOrder | ErrAlreadyRunning
  | ErrInitialization | ErrNoStartTask | ErrNilTask | ErrNoStage | ErrShutdownTimeout
  | ErrAlreadyInitialized | ErrNotInitialized | ErrDuplicateStep | ErrTaskSkipped

text \<open>Sentinels declared outside \<open>defs.go\<close>: \<open>future.go\<close>, \<open>context.go\<close> and the standard library.\<close>

datatype error_id =
    Defs sentinel
  | ErrAlreadyResolved | ErrNotResolved
  | StartStepManagerNilError
  | ContextCanceled | ContextDeadlineExceeded
  | HttpErrServerClosed

datatype go_error =
    Sentinel error_id
  | UserError string
  | Errorf string "go_error list"
  | Joined "go_error list"
  | MultiError "go_error list"
  | FatalError go_error
  | TimeoutErr duration
  | SignalErr string

abbreviation defs_err :: "sentinel \<Rightarrow> go_error" where
  "defs_err s \<equiv> Sentinel (Defs s)"

text \<open>\<open>Unwrap() error\<close> gives one child, \<open>Unwrap() []error\<close> several; an error with neither has none.\<close>

fun unwrapped :: "go_error \<Rightarrow> go_error list" where
  "unwrapped (Sentinel _) = []"
| "unwrapped (UserError _) = []"
| "unwrapped (Errorf _ es) = es"
| "unwrapped (Joined es) = es"
| "unwrapped (MultiError es) = es"
| "unwrapped (FatalError e) = [e]"
| "unwrapped (TimeoutErr _) = []"
| "unwrapped (SignalErr _) = []"

lemma size_list_member: "x \<in> set xs \<Longrightarrow> size x < Suc (size_list size xs)"
  by (rule le_imp_less_Suc, rule size_list_estimation', assumption, rule order_refl)

lemma unwrapped_size [simp]: "e' \<in> set (unwrapped e) \<Longrightarrow> size e' < size e"
  by (cases e; simp) (rule size_list_member; assumption)+

text \<open>\<open>errors.Is(e, t)\<close> for a sentinel \<open>t\<close>, the only kind of target the program uses.\<close>

function err_is :: "error_id \<Rightarrow> go_error \<Rightarrow> bool" where
  "err_is t e = (e = Sentinel t \<or> list_ex (err_is t) (unwrapped e))"
  by pat_completeness auto
termination
  by (relation "measure (\<lambda>(t, e). size e)") auto

declare err_is.simps [simp del]

lemma err_is_cases [simp, err_simps]:
  "err_is t (Sentinel s) \<longleftrightarrow> s = t"
  "\<not> err_is t (UserError m)"
  "err_is t (Errorf m es) \<longleftrightarrow> list_ex (err_is t) es"
  "err_is t (Joined es) \<longleftrightarrow> list_ex (err_is t) es"
  "err_is t (MultiError es) \<longleftrightarrow> list_ex (err_is t) es"
  "err_is t (FatalError e) \<longleftrightarrow> err_is t e"
  "\<not> err_is t (TimeoutErr d)"
  "\<not> err_is t (SignalErr m)"
  by (subst err_is.simps, simp; fail)+

text \<open>
  \<open>errors.As(e, &ferr)\<close> for the target type \<open>fatalError\<close>: the wrapped error of the first fatal
  error in the depth-first walk, if there is one.
\<close>

function err_as_fatal :: "go_error \<Rightarrow> go_error option" where
  "err_as_fatal e =
     (case e of FatalError f \<Rightarrow> Some f | _ \<Rightarrow> first_some err_as_fatal (unwrapped e))"
  by pat_completeness auto
termination
  by (relation "measure size") (simp_all, (rule size_list_member, assumption)+)

declare err_as_fatal.simps [simp del]

lemma err_as_fatal_cases [simp, err_simps]:
  "err_as_fatal (Sentinel s) = None"
  "err_as_fatal (UserError m) = None"
  "err_as_fatal (Errorf m es) = first_some err_as_fatal es"
  "err_as_fatal (Joined es) = first_some err_as_fatal es"
  "err_as_fatal (MultiError es) = first_some err_as_fatal es"
  "err_as_fatal (FatalError e) = Some e"
  "err_as_fatal (TimeoutErr d) = None"
  "err_as_fatal (SignalErr m) = None"
  by (subst err_as_fatal.simps, simp; fail)+

section \<open>Constructors of \<open>defs.go\<close>\<close>

definition newInvalidStage :: "string \<Rightarrow> go_error" where
  "newInvalidStage stage =
     (if stage = '''' then Errorf (''%w: '' @ quoted '''' @ '' (blank)'') [defs_err ErrInvalidStage]
      else Errorf (''%w: '' @ quoted stage) [defs_err ErrInvalidStage])"

definition newInitializationError :: "go_error \<Rightarrow> go_error" where
  "newInitializationError e = Errorf ''%w: %w'' [defs_err ErrInitialization, e]"

text \<open>\<open>unwrapInternalErrors\<close> looks at the root of the error only.\<close>

fun unwrapInternalErrors :: "go_error option \<Rightarrow> go_error option" where
  "unwrapInternalErrors (Some (FatalError e)) = Some e"
| "unwrapInternalErrors e = e"

section \<open>Multi errors (\<open>util.go\<close>)\<close>

text \<open>\<open>errors.Join\<close> of non-nil errors.\<close>

definition errors_Join :: "go_error list \<Rightarrow> go_error option" where
  "errors_Join es = (if es = [] then None else Some (Joined es))"

definition buildMultiErrors :: "go_error list \<Rightarrow> go_error option" where
  "buildMultiErrors errs =
     (if length errs = 0 then None
      else if length errs = 1 then Some (errs ! 0)
      else Some (MultiError errs))"

text \<open>The state of a \<open>multiErrorBuilder\<close> is its slice of errors; each method holds the mutex.\<close>

definition mb_hasErrors :: "go_error list \<Rightarrow> bool" where
  "mb_hasErrors errs = (length errs > 0)"

fun mb_add :: "go_error option \<Rightarrow> go_error list \<Rightarrow> go_error list" where
  "mb_add None errs = errs"
| "mb_add (Some (MultiError es)) errs = errs @ es"
| "mb_add (Some e) errs = errs @ [e]"

definition mb_build :: "go_error list \<Rightarrow> go_error option" where
  "mb_build errs = buildMultiErrors errs"

text \<open>\<open>buildJoinedErrors\<close> of \<open>build.go\<close>: the error itself when it is the only one.\<close>

definition buildJoinedErrors :: "go_error list \<Rightarrow> go_error option" where
  "buildJoinedErrors errs = (if length errs = 1 then Some (errs ! 0) else errors_Join errs)"

text \<open>\<open>errors.Is\<close> and \<open>errors.As\<close> on a possibly nil error.\<close>

definition errors_Is :: "go_error option \<Rightarrow> error_id \<Rightarrow> bool" where
  "errors_Is eo t = (case eo of None \<Rightarrow> False | Some e \<Rightarrow> err_is t e)"

definition errors_As_fatal :: "go_error option \<Rightarrow> go_error option" where
  "errors_As_fatal eo = (case eo of None \<Rightarrow> None | Some e \<Rightarrow> err_as_fatal e)"

lemma errors_Is_simps [simp, err_simps]:
  "\<not> errors_Is None t" "errors_Is (Some e) t \<longleftrightarrow> err_is t e"
  by (simp_all add: errors_Is_def)

lemma errors_As_fatal_simps [simp, err_simps]:
  "errors_As_fatal None = None" "errors_As_fatal (Some e) = err_as_fatal e"
  by (simp_all add: errors_As_fatal_def)

section \<open>Messages\<close>

text \<open>
  \<open>Error()\<close>. The percent-w verbs of a format are replaced by the messages of the wrapped errors in
  order. The rendering of a duration is a standard-library function, a parameter here.
\<close>

fun errorf_fill :: "string \<Rightarrow> string list \<Rightarrow> string" where
  "errorf_fill [] ms = []"
| "errorf_fill [c] ms = [c]"
| "errorf_fill (c # d # cs) ms =
     (if c = CHR ''%'' \<and> d = CHR ''w'' then
        (case ms of [] \<Rightarrow> ''%!w(MISSING)'' @ errorf_fill cs [] | m # ms' \<Rightarrow> m @ errorf_fill cs ms')
      else c # errorf_fill (d # cs) ms)"

fun sentinel_text :: "error_id \<Rightarrow> string" where
  "sentinel_text (Defs ErrExit) = ''normal exit''"
| "sentinel_text (Defs ErrInvalidStage) = ''invalid stage''"
| "sentinel_text (Defs ErrInvalidTaskStep) = ''invalid step for task''"
| "sentinel_text (Defs ErrInvalidStepOrder) = ''invalid step order''"
| "sentinel_text (Defs ErrAlreadyRunning) = ''already running''"
| "sentinel_text (Defs ErrInitialization) = ''initialization error''"
| "sentinel_text (Defs ErrNoStartTask) = ''no start tasks available''"
| "sentinel_text (Defs ErrNilTask) = ''nil task''"
| "sentinel_text (Defs ErrNoStage) = ''no stages available''"
| "sentinel_text (Defs ErrShutdownTimeout) = ''shutdown timeout''"
| "sentinel_text (Defs ErrAlreadyInitialized) = ''already initialized''"
| "sentinel_text (Defs ErrNotInitialized) = ''not initialized''"
| "sentinel_text (Defs ErrDuplicateStep) = ''duplicate step''"
| "sentinel_text (Defs ErrTaskSkipped) = ''task skipped''"
| "sentinel_text ErrAlreadyResolved = ''already resolved''"
| "sentinel_text ErrNotResolved = ''not resolved''"
| "sentinel_text StartStepManagerNilError = ''ssmNilError''"
| "sentinel_text ContextCanceled = ''context canceled''"
| "sentinel_text ContextDeadlineExceeded = ''context deadline exceeded''"
| "sentinel_text HttpErrServerClosed = ''http: Server closed''"

fun err_text :: "(duration \<Rightarrow> string) \<Rightarrow> go_error \<Rightarrow> string" where
  "err_text fd (Sentinel s) = sentinel_text s"
| "err_text fd (UserError m) = m"
| "err_text fd (Errorf f es) = errorf_fill f (map (err_text fd) es)"
| "err_text fd (Joined es) = join_with [CHR 0x0A] (map (err_text fd) es)"
| "err_text fd (MultiError es) =
     (if length es = 0 then ''empty errors'' else join_with [CHR 0x0A] (map (err_text fd) es))"
| "err_text fd (FatalError e) = ''fatal error: '' @ err_text fd e"
| "err_text fd (TimeoutErr d) = ''timed out after '' @ fd d"
| "err_text fd (SignalErr s) = ''received signal '' @ s"

section \<open>What a builder promises\<close>

text \<open>
  The contract between the code that collects errors (\<open>start\<close> and \<open>shutdown\<close>) and the builder:
  a nil error changes nothing, a built error is found by \<open>errors.Is\<close> and \<open>errors.As\<close> exactly when
  one of the added errors is.
\<close>

locale error_sink =
  fixes empty :: "'b"
    and add :: "go_error option \<Rightarrow> 'b \<Rightarrow> 'b"
    and has :: "'b \<Rightarrow> bool"
    and build :: "'b \<Rightarrow> go_error option"
  assumes has_empty: "\<not> has empty"
    and has_build: "has b \<longleftrightarrow> build b \<noteq> None"
    and add_nil: "add None b = b"
    and has_add: "has (add (Some e) b) \<longleftrightarrow> has b \<or> e \<noteq> MultiError []"
    and is_add: "errors_Is (build (add (Some e) b)) t \<longleftrightarrow> errors_Is (build b) t \<or> err_is t e"
    and fatal_add: "errors_As_fatal (build (add (Some e) b)) =
          (case errors_As_fatal (build b) of Some f \<Rightarrow> Some f | None \<Rightarrow> err_as_fatal e)"
begin

definition collect :: "go_error option list \<Rightarrow> 'b" where
  "collect es = fold add es empty"

lemma is_fold:
  "errors_Is (build (fold add es b)) t \<longleftrightarrow> errors_Is (build b) t \<or> (\<exists>e. Some e \<in> set es \<and> err_is t e)"
proof (induction es arbitrary: b)
  case Nil
  then show ?case by simp
next
  case (Cons eo es)
  then show ?case by (cases eo) (auto simp: add_nil is_add)
qed

lemma is_collect: "errors_Is (build (collect es)) t \<longleftrightarrow> (\<exists>e. Some e \<in> set es \<and> err_is t e)"
  using has_build [of empty] has_empty by (simp add: collect_def is_fold)

lemma fatal_fold:
  "errors_As_fatal (build (fold add es b)) =
    (case errors_As_fatal (build b) of Some f \<Rightarrow> Some f | None \<Rightarrow> first_some errors_As_fatal es)"
proof (induction es arbitrary: b)
  case Nil
  then show ?case by (simp split: option.split)
next
  case (Cons eo es)
  then show ?case by (cases eo) (auto simp: add_nil fatal_add split: option.split)
qed

lemma fatal_collect: "errors_As_fatal (build (collect es)) = first_some errors_As_fatal es"
  using has_build [of empty] has_empty by (simp add: collect_def fatal_fold)

lemma has_fold: "has (fold add es b) \<longleftrightarrow> has b \<or> (\<exists>e. Some e \<in> set es \<and> e \<noteq> MultiError [])"
proof (induction es arbitrary: b)
  case Nil
  then show ?case by simp
next
  case (Cons eo es)
  then show ?case by (cases eo) (auto simp: add_nil has_add)
qed

lemma build_collect_None: "build (collect es) = None \<longleftrightarrow> (\<forall>e. Some e \<in> set es \<longrightarrow> e = MultiError [])"
  using has_build [of "collect es"] has_empty by (auto simp: collect_def has_fold)

end

lemma mb_add_cases: "mb_add (Some e) errs = (case e of MultiError es \<Rightarrow> errs @ es | _ \<Rightarrow> errs @ [e])"
  by (cases e) simp_all

lemma buildMultiErrors_None [simp]: "buildMultiErrors errs = None \<longleftrightarrow> errs = []"
  by (simp add: buildMultiErrors_def)

lemma errors_Is_build [simp]: "errors_Is (buildMultiErrors errs) t \<longleftrightarrow> list_ex (err_is t) errs"
proof (cases errs)
  case (Cons e es)
  then show ?thesis by (cases es) (simp_all add: buildMultiErrors_def)
qed (simp add: buildMultiErrors_def)

lemma errors_As_fatal_build [simp]:
  "errors_As_fatal (buildMultiErrors errs) = first_some err_as_fatal errs"
proof (cases errs)
  case (Cons e es)
  then show ?thesis by (cases es) (auto simp: buildMultiErrors_def split: option.split)
qed (simp add: buildMultiErrors_def)

interpretation mb: error_sink "[]" mb_add mb_hasErrors mb_build
proof unfold_locales
  fix e :: go_error and b :: "go_error list" and t :: error_id
  show "errors_Is (mb_build (mb_add (Some e) b)) t \<longleftrightarrow> errors_Is (mb_build b) t \<or> err_is t e"
    by (cases e) (auto simp: mb_build_def)
  show "errors_As_fatal (mb_build (mb_add (Some e) b)) =
      (case errors_As_fatal (mb_build b) of Some f \<Rightarrow> Some f | None \<Rightarrow> err_as_fatal e)"
    by (cases e) (auto simp: mb_build_def first_some_append simp del: first_some_None split: option.split)
  show "mb_hasErrors (mb_add (Some e) b) \<longleftrightarrow> mb_hasErrors b \<or> e \<noteq> MultiError []"
    by (cases e) (auto simp: mb_hasErrors_def)
qed (auto simp: mb_hasErrors_def mb_build_def)

section \<open>Flatness\<close>

text \<open>
  The error returned by a builder never holds a \<open>multiError\<close> directly inside another one, provided
  the errors added are flat themselves: \<open>add\<close> splices them.
\<close>

fun is_multi :: "go_error \<Rightarrow> bool" where
  "is_multi (MultiError es) = True"
| "is_multi _ = False"

definition flat_error :: "go_error \<Rightarrow> bool" where
  "flat_error e = (case e of MultiError es \<Rightarrow> list_all (\<lambda>x. \<not> is_multi x) es | _ \<Rightarrow> True)"

lemma mb_add_flat:
  assumes "list_all (\<lambda>x. \<not> is_multi x) errs" and "\<And>e. eo = Some e \<Longrightarrow> flat_error e"
  shows "list_all (\<lambda>x. \<not> is_multi x) (mb_add eo errs)"
  using assms by (cases "(eo, errs)" rule: mb_add.cases) (auto simp: flat_error_def)

lemma mb_fold_flat:
  "list_all (\<lambda>x. \<not> is_multi x) errs \<Longrightarrow> (\<And>e. Some e \<in> set es \<Longrightarrow> flat_error e)
    \<Longrightarrow> list_all (\<lambda>x. \<not> is_multi x) (fold mb_add es errs)"
proof (induction es arbitrary: errs)
  case Nil
  then show ?case by simp
next
  case (Cons eo es)
  from Cons.prems have "list_all (\<lambda>x. \<not> is_multi x) (mb_add eo errs)"
    by (intro mb_add_flat) auto
  with Cons show ?case by simp
qed

lemma buildMultiErrors_flat:
  "list_all (\<lambda>x. \<not> is_multi x) errs \<Longrightarrow> buildMultiErrors errs = Some e \<Longrightarrow> flat_error e"
  by (auto simp: buildMultiErrors_def flat_error_def list_all_length split: if_splits go_error.split)

end
