(* ===== verification/Contexts.thy ===== *)
theory Contexts
  imports Errors
begin

text \<open>
  The standard library's \<open>context\<close> as the program uses it, and \<open>context.go\<close>. A context is a
  reference into a store of nodes (contexts are shared pointers whose cancellation is seen by
  everyone who holds them). A node knows its parent, its kind and, once it is done, its \<open>Err()\<close> and
  its \<open>Cause\<close>. Cancellation goes down to the children, except through \<open>WithoutCancel\<close>; the first
  cancellation of a node is the one that stays.
\<close>

section \<open>The context store\<close>

type_synonym ctx = nat

datatype ctx_key = LoggerContextKey | CauseKey | StartStepManagerContextKey

text \<open>A value put in a context by the program: a logger, a stop cause, a start step manager.\<close>

datatype ctx_val =
    VLogger nat
  | VCause "go_error option"
  | VStartStepManager "ctx option" "ctx option"

fun ctx_key_of :: "ctx_val \<Rightarrow> ctx_key" where
  "ctx_key_of (VLogger _) = LoggerContextKey"
| "ctx_key_of (VCause _) = CauseKey"
| "ctx_key_of (VStartStepManager _ _) = StartStepManagerContextKey"

datatype ctx_kind = KBackground | KCancel | KTimeout | KValue ctx_val | KWithoutCancel

record ctx_node =
  cn_parent :: "ctx option"
  cn_kind :: ctx_kind
  cn_done :: "(go_error \<times> go_error) option"

type_synonym ctxs = "ctx_node list"

definition ctx_new :: "ctx_kind \<Rightarrow> ctx option \<Rightarrow> ctxs \<Rightarrow> ctxs \<times> ctx" where
  "ctx_new k p st =
     (st @ [\<lparr>cn_parent = p, cn_kind = k,
             cn_done = (case p of None \<Rightarrow> None
                        | Some q \<Rightarrow> if k = KWithoutCancel then None else cn_done (st ! q))\<rparr>],
      length st)"

abbreviation ctx_WithCancelCause :: "ctx \<Rightarrow> ctxs \<Rightarrow> ctxs \<times> ctx" where
  "ctx_WithCancelCause c \<equiv> ctx_new KCancel (Some c)"

abbreviation ctx_WithTimeout :: "ctx \<Rightarrow> ctxs \<Rightarrow> ctxs \<times> ctx" where
  "ctx_WithTimeout c \<equiv> ctx_new KTimeout (Some c)"

abbreviation ctx_WithoutCancel :: "ctx \<Rightarrow> ctxs \<Rightarrow> ctxs \<times> ctx" where
  "ctx_WithoutCancel c \<equiv> ctx_new KWithoutCancel (Some c)"

abbreviation ctx_WithValue :: "ctx \<Rightarrow> ctx_val \<Rightarrow> ctxs \<Rightarrow> ctxs \<times> ctx" where
  "ctx_WithValue c v \<equiv> ctx_new (KValue v) (Some c)"

text \<open>Cancelling \<open>c\<close> reaches \<open>d\<close> along the parent chain, which a \<open>WithoutCancel\<close> node cuts.\<close>

function cancel_reaches :: "ctxs \<Rightarrow> ctx \<Rightarrow> ctx \<Rightarrow> bool" where
  "cancel_reaches st c d =
     (d = c \<or>
      (case cn_parent (st ! d) of
         None \<Rightarrow> False
       | Some p \<Rightarrow>
           if p < d \<and> cn_kind (st ! d) \<noteq> KWithoutCancel then cancel_reaches st c p else False))"
  by pat_completeness auto
termination
  by (relation "measure (\<lambda>(st, c, d). d)") auto

declare cancel_reaches.simps [simp del]

definition ctx_cancel_with :: "ctx \<Rightarrow> go_error \<times> go_error \<Rightarrow> ctxs \<Rightarrow> ctxs" where
  "ctx_cancel_with c ec st =
     map (\<lambda>d. if cn_done (st ! d) = None \<and> cancel_reaches st c d
              then (st ! d)\<lparr>cn_done := Some ec\<rparr> else st ! d) [0..<length st]"

text \<open>A \<open>CancelCauseFunc\<close>: a nil cause means \<open>Canceled\<close>.\<close>

definition ctx_cancel :: "ctx \<Rightarrow> go_error option \<Rightarrow> ctxs \<Rightarrow> ctxs" where
  "ctx_cancel c cause st =
     ctx_cancel_with c (Sentinel ContextCanceled,
       case cause of None \<Rightarrow> Sentinel ContextCanceled | Some e \<Rightarrow> e) st"

definition ctx_deadline :: "ctx \<Rightarrow> ctxs \<Rightarrow> ctxs" where
  "ctx_deadline c st =
     ctx_cancel_with c (Sentinel ContextDeadlineExceeded, Sentinel ContextDeadlineExceeded) st"

definition ctx_Done :: "ctxs \<Rightarrow> ctx \<Rightarrow> bool" where
  "ctx_Done st c = (cn_done (st ! c) \<noteq> None)"

definition ctx_Err :: "ctxs \<Rightarrow> ctx \<Rightarrow> go_error option" where
  "ctx_Err st c = map_option fst (cn_done (st ! c))"

definition ctx_Cause :: "ctxs \<Rightarrow> ctx \<Rightarrow> go_error option" where
  "ctx_Cause st c = map_option snd (cn_done (st ! c))"

function ctx_Value :: "ctxs \<Rightarrow> ctx_key \<Rightarrow> ctx \<Rightarrow> ctx_val option" where
  "ctx_Value st key c =
     (if (case cn_kind (st ! c) of KValue v \<Rightarrow> ctx_key_of v = key | _ \<Rightarrow> False)
      then (case cn_kind (st ! c) of KValue v \<Rightarrow> Some v | _ \<Rightarrow> None)
      else (case cn_parent (st ! c) of
              None \<Rightarrow> None
            | Some p \<Rightarrow> if p < c then ctx_Value st key p else None))"
  by pat_completeness auto
termination
  by (relation "measure (\<lambda>(st, key, c). c)") auto

declare ctx_Value.simps [simp del]

section \<open>Laws of the store\<close>

text \<open>
  A store is well formed when parents come before their children and a done parent has done
  children. \<open>ctxs_le\<close> is what every operation, of the program or of its users, does to a store: add
  nodes and cancel nodes that were not done.
\<close>

definition node_wf :: "ctxs \<Rightarrow> ctx \<Rightarrow> bool" where
  "node_wf st d =
     (case cn_parent (st ! d) of
        None \<Rightarrow> True
      | Some p \<Rightarrow> p < d \<and>
          (cn_kind (st ! d) \<noteq> KWithoutCancel \<longrightarrow> ctx_Done st p \<longrightarrow> ctx_Done st d))"

definition ctxs_wf :: "ctxs \<Rightarrow> bool" where
  "ctxs_wf st = (\<forall>d<length st. node_wf st d)"

definition ctxs_le :: "ctxs \<Rightarrow> ctxs \<Rightarrow> bool" where
  "ctxs_le st st' \<longleftrightarrow> length st \<le> length st' \<and>
     (\<forall>c<length st. cn_parent (st' ! c) = cn_parent (st ! c) \<and> cn_kind (st' ! c) = cn_kind (st ! c) \<and>
        (ctx_Done st c \<longrightarrow> cn_done (st' ! c) = cn_done (st ! c)))"

lemma ctxs_le_refl [simp]: "ctxs_le st st"
  by (simp add: ctxs_le_def)

lemma ctxs_le_trans: "ctxs_le a b \<Longrightarrow> ctxs_le b c \<Longrightarrow> ctxs_le a c"
  by (auto simp: ctxs_le_def ctx_Done_def)

lemma ctxs_le_length: "ctxs_le st st' \<Longrightarrow> length st \<le> length st'"
  by (simp add: ctxs_le_def)

lemma ctxs_le_Done: "ctxs_le st st' \<Longrightarrow> c < length st \<Longrightarrow> ctx_Done st c \<Longrightarrow> ctx_Done st' c"
  by (auto simp: ctxs_le_def ctx_Done_def)

lemma ctxs_le_Cause:
  "ctxs_le st st' \<Longrightarrow> c < length st \<Longrightarrow> ctx_Done st c \<Longrightarrow> ctx_Cause st' c = ctx_Cause st c"
  by (auto simp: ctxs_le_def ctx_Done_def ctx_Cause_def)

lemma ctx_Cause_None [simp]: "ctx_Cause st c = None \<longleftrightarrow> \<not> ctx_Done st c"
  by (cases "cn_done (st ! c)") (simp_all add: ctx_Cause_def ctx_Done_def)

lemma ctx_Err_None [simp]: "ctx_Err st c = None \<longleftrightarrow> \<not> ctx_Done st c"
  by (cases "cn_done (st ! c)") (simp_all add: ctx_Err_def ctx_Done_def)

subsection \<open>New nodes\<close>

lemma ctx_new_length [simp, ctx_simps]:
  "length (fst (ctx_new k p st)) = Suc (length st)" "snd (ctx_new k p st) = length st"
  by (simp_all add: ctx_new_def)

lemma ctx_new_le [simp]: "ctxs_le st (fst (ctx_new k p st))"
  by (simp add: ctxs_le_def ctx_new_def nth_append)

lemma ctx_new_old [simp, ctx_simps]: "c < length st \<Longrightarrow> fst (ctx_new k p st) ! c = st ! c"
  by (simp add: ctx_new_def nth_append)

lemma ctx_new_node [simp, ctx_simps]:
  "cn_parent (fst (ctx_new k p st) ! length st) = p"
  "cn_kind (fst (ctx_new k p st) ! length st) = k"
  by (simp_all add: ctx_new_def)

lemma ctx_new_Done_old [simp, ctx_simps]:
  "c < length st \<Longrightarrow> ctx_Done (fst (ctx_new k p st)) c = ctx_Done st c"
  "c < length st \<Longrightarrow> ctx_Cause (fst (ctx_new k p st)) c = ctx_Cause st c"
  by (simp_all add: ctx_Done_def ctx_Cause_def)

lemma ctx_new_Done [simp, ctx_simps]:
  "ctx_Done (fst (ctx_new k p st)) (length st) \<longleftrightarrow>
     k \<noteq> KWithoutCancel \<and> (\<exists>q. p = Some q \<and> ctx_Done st q)"
  "ctx_Cause (fst (ctx_new k p st)) (length st) =
     (if k = KWithoutCancel then None else Option.bind p (ctx_Cause st))"
  by (auto simp: ctx_Done_def ctx_Cause_def ctx_new_def split: option.splits)

lemma ctx_new_wf:
  assumes "ctxs_wf st" and "\<And>q. p = Some q \<Longrightarrow> q < length st"
  shows "ctxs_wf (fst (ctx_new k p st))"
  unfolding ctxs_wf_def
proof (intro allI impI)
  fix d assume "d < length (fst (ctx_new k p st))"
  then consider "d < length st" | "d = length st" by fastforce
  then show "node_wf (fst (ctx_new k p st)) d"
  proof cases
    case 1
    with assms(1) have "node_wf st d" by (simp add: ctxs_wf_def)
    with 1 show ?thesis by (auto simp: node_wf_def split: option.splits)
  next
    case 2
    with assms(2) show ?thesis by (auto simp: node_wf_def split: option.splits)
  qed
qed

subsection \<open>Cancellation\<close>

lemma cancel_reaches_self [simp]: "cancel_reaches st c c"
  by (subst cancel_reaches.simps) simp

lemma cancel_reaches_le: "cancel_reaches st c d \<Longrightarrow> c \<le> d"
proof (induction st c d rule: cancel_reaches.induct)
  case (1 st c d)
  from "1.prems" show ?case
    by (subst (asm) cancel_reaches.simps) (auto split: option.splits if_splits dest!: "1.IH")
qed

lemma cancel_reaches_step:
  "cn_parent (st ! d) = Some p \<Longrightarrow> p < d \<Longrightarrow> cn_kind (st ! d) \<noteq> KWithoutCancel \<Longrightarrow>
   cancel_reaches st c p \<Longrightarrow> cancel_reaches st c d"
  by (subst cancel_reaches.simps) simp

lemma not_reaches_without_cancel:
  "cn_kind (st ! d) = KWithoutCancel \<Longrightarrow> d \<noteq> c \<Longrightarrow> \<not> cancel_reaches st c d"
  by (subst cancel_reaches.simps) (simp split: option.split)

lemma ctx_cancel_with_length [simp, ctx_simps]: "length (ctx_cancel_with c ec st) = length st"
  by (simp add: ctx_cancel_with_def)

lemma ctx_cancel_with_nth:
  "d < length st \<Longrightarrow> ctx_cancel_with c ec st ! d =
     (if cn_done (st ! d) = None \<and> cancel_reaches st c d
      then (st ! d)\<lparr>cn_done := Some ec\<rparr> else st ! d)"
  by (simp add: ctx_cancel_with_def)

lemma ctx_cancel_with_le [simp]: "ctxs_le st (ctx_cancel_with c ec st)"
  by (auto simp: ctxs_le_def ctx_cancel_with_nth ctx_Done_def)

lemma ctx_cancel_with_Done:
  "d < length st \<Longrightarrow> ctx_Done (ctx_cancel_with c ec st) d \<longleftrightarrow> ctx_Done st d \<or> cancel_reaches st c d"
  by (auto simp: ctx_Done_def ctx_cancel_with_nth)

lemma ctx_cancel_with_Cause:
  "d < length st \<Longrightarrow> ctx_Cause (ctx_cancel_with c ec st) d =
     (if ctx_Done st d then ctx_Cause st d else if cancel_reaches st c d then Some (snd ec) else None)"
  by (cases ec) (auto simp: ctx_Done_def ctx_Cause_def ctx_cancel_with_nth)

lemma ctx_cancel_with_wf:
  assumes "ctxs_wf st"
  shows "ctxs_wf (ctx_cancel_with c ec st)"
  unfolding ctxs_wf_def
proof (intro allI impI)
  fix d assume "d < length (ctx_cancel_with c ec st)"
  then have d: "d < length st" by simp
  with assms have wf: "node_wf st d" by (simp add: ctxs_wf_def)
  show "node_wf (ctx_cancel_with c ec st) d"
  proof (cases "cn_parent (st ! d)")
    case None
    with d show ?thesis by (simp add: node_wf_def ctx_cancel_with_nth)
  next
    case (Some p)
    with wf have "p < d" by (simp add: node_wf_def)
    with Some wf d show ?thesis
      by (auto simp: node_wf_def ctx_cancel_with_nth ctx_cancel_with_Done intro: cancel_reaches_step)
  qed
qed

lemma ctx_cancel_simps [simp, ctx_simps]:
  "length (ctx_cancel c e st) = length st"
  "length (ctx_deadline c st) = length st"
  "ctxs_le st (ctx_cancel c e st)"
  "ctxs_le st (ctx_deadline c st)"
  by (simp_all add: ctx_cancel_def ctx_deadline_def)

lemma ctx_cancel_wf [simp]:
  "ctxs_wf st \<Longrightarrow> ctxs_wf (ctx_cancel c e st)" "ctxs_wf st \<Longrightarrow> ctxs_wf (ctx_deadline c st)"
  by (simp_all add: ctx_cancel_def ctx_deadline_def ctx_cancel_with_wf)

lemma ctx_cancel_Done:
  "d < length st \<Longrightarrow> ctx_Done (ctx_cancel c e st) d \<longleftrightarrow> ctx_Done st d \<or> cancel_reaches st c d"
  by (simp add: ctx_cancel_def ctx_cancel_with_Done)

lemma ctx_deadline_Done:
  "d < length st \<Longrightarrow> ctx_Done (ctx_deadline c st) d \<longleftrightarrow> ctx_Done st d \<or> cancel_reaches st c d"
  by (simp add: ctx_deadline_def ctx_cancel_with_Done)

section \<open>The cancellation contract\<close>

text \<open>
  What the manager, the start step manager and the built-in tasks rely on when they cancel a
  context and read its cause.
\<close>

locale cancellation =
  fixes valid :: "'s \<Rightarrow> 'c \<Rightarrow> bool"
    and is_done :: "'s \<Rightarrow> 'c \<Rightarrow> bool"
    and cause :: "'s \<Rightarrow> 'c \<Rightarrow> go_error option"
    and cancel :: "'c \<Rightarrow> go_error option \<Rightarrow> 's \<Rightarrow> 's"
  assumes valid_cancel: "valid s d \<Longrightarrow> valid (cancel c e s) d"
    and cause_done: "valid s c \<Longrightarrow> cause s c \<noteq> None \<longleftrightarrow> is_done s c"
    and cancel_done: "valid s c \<Longrightarrow> is_done (cancel c e s) c"
    and cancel_cause: "valid s c \<Longrightarrow> \<not> is_done s c \<Longrightarrow>
           cause (cancel c e s) c = Some (case e of None \<Rightarrow> Sentinel ContextCanceled | Some x \<Rightarrow> x)"
    and cancel_keeps: "valid s d \<Longrightarrow> is_done s d \<Longrightarrow> cause (cancel c e s) d = cause s d"
begin

lemma cancel_keeps_done: "valid s d \<Longrightarrow> is_done s d \<Longrightarrow> is_done (cancel c e s) d"
  using cause_done valid_cancel cancel_keeps by metis

lemma later_cancels_keep:
  "valid s d \<Longrightarrow> is_done s d \<Longrightarrow> cause (fold (\<lambda>(c, e). cancel c e) ces s) d = cause s d"
proof (induction ces arbitrary: s)
  case Nil
  then show ?case by simp
next
  case (Cons ce ces)
  obtain c e where ce: "ce = (c, e)" by force
  from Cons.prems have "valid (cancel c e s) d" "is_done (cancel c e s) d"
    by (auto intro: valid_cancel cancel_keeps_done)
  from Cons.IH [OF this] show ?case
    using Cons.prems ce by (simp add: cancel_keeps)
qed

lemma first_cause_wins:
  assumes "valid s c" and "\<not> is_done s c"
  shows "cause (fold (\<lambda>(c, e). cancel c e) ((c, Some e) # ces) s) c = Some e"
proof -
  have "is_done (cancel c (Some e) s) c" "valid (cancel c (Some e) s) c"
    using assms(1) by (auto intro: cancel_done valid_cancel)
  then have "cause (fold (\<lambda>(c, e). cancel c e) ces (cancel c (Some e) s)) c
      = cause (cancel c (Some e) s) c"
    by (intro later_cancels_keep)
  with assms show ?thesis by (simp add: cancel_cause)
qed

end

interpretation cc: cancellation "\<lambda>st c. c < length st" ctx_Done ctx_Cause ctx_cancel
  by unfold_locales (auto simp: ctx_cancel_def ctx_cancel_with_Done ctx_cancel_with_Cause)

section \<open>Values carried by contexts (\<open>context.go\<close>)\<close>

lemma ctx_Value_bound:
  "cn_kind (st ! c) = KValue v \<Longrightarrow> ctx_key_of v = key \<Longrightarrow> ctx_Value st key c = Some v"
  by (subst ctx_Value.simps) simp

lemma ctx_Value_inherit:
  assumes "cn_parent (st ! c) = Some p" and "p < c"
    and "\<And>v. cn_kind (st ! c) = KValue v \<Longrightarrow> ctx_key_of v \<noteq> key"
  shows "ctx_Value st key c = ctx_Value st key p"
  using assms by (subst ctx_Value.simps) (auto split: ctx_kind.split)

lemma ctx_Value_key: "ctx_Value st key c = Some v \<Longrightarrow> ctx_key_of v = key"
proof (induction st key c rule: ctx_Value.induct)
  case (1 st key c)
  show ?case
  proof (cases "\<exists>u. cn_kind (st ! c) = KValue u \<and> ctx_key_of u = key")
    case True
    with "1.prems" show ?thesis by (auto simp: ctx_Value_bound)
  next
    case False
    then have skip: "\<not> (case cn_kind (st ! c) of KValue u \<Rightarrow> ctx_key_of u = key | _ \<Rightarrow> False)"
      by (auto split: ctx_kind.splits)
    with "1.prems" obtain p where "cn_parent (st ! c) = Some p" "p < c" "ctx_Value st key p = Some v"
      by (subst (asm) ctx_Value.simps) (auto split: option.splits if_splits)
    with "1.IH" [OF skip] show ?thesis by blast
  qed
qed

definition contextWithCause :: "ctx \<Rightarrow> go_error option \<Rightarrow> ctxs \<Rightarrow> ctxs \<times> ctx" where
  "contextWithCause c cause st = ctx_WithValue c (VCause cause) st"

definition CauseFromContext :: "ctxs \<Rightarrow> ctx \<Rightarrow> go_error option \<times> bool" where
  "CauseFromContext st c =
     (case ctx_Value st CauseKey c of
        Some (VCause (Some e)) \<Rightarrow> (Some e, True)
      | _ \<Rightarrow> (None, False))"

definition loggerToContext :: "ctx \<Rightarrow> nat \<Rightarrow> ctxs \<Rightarrow> ctxs \<times> ctx" where
  "loggerToContext c logger st = ctx_WithValue c (VLogger logger) st"

text \<open>Logger \<open>0\<close> is \<open>nullLogger\<close>.\<close>

definition LoggerFromContext :: "ctxs \<Rightarrow> ctx \<Rightarrow> nat" where
  "LoggerFromContext st c =
     (case ctx_Value st LoggerContextKey c of Some (VLogger l) \<Rightarrow> l | _ \<Rightarrow> 0)"

section \<open>The start step manager (\<open>context.go\<close>)\<close>

text \<open>The \<open>cancel\<close> field is the \<open>CancelCauseFunc\<close> of the start context, kept as that context.\<close>

record startStepManager =
  ssm_cancel :: "ctx option"
  ssm_finished :: "ctx option"

definition contextWithStartStepManager :: "ctx \<Rightarrow> startStepManager \<Rightarrow> ctxs \<Rightarrow> ctxs \<times> ctx" where
  "contextWithStartStepManager c s st =
     ctx_WithValue c (VStartStepManager (ssm_cancel s) (ssm_finished s)) st"

definition StartStepManagerFromContext :: "ctxs \<Rightarrow> ctx \<Rightarrow> startStepManager" where
  "StartStepManagerFromContext st c =
     (case ctx_Value st StartStepManagerContextKey c of
        Some (VStartStepManager cn fin) \<Rightarrow> \<lparr>ssm_cancel = cn, ssm_finished = fin\<rparr>
      | _ \<Rightarrow> \<lparr>ssm_cancel = None, ssm_finished = None\<rparr>)"

definition ssm_ContextCancel :: "startStepManager \<Rightarrow> go_error option \<Rightarrow> ctxs \<Rightarrow> bool \<times> ctxs" where
  "ssm_ContextCancel s cause st =
     (case ssm_cancel s of None \<Rightarrow> (False, st) | Some c \<Rightarrow> (True, ctx_cancel c cause st))"

text \<open>Whether the channel returned by \<open>Finished\<close> is closed: without a context it is \<open>closedchan\<close>.\<close>

definition ssm_Finished :: "startStepManager \<Rightarrow> ctxs \<Rightarrow> bool" where
  "ssm_Finished s st = (case ssm_finished s of None \<Rightarrow> True | Some f \<Rightarrow> ctx_Done st f)"

definition ssm_FinishedErr :: "startStepManager \<Rightarrow> ctxs \<Rightarrow> go_error option" where
  "ssm_FinishedErr s st =
     (case ssm_finished s of
        None \<Rightarrow> None
      | Some f \<Rightarrow>
          let cause = ctx_Cause st f in
          if errors_Is cause StartStepManagerNilError then None else cause)"

definition ssm_CanContextCancel :: "startStepManager \<Rightarrow> bool" where
  "ssm_CanContextCancel s = (ssm_cancel s \<noteq> None)"

definition ssm_CanFinished :: "startStepManager \<Rightarrow> bool" where
  "ssm_CanFinished s = (ssm_finished s \<noteq> None)"

lemma CauseFromContext_contextWithCause:
  assumes "contextWithCause c cause st = (st', d)"
  shows "CauseFromContext st' d = (cause, cause \<noteq> None)"
proof -
  have d: "st' = fst (ctx_new (KValue (VCause cause)) (Some c) st)" "d = length st"
    using assms by (auto simp: contextWithCause_def ctx_new_def)
  have "ctx_Value st' CauseKey d = Some (VCause cause)"
    using d by (intro ctx_Value_bound [where v = "VCause cause"]) simp_all
  then show ?thesis by (cases cause) (simp_all add: CauseFromContext_def)
qed

text \<open>A cause put in a context is seen in everything derived from it, timeouts and other values included.\<close>

lemma CauseFromContext_inherit:
  assumes "c < length st" and "\<And>e. k \<noteq> KValue (VCause e)"
  shows "CauseFromContext (fst (ctx_new k (Some c) st)) (length st) = CauseFromContext st c"
proof -
  have key: "ctx_key_of v \<noteq> CauseKey" if "k = KValue v" for v
    using assms(2) that by (cases v) auto
  have "ctx_Value (fst (ctx_new k (Some c) st)) CauseKey (length st)
      = ctx_Value (fst (ctx_new k (Some c) st)) CauseKey c"
    using assms(1) key by (intro ctx_Value_inherit) auto
  moreover have "ctx_Value (fst (ctx_new k (Some c) st)) CauseKey d = ctx_Value st CauseKey d"
    if "d < length st" for d
    using that
  proof (induction d rule: less_induct)
    case (less d)
    show ?case
    proof (cases "cn_parent (st ! d)")
      case None
      with less.prems show ?thesis by (subst (1 2) ctx_Value.simps) simp
    next
      case (Some p)
      with less show ?thesis
        by (subst (1 2) ctx_Value.simps) (cases "p < d"; simp)
    qed
  qed
  ultimately show ?thesis using assms(1) by (simp add: CauseFromContext_def)
qed

text \<open>
  The life of a start step as its stop step sees it: \<open>finished\<close> is a fresh cancellable context,
  cancelled once with the error of the start step (or with the internal nil error).
\<close>

definition finish_cause :: "go_error option \<Rightarrow> go_error" where
  "finish_cause err = (case err of Some e \<Rightarrow> e | None \<Rightarrow> Sentinel StartStepManagerNilError)"

lemma ssm_FinishedErr_after:
  assumes "f < length st" and "\<not> ctx_Done st f"
    and "\<And>e. err = Some e \<Longrightarrow> \<not> err_is StartStepManagerNilError e"
  shows "ssm_Finished \<lparr>ssm_cancel = cn, ssm_finished = Some f\<rparr> (ctx_cancel f (Some (finish_cause err)) st)"
    and "ssm_FinishedErr \<lparr>ssm_cancel = cn, ssm_finished = Some f\<rparr>
           (ctx_cancel f (Some (finish_cause err)) st) = err"
proof -
  have c: "ctx_Cause (ctx_cancel f (Some (finish_cause err)) st) f = Some (finish_cause err)"
    using cc.cancel_cause [OF assms(1,2)] by simp
  show "ssm_Finished \<lparr>ssm_cancel = cn, ssm_finished = Some f\<rparr> (ctx_cancel f (Some (finish_cause err)) st)"
    using cc.cancel_done [OF assms(1)] by (simp add: ssm_Finished_def)
  show "ssm_FinishedErr \<lparr>ssm_cancel = cn, ssm_finished = Some f\<rparr>
      (ctx_cancel f (Some (finish_cause err)) st) = err"
    using c assms(3) by (cases err) (auto simp: ssm_FinishedErr_def finish_cause_def)
qed

end
