(* ===== verification/Tasks.thy ===== *)
theory Tasks
  imports Contexts
begin

text \<open>
  Steps (\<open>defs.go\<close>), tasks, their info and their options (\<open>task.go\<close>, \<open>task_helpers.go\<close>,
  \<open>callback.go\<close>). User code is a function on a world of type \<open>'w\<close>: what a task, a handler or a
  callback does besides returning is a change of that world.
\<close>

section \<open>Steps\<close>

text \<open>
  The Go type is an \<open>int\<close> with four named values; \<open>StepOther i\<close> stands for every other value \<open>i\<close>, for
  which the \<open>default\<close> branches of the code exist.
\<close>

datatype step = StepSetup | StepStart | StepStop | StepTeardown | StepOther int

datatype callbackStep = CallbackStepBefore | CallbackStepAfter | CallbackStepOther int

fun step_String :: "step \<Rightarrow> string" where
  "step_String StepSetup = ''setup''"
| "step_String StepStart = ''start''"
| "step_String StepStop = ''stop''"
| "step_String StepTeardown = ''teardown''"
| "step_String (StepOther i) = ''unknown-step('' @ string_of_int i @ '')''"

fun callbackStep_String :: "callbackStep \<Rightarrow> string" where
  "callbackStep_String CallbackStepBefore = ''before''"
| "callbackStep_String CallbackStepAfter = ''after''"
| "callbackStep_String (CallbackStepOther i) = ''unknown-callback-step('' @ string_of_int i @ '')''"

text \<open>The order of the underlying integers.\<close>

fun step_int :: "step \<Rightarrow> int" where
  "step_int StepSetup = 0"
| "step_int StepStart = 1"
| "step_int StepStop = 2"
| "step_int StepTeardown = 3"
| "step_int (StepOther i) = i"

fun step_known :: "step \<Rightarrow> bool" where
  "step_known (StepOther _) = False"
| "step_known _ = True"

instantiation step :: linorder
begin

definition less_eq_step :: "step \<Rightarrow> step \<Rightarrow> bool" where
  "less_eq_step s t \<longleftrightarrow>
     step_int s < step_int t \<or> (step_int s = step_int t \<and> (step_known t \<longrightarrow> step_known s))"

definition less_step :: "step \<Rightarrow> step \<Rightarrow> bool" where
  "less_step s t \<longleftrightarrow>
     step_int s < step_int t \<or> (step_int s = step_int t \<and> step_known s \<and> \<not> step_known t)"

instance
proof
  fix s t u :: step
  show "s < t \<longleftrightarrow> s \<le> t \<and> \<not> t \<le> s" "s \<le> s" "s \<le> t \<or> t \<le> s"
    by (auto simp: less_eq_step_def less_step_def)
  show "s \<le> t \<Longrightarrow> t \<le> u \<Longrightarrow> s \<le> u"
    by (auto simp: less_eq_step_def)
  show "s \<le> t \<Longrightarrow> t \<le> s \<Longrightarrow> s = t"
    by (cases s; cases t) (auto simp: less_eq_step_def)
qed

end

lemma step_less_simps [simp]:
  "StepSetup < StepStart" "StepSetup < StepStop" "StepSetup < StepTeardown"
  "StepStart < StepStop" "StepStart < StepTeardown" "StepStop < StepTeardown"
  "\<not> StepStart \<le> StepSetup" "\<not> StepStop \<le> StepSetup" "\<not> StepTeardown \<le> StepSetup"
  "\<not> StepStop \<le> StepStart" "\<not> StepTeardown \<le> StepStart" "\<not> StepTeardown \<le> StepStop"
  "StepSetup \<le> StepStart" "StepSetup \<le> StepStop" "StepSetup \<le> StepTeardown"
  "StepStart \<le> StepStop" "StepStart \<le> StepTeardown" "StepStop \<le> StepTeardown"
  by (simp_all add: less_step_def less_eq_step_def)

definition allSteps :: "step list" where
  "allSteps = [StepSetup, StepStart, StepStop, StepTeardown]"

lemma set_allSteps: "s \<in> set allSteps \<longleftrightarrow> step_known s"
  by (cases s) (simp_all add: allSteps_def)

text \<open>The sequence that the iterator \<open>taskOrderedSteps\<close> yields.\<close>

definition taskOrderedSteps :: "step list \<Rightarrow> step list" where
  "taskOrderedSteps steps = (if length steps = 0 then [] else filter (\<lambda>s. s \<in> set steps) allSteps)"

lemma taskOrderedSteps_spec:
  "sorted_wrt (<) (taskOrderedSteps steps) \<and>
   set (taskOrderedSteps steps) = {s \<in> set steps. step_known s}"
  by (auto simp: taskOrderedSteps_def allSteps_def set_allSteps [symmetric])

definition newInvalidTaskStep :: "step \<Rightarrow> go_error" where
  "newInvalidTaskStep s = Errorf (''%w: '' @ step_String s) [defs_err ErrInvalidTaskStep]"

text \<open>\<open>stringerString\<close> of a list of steps.\<close>

definition stringerString :: "step list \<Rightarrow> string" where
  "stringerString ss = join_with '','' (map step_String ss)"

section \<open>Tasks and their info\<close>

text \<open>
  Options a task may set for itself (\<open>TaskInstanceOption\<close>): the package exports no other
  constructor of that interface.
\<close>

datatype instance_option = WithCancelContext bool | WithStartStepManager

record 'w task_info =
  ti_Name :: string
  ti_Steps :: "step list option"
  ti_Options :: "instance_option list"
  ti_InitError :: "go_error option"
  ti_Skipped :: "(ctx \<Rightarrow> go_error option \<Rightarrow> 'w \<Rightarrow> 'w) option"

definition zero_task_info :: "'w task_info" where
  "zero_task_info = \<lparr>ti_Name = '''', ti_Steps = None, ti_Options = [], ti_InitError = None, ti_Skipped = None\<rparr>"

text \<open>
  A task: its \<open>Run\<close>, and the optional interfaces \<open>TaskWithInfo\<close> and \<open>Stringer\<close>. Info and name are
  computed on each call, so they depend on the world.
\<close>

record 'w task =
  task_Run :: "ctx \<Rightarrow> step \<Rightarrow> 'w \<Rightarrow> go_error option \<times> 'w"
  task_TaskInfo :: "('w \<Rightarrow> 'w task_info) option"
  task_Stringer :: "('w \<Rightarrow> string) option"
  task_type :: string

definition GetTaskInfo :: "'w task \<Rightarrow> 'w \<Rightarrow> 'w task_info" where
  "GetTaskInfo t w = (case task_TaskInfo t of Some ti \<Rightarrow> ti w | None \<Rightarrow> zero_task_info)"

definition DefaultTaskSteps :: "step list" where
  "DefaultTaskSteps = allSteps"

definition GetTaskName :: "'w task \<Rightarrow> 'w \<Rightarrow> string" where
  "GetTaskName t w = ti_Name (GetTaskInfo t w)"

definition getDefaultTaskDescription :: "'w task \<Rightarrow> string" where
  "getDefaultTaskDescription t = task_type t"

definition GetTaskDescription :: "'w task \<Rightarrow> 'w \<Rightarrow> string" where
  "GetTaskDescription t w =
     (case task_Stringer t of
        Some str \<Rightarrow> str w
      | None \<Rightarrow>
          (let tn = GetTaskName t w in
           if tn \<noteq> '''' then tn else getDefaultTaskDescription t))"

definition taskSteps :: "'w task \<Rightarrow> 'w \<Rightarrow> step list" where
  "taskSteps t w = (case ti_Steps (GetTaskInfo t w) of Some steps \<Rightarrow> steps | None \<Rightarrow> allSteps)"

definition taskHasStep :: "'w task \<Rightarrow> step \<Rightarrow> 'w \<Rightarrow> bool" where
  "taskHasStep t s w = (s \<in> set (taskSteps t w))"

text \<open>A \<open>TaskFunc\<close>.\<close>

definition TaskFunc :: "(ctx \<Rightarrow> step \<Rightarrow> 'w \<Rightarrow> go_error option \<times> 'w) \<Rightarrow> 'w task" where
  "TaskFunc f = \<lparr>task_Run = f, task_TaskInfo = None,
     task_Stringer = Some (\<lambda>_. ''svcinit.TaskFunc''), task_type = ''svcinit.TaskFunc''\<rparr>"

text \<open>\<open>errorTask\<close> and \<open>checkNilTask\<close>; a nil task is \<open>None\<close>.\<close>

definition errorTask :: "go_error \<Rightarrow> 'w task" where
  "errorTask e = \<lparr>task_Run = (\<lambda>_ _ w. (Some e, w)), task_TaskInfo = None,
     task_Stringer = None, task_type = ''*svcinit.errorTask''\<rparr>"

definition checkNilTask :: "'w task option \<Rightarrow> 'w task" where
  "checkNilTask t = (case t of None \<Rightarrow> errorTask (defs_err ErrNilTask) | Some t' \<Rightarrow> t')"

section \<open>Callbacks, handlers and options\<close>

type_synonym 'w task_callback =
  "ctx \<Rightarrow> 'w task \<Rightarrow> string \<Rightarrow> step \<Rightarrow> callbackStep \<Rightarrow> go_error option \<Rightarrow> 'w \<Rightarrow> 'w"

type_synonym 'w manager_callback = "ctx \<Rightarrow> string \<Rightarrow> step \<Rightarrow> callbackStep \<Rightarrow> 'w \<Rightarrow> 'w"

type_synonym 'w task_error_handler =
  "ctx \<Rightarrow> 'w task \<Rightarrow> step \<Rightarrow> go_error option \<Rightarrow> 'w \<Rightarrow> go_error option \<times> 'w"

type_synonym 'w task_handler = "ctx \<Rightarrow> 'w task \<Rightarrow> step \<Rightarrow> 'w \<Rightarrow> go_error option \<times> 'w"

record 'w taskOptions =
  cancelContext :: bool
  startStepManagerOpt :: bool
  callbacks :: "'w task_callback list"
  handler :: "'w task_handler option"

definition zero_taskOptions :: "'w taskOptions" where
  "zero_taskOptions = \<lparr>cancelContext = False, startStepManagerOpt = False, callbacks = [], handler = None\<rparr>"

text \<open>Options passed to \<open>AddTask\<close>: the ones a task may set for itself, a handler, callbacks.\<close>

datatype 'w task_option =
    GlobalOption instance_option
  | WithHandler "'w task_handler option"
  | WithCallback "'w task_callback list"

fun applyTaskInstanceOpt :: "instance_option \<Rightarrow> 'w taskOptions \<Rightarrow> 'w taskOptions" where
  "applyTaskInstanceOpt (WithCancelContext b) opts = opts\<lparr>cancelContext := b\<rparr>"
| "applyTaskInstanceOpt WithStartStepManager opts = opts\<lparr>startStepManagerOpt := True\<rparr>"

fun applyTaskOpt :: "'w task_option \<Rightarrow> 'w taskOptions \<Rightarrow> 'w taskOptions" where
  "applyTaskOpt (GlobalOption o1) opts = applyTaskInstanceOpt o1 opts"
| "applyTaskOpt (WithHandler h) opts = opts\<lparr>handler := h\<rparr>"
| "applyTaskOpt (WithCallback cbs) opts = opts\<lparr>callbacks := callbacks opts @ cbs\<rparr>"

lemma applyTaskInstanceOpt_frame [simp]:
  "callbacks (applyTaskInstanceOpt io opts) = callbacks opts"
  "handler (applyTaskInstanceOpt io opts) = handler opts"
  by (cases io; simp)+

lemma fold_applyTaskInstanceOpt_frame [simp]:
  "callbacks (fold applyTaskInstanceOpt ios opts) = callbacks opts"
  "handler (fold applyTaskInstanceOpt ios opts) = handler opts"
  by (induction ios arbitrary: opts) simp_all

lemma fold_applyTaskInstanceOpt_ssm:
  "startStepManagerOpt (fold applyTaskInstanceOpt ios opts) \<longleftrightarrow>
     startStepManagerOpt opts \<or> WithStartStepManager \<in> set ios"
proof (induction ios arbitrary: opts)
  case Nil
  then show ?case by simp
next
  case (Cons io ios)
  then show ?case by (cases io) auto
qed

end
