(* ===== verification/TaskWrapper.thy ===== *)
theory TaskWrapper
  imports Tasks "HOL-Library.Sublist"
begin

text \<open>
  The \<open>taskWrapper\<close> of \<open>task_wrapper.go\<close>: the bookkeeping that lets each step of a task be started
  at most once and in order, and the call of one step with its callbacks, handler and error handler.
\<close>

section \<open>State and options\<close>

record 'w taskWrapper =
  tw_task :: "'w task"
  tw_addOptions :: "'w taskOptions"
  tw_executeSteps :: "step list"
  tw_startCancel :: "ctx option"
  tw_finishCtx :: "ctx option"

definition newTaskWrapper :: "'w task \<Rightarrow> 'w task_option list \<Rightarrow> 'w taskWrapper" where
  "newTaskWrapper t options =
     \<lparr>tw_task = t, tw_addOptions = fold applyTaskOpt options zero_taskOptions,
      tw_executeSteps = [], tw_startCancel = None, tw_finishCtx = None\<rparr>"

text \<open>The options given to \<open>AddTask\<close>, with the ones of the task info applied over them.\<close>

definition currentOptions :: "'w taskWrapper \<Rightarrow> 'w \<Rightarrow> 'w taskOptions" where
  "currentOptions tw w =
     fold applyTaskInstanceOpt (ti_Options (GetTaskInfo (tw_task tw) w)) (tw_addOptions tw)"

section \<open>The step bookkeeping\<close>

definition internalAddStepDone :: "step \<Rightarrow> 'w taskWrapper \<Rightarrow> 'w taskWrapper" where
  "internalAddStepDone s tw = tw\<lparr>tw_executeSteps := tw_executeSteps tw @ [s]\<rparr>"

definition addStepDone :: "step \<Rightarrow> 'w taskWrapper \<Rightarrow> 'w taskWrapper" where
  "addStepDone s tw = internalAddStepDone s tw"

definition internalCanStartStep :: "'w taskWrapper \<Rightarrow> 'w \<Rightarrow> step \<Rightarrow> bool" where
  "internalCanStartStep tw w s =
     (if taskHasStep (tw_task tw) s w then True
      else if s = StepStop then startStepManagerOpt (currentOptions tw w)
      else False)"

definition internalStepIsDone :: "'w taskWrapper \<Rightarrow> step \<Rightarrow> bool" where
  "internalStepIsDone tw s = (s \<in> set (tw_executeSteps tw))"

fun internalStepsAreDoneAny :: "'w taskWrapper \<Rightarrow> step list \<Rightarrow> bool" where
  "internalStepsAreDoneAny tw [] = False"
| "internalStepsAreDoneAny tw (s # ss) =
     (if internalStepIsDone tw s then True else internalStepsAreDoneAny tw ss)"

definition orderError :: "'w taskWrapper \<Rightarrow> step \<Rightarrow> go_error" where
  "orderError tw s =
     Errorf (''%w: invalid order for step '' @ quoted (step_String s) @ '': already done ''
             @ quoted (stringerString (tw_executeSteps tw)))
       [defs_err ErrInvalidStepOrder]"

fun internalPrevStepIsDone :: "'w taskWrapper \<Rightarrow> step \<Rightarrow> go_error + bool" where
  "internalPrevStepIsDone tw StepSetup =
     (if \<not> internalStepsAreDoneAny tw [StepSetup, StepStart, StepStop, StepTeardown] then Inr True
      else Inl (orderError tw StepSetup))"
| "internalPrevStepIsDone tw StepStart =
     (if \<not> internalStepsAreDoneAny tw [StepStart, StepStop, StepTeardown]
      then Inr (internalStepsAreDoneAny tw [StepSetup])
      else Inl (orderError tw StepStart))"
| "internalPrevStepIsDone tw StepStop =
     (if \<not> internalStepsAreDoneAny tw [StepStop, StepTeardown]
      then Inr (internalStepsAreDoneAny tw [StepStart])
      else Inl (orderError tw StepStop))"
| "internalPrevStepIsDone tw StepTeardown =
     (if \<not> internalStepsAreDoneAny tw [StepTeardown]
      then Inr (internalStepsAreDoneAny tw [StepSetup])
      else Inl (orderError tw StepTeardown))"
| "internalPrevStepIsDone tw (StepOther i) =
     Inl (Errorf (''%w: step '' @ quoted (step_String (StepOther i)) @ '' is not a valid step'')
       [defs_err ErrInvalidTaskStep])"

text \<open>The result is the pair of values the method returns: the decision, or the error.\<close>

definition checkStartStep :: "'w taskWrapper \<Rightarrow> 'w \<Rightarrow> step \<Rightarrow> 'w taskWrapper \<times> (go_error + bool)" where
  "checkStartStep tw w s =
     (let canStartStep = internalCanStartStep tw w s in
      case internalPrevStepIsDone tw s of
        Inl err \<Rightarrow> (tw, Inl err)
      | Inr prevStepIsDone \<Rightarrow>
          (if \<not> canStartStep \<and> prevStepIsDone then internalAddStepDone s tw else tw,
           Inr (canStartStep \<and> prevStepIsDone)))"

definition checkRunStep :: "'w taskWrapper \<Rightarrow> 'w \<Rightarrow> step \<Rightarrow> bool" where
  "checkRunStep tw w s = taskHasStep (tw_task tw) s w"

section \<open>Running a step\<close>

text \<open>The callbacks of the manager first, then the ones of the task, each in order.\<close>

definition runCallbacks ::
  "ctx \<Rightarrow> string \<Rightarrow> step \<Rightarrow> callbackStep \<Rightarrow> go_error option \<Rightarrow> 'w task_callback list
    \<Rightarrow> 'w taskWrapper \<Rightarrow> 'w \<Rightarrow> 'w" where
  "runCallbacks c stage s cs err cbs tw w =
     fold (\<lambda>cb. cb c (tw_task tw) stage s cs err) (cbs @ callbacks (currentOptions tw w)) w"

text \<open>
  \<open>run\<close> in the three parts the goroutine of the run machine executes one after another: up to the
  call, the call, and from the return on. \<open>tw_run\<close> is their composition.
\<close>

definition run_mark :: "step \<Rightarrow> 'w taskWrapper \<Rightarrow> 'w taskWrapper" where
  "run_mark s tw = (if s \<noteq> StepSetup then addStepDone s tw else tw)"

definition run_call :: "ctx \<Rightarrow> step \<Rightarrow> 'w taskWrapper \<Rightarrow> 'w \<Rightarrow> go_error option \<times> 'w" where
  "run_call c s tw w =
     (case handler (currentOptions tw w) of
        Some h \<Rightarrow> h c (tw_task tw) s w
      | None \<Rightarrow> task_Run (tw_task tw) c s w)"

definition run_handle_error ::
  "ctx \<Rightarrow> step \<Rightarrow> 'w task_error_handler option \<Rightarrow> 'w taskWrapper \<Rightarrow> go_error option \<times> 'w
    \<Rightarrow> go_error option \<times> 'w" where
  "run_handle_error c s eh tw r =
     (case eh of Some h \<Rightarrow> h c (tw_task tw) s (fst r) (snd r) | None \<Rightarrow> r)"

definition run_mark_setup :: "step \<Rightarrow> go_error option \<Rightarrow> 'w taskWrapper \<Rightarrow> 'w taskWrapper" where
  "run_mark_setup s err tw = (if s = StepSetup \<and> err = None then addStepDone s tw else tw)"

definition tw_run ::
  "ctx \<Rightarrow> string \<Rightarrow> step \<Rightarrow> 'w task_callback list \<Rightarrow> 'w task_error_handler option
    \<Rightarrow> 'w taskWrapper \<times> 'w \<Rightarrow> go_error option \<times> 'w taskWrapper \<times> 'w" where
  "tw_run c stage s cbs eh = (\<lambda>(tw, w).
     let w1 = runCallbacks c stage s CallbackStepBefore None cbs tw w;
         tw1 = run_mark s tw;
         r = run_call c s tw1 w1;
         (err, w2) = run_handle_error c s eh tw1 r;
         tw2 = run_mark_setup s err tw1;
         w3 = runCallbacks c stage s CallbackStepAfter err cbs tw2 w2
     in (err, tw2, w3))"

section \<open>The ledger contract\<close>

text \<open>
  What the manager relies on when it asks a wrapper whether a step may start: an order error is
  reported exactly when a later or equal step is already marked, a step is let through only when the
  step it depends on is marked, and a check marks at most the step it was asked about, and only when
  it does not let it through.
\<close>

fun prev_step :: "step \<Rightarrow> step option" where
  "prev_step StepSetup = None"
| "prev_step StepStart = Some StepSetup"
| "prev_step StepStop = Some StepStart"
| "prev_step StepTeardown = Some StepSetup"
| "prev_step (StepOther _) = None"

locale step_ledger =
  fixes marked :: "'t \<Rightarrow> step set"
    and check :: "'t \<Rightarrow> 'w \<Rightarrow> step \<Rightarrow> 't \<times> (go_error + bool)"
    and mark :: "step \<Rightarrow> 't \<Rightarrow> 't"
  assumes marked_mark: "marked (mark s t) = insert s (marked t)"
    and check_error_iff: "step_known s \<Longrightarrow>
          (\<exists>e. snd (check t w s) = Inl e) \<longleftrightarrow> (\<exists>d\<in>marked t. step_known d \<and> s \<le> d)"
    and check_error_keeps: "snd (check t w s) = Inl e \<Longrightarrow> fst (check t w s) = t"
    and check_go_keeps: "snd (check t w s) = Inr True \<Longrightarrow> fst (check t w s) = t"
    and check_skip_marks: "snd (check t w s) = Inr False \<Longrightarrow>
          marked (fst (check t w s)) \<subseteq> insert s (marked t) \<and> marked t \<subseteq> marked (fst (check t w s))"
    and check_prev: "snd (check t w s) = Inr True \<Longrightarrow> prev_step s = Some p \<Longrightarrow> p \<in> marked t"
begin

lemma check_total: "step_known s \<Longrightarrow> \<forall>d\<in>marked t. d < s \<Longrightarrow> \<exists>b. snd (check t w s) = Inr b"
  using check_error_iff [of s t w] by (cases "snd (check t w s)") (auto simp: not_less [symmetric])

lemma check_grows: "marked t \<subseteq> marked (fst (check t w s))"
proof (cases "snd (check t w s)")
  case (Inl e)
  then show ?thesis by (simp add: check_error_keeps)
next
  case (Inr b)
  then show ?thesis by (cases b) (simp_all add: check_go_keeps check_skip_marks)
qed

lemma check_adds: "marked (fst (check t w s)) \<subseteq> insert s (marked t)"
proof (cases "snd (check t w s)")
  case (Inl e)
  then show ?thesis by (auto simp: check_error_keeps)
next
  case (Inr b)
  then show ?thesis by (cases b) (auto simp: check_go_keeps dest: check_skip_marks)
qed

lemma check_go_free: "step_known s \<Longrightarrow> snd (check t w s) = Inr True \<Longrightarrow> d \<in> marked t \<Longrightarrow> step_known d \<Longrightarrow> d < s"
  using check_error_iff [of s t w] by (auto simp: not_le)

end

lemma internalStepsAreDoneAny_iff [simp, tw_simps]:
  "internalStepsAreDoneAny tw ss \<longleftrightarrow> (\<exists>s\<in>set ss. s \<in> set (tw_executeSteps tw))"
  by (induction ss) (auto simp: internalStepIsDone_def)

lemma addStepDone_simps [simp, tw_simps]:
  "tw_executeSteps (addStepDone s tw) = tw_executeSteps tw @ [s]"
  "tw_task (addStepDone s tw) = tw_task tw"
  "tw_addOptions (addStepDone s tw) = tw_addOptions tw"
  "tw_startCancel (addStepDone s tw) = tw_startCancel tw"
  "tw_finishCtx (addStepDone s tw) = tw_finishCtx tw"
  by (simp_all add: addStepDone_def internalAddStepDone_def)

lemma internalPrevStepIsDone_error:
  "step_known s \<Longrightarrow> (\<exists>e. internalPrevStepIsDone tw s = Inl e) \<longleftrightarrow>
     (\<exists>d\<in>set (tw_executeSteps tw). step_known d \<and> s \<le> d)"
proof -
  assume "step_known s"
  have later: "(\<exists>d\<in>set (tw_executeSteps tw). step_known d \<and> s \<le> d) \<longleftrightarrow>
      (\<exists>d\<in>set (filter ((\<le>) s) allSteps). d \<in> set (tw_executeSteps tw))"
    by (auto simp: set_allSteps)
  show ?thesis using \<open>step_known s\<close> unfolding later by (cases s) (auto simp: allSteps_def)
qed

lemma checkStartStep_cases:
  "(\<exists>e. internalPrevStepIsDone tw s = Inl e \<and> checkStartStep tw w s = (tw, Inl e)) \<or>
   (\<exists>p. internalPrevStepIsDone tw s = Inr p \<and>
      checkStartStep tw w s =
        (if \<not> internalCanStartStep tw w s \<and> p then internalAddStepDone s tw else tw,
         Inr (internalCanStartStep tw w s \<and> p)))"
  by (cases "internalPrevStepIsDone tw s") (simp_all add: checkStartStep_def)

interpretation ledger: step_ledger "\<lambda>tw. set (tw_executeSteps tw)" checkStartStep addStepDone
proof unfold_locales
  fix s :: step and tw :: "'a taskWrapper" and w :: 'a and e p
  show "set (tw_executeSteps (addStepDone s tw)) = insert s (set (tw_executeSteps tw))" by simp
  show "step_known s \<Longrightarrow> (\<exists>e. snd (checkStartStep tw w s) = Inl e) \<longleftrightarrow>
      (\<exists>d\<in>set (tw_executeSteps tw). step_known d \<and> s \<le> d)"
    using checkStartStep_cases [of tw s w] internalPrevStepIsDone_error [of s tw] by auto
  show "snd (checkStartStep tw w s) = Inl e \<Longrightarrow> fst (checkStartStep tw w s) = tw"
    using checkStartStep_cases [of tw s w] by auto
  show "snd (checkStartStep tw w s) = Inr True \<Longrightarrow> fst (checkStartStep tw w s) = tw"
    using checkStartStep_cases [of tw s w] by auto
  show "snd (checkStartStep tw w s) = Inr False \<Longrightarrow>
      set (tw_executeSteps (fst (checkStartStep tw w s))) \<subseteq> insert s (set (tw_executeSteps tw)) \<and>
      set (tw_executeSteps tw) \<subseteq> set (tw_executeSteps (fst (checkStartStep tw w s)))"
    using checkStartStep_cases [of tw s w] by (auto simp: internalAddStepDone_def split: if_splits)
  show "snd (checkStartStep tw w s) = Inr True \<Longrightarrow> prev_step s = Some p \<Longrightarrow> p \<in> set (tw_executeSteps tw)"
    using checkStartStep_cases [of tw s w] by (cases s) (auto split: if_splits)
qed

lemma checkStartStep_frame [simp, tw_simps]:
  "tw_task (fst (checkStartStep tw w s)) = tw_task tw"
  "tw_addOptions (fst (checkStartStep tw w s)) = tw_addOptions tw"
  "tw_startCancel (fst (checkStartStep tw w s)) = tw_startCancel tw"
  "tw_finishCtx (fst (checkStartStep tw w s)) = tw_finishCtx tw"
  using checkStartStep_cases [of tw s w] by (auto simp: internalAddStepDone_def)

lemma checkStartStep_executeSteps:
  "tw_executeSteps (fst (checkStartStep tw w s)) = tw_executeSteps tw \<or>
   (tw_executeSteps (fst (checkStartStep tw w s)) = tw_executeSteps tw @ [s] \<and>
    snd (checkStartStep tw w s) = Inr False \<and> \<not> internalCanStartStep tw w s)"
  using checkStartStep_cases [of tw s w] by (auto simp: internalAddStepDone_def split: if_splits)

section \<open>One wrapper under arbitrary requests\<close>

text \<open>
  A driver that asks for steps one after another, in any order and any number of times, each time
  making the calls the manager makes: \<open>checkStartStep\<close>, \<open>checkRunStep\<close>, \<open>run\<close>. The result lists the
  steps that really ran, with their errors.
\<close>

definition tw_request ::
  "ctx \<Rightarrow> string \<Rightarrow> 'w task_callback list \<Rightarrow> 'w task_error_handler option
    \<Rightarrow> 'w taskWrapper \<times> 'w \<Rightarrow> step \<Rightarrow> ('w taskWrapper \<times> 'w) \<times> (step \<times> go_error option) list" where
  "tw_request c stage cbs eh st s =
     (let (tw1, res) = checkStartStep (fst st) (snd st) s in
      if res = Inr True \<and> checkRunStep tw1 (snd st) s
      then (let (err, tw2, w2) = tw_run c stage s cbs eh (tw1, snd st) in ((tw2, w2), [(s, err)]))
      else ((tw1, snd st), []))"

fun tw_requests ::
  "ctx \<Rightarrow> string \<Rightarrow> 'w task_callback list \<Rightarrow> 'w task_error_handler option
    \<Rightarrow> 'w taskWrapper \<times> 'w \<Rightarrow> step list \<Rightarrow> ('w taskWrapper \<times> 'w) \<times> (step \<times> go_error option) list" where
  "tw_requests c stage cbs eh st [] = (st, [])"
| "tw_requests c stage cbs eh st (s # ss) =
     (let (st1, l1) = tw_request c stage cbs eh st s;
          (st2, l2) = tw_requests c stage cbs eh st1 ss
      in (st2, l1 @ l2))"

text \<open>The entries of the log that count as done: everything but a setup that failed.\<close>

definition effective :: "(step \<times> go_error option) list \<Rightarrow> step list" where
  "effective l = map fst (filter (\<lambda>(s, err). s \<noteq> StepSetup \<or> err = None) l)"

definition ledger_ok :: "'w taskWrapper \<Rightarrow> bool" where
  "ledger_ok tw \<longleftrightarrow> sorted_wrt (<) (tw_executeSteps tw) \<and> list_all step_known (tw_executeSteps tw)"

lemma sorted_wrt_snoc: "sorted_wrt R (xs @ [x]) \<longleftrightarrow> sorted_wrt R xs \<and> (\<forall>y\<in>set xs. R y x)"
  by (simp add: sorted_wrt_append)

lemma tw_run_steps:
  assumes "tw_run c stage s cbs eh (tw, w) = (err, tw', w')"
  shows "tw_executeSteps tw' = tw_executeSteps tw @ effective [(s, err)]"
  using assms by (auto simp: tw_run_def effective_def run_mark_def run_mark_setup_def Let_def
      split: prod.splits if_splits)

lemma ledger_ok_append:
  assumes "ledger_ok tw" and "step_known s" and "\<forall>d\<in>set (tw_executeSteps tw). d < s"
    and "tw_executeSteps tw' = tw_executeSteps tw @ [s]"
  shows "ledger_ok tw'"
  using assms by (auto simp: ledger_ok_def sorted_wrt_snoc)

lemma check_Inr_known: "snd (checkStartStep tw w s) = Inr b \<Longrightarrow> step_known s"
  by (cases s) (auto simp: checkStartStep_def)

lemma check_Inr_free:
  assumes "ledger_ok tw" and "snd (checkStartStep tw w s) = Inr b"
  shows "\<forall>d\<in>set (tw_executeSteps tw). d < s"
proof -
  have "step_known s" using assms(2) by (rule check_Inr_known)
  with assms show ?thesis
    using ledger.check_error_iff [of s tw w] by (auto simp: ledger_ok_def list_all_iff not_le)
qed

text \<open>A request appends what it ran, or (when it lets nothing through) at most the skipped step.\<close>

lemma tw_request_steps:
  assumes "ledger_ok tw" and "tw_request c stage cbs eh (tw, w) s = (st', l)"
  shows "\<exists>ext. tw_executeSteps (fst st') = tw_executeSteps tw @ ext \<and> effective l = [x\<leftarrow>ext. l \<noteq> []] \<and>
    (ext = [] \<or> ext = [s] \<and> step_known s \<and> (\<forall>d\<in>set (tw_executeSteps tw). d < s))"
proof -
  obtain tw1 res where chk: "checkStartStep tw w s = (tw1, res)" by (meson surj_pair)
  have known: "step_known s \<and> (\<forall>d\<in>set (tw_executeSteps tw). d < s)" if "res = Inr b" for b
    using that chk assms(1) check_Inr_free [of tw w s b] check_Inr_known [of tw w s b] by simp
  show ?thesis
  proof (cases "res = Inr True \<and> checkRunStep tw1 w s")
    case True
    then have tw1: "tw1 = tw" using chk ledger.check_go_keeps [of tw w s] by simp
    obtain err tw2 w2 where run: "tw_run c stage s cbs eh (tw, w) = (err, tw2, w2)"
      by (metis prod_cases3)
    have "st' = (tw2, w2)" "l = [(s, err)]"
      using assms(2) True chk tw1 run by (auto simp: tw_request_def)
    moreover have "effective [(s, err)] = [] \<or> effective [(s, err)] = [s]"
      by (simp add: effective_def)
    ultimately show ?thesis
      using tw_run_steps [OF run] known True by (intro exI [of _ "effective l"]) auto
  next
    case False
    then have "st' = (tw1, w)" "l = []"
      using assms(2) chk by (auto simp: tw_request_def)
    with checkStartStep_executeSteps [of tw w s] known chk show ?thesis
      by (auto simp: effective_def)
  qed
qed

lemma tw_request_ok:
  assumes "ledger_ok tw" and "tw_request c stage cbs eh (tw, w) s = (st', l)"
  shows "ledger_ok (fst st') \<and>
    (\<exists>ext. tw_executeSteps (fst st') = tw_executeSteps tw @ ext \<and> subseq (effective l) ext)"
proof -
  obtain ext where ext: "tw_executeSteps (fst st') = tw_executeSteps tw @ ext"
      "effective l = [x\<leftarrow>ext. l \<noteq> []]"
      "ext = [] \<or> ext = [s] \<and> step_known s \<and> (\<forall>d\<in>set (tw_executeSteps tw). d < s)"
    using tw_request_steps [OF assms] by blast
  then have "subseq (effective l) ext" by (simp add: subseq_filter_left)
  moreover have "ledger_ok (fst st')"
    using ext assms(1) by (auto simp: ledger_ok_def sorted_wrt_append)
  ultimately show ?thesis using ext(1) by blast
qed

lemma effective_append [simp]: "effective (xs @ ys) = effective xs @ effective ys"
  by (simp add: effective_def)

lemma tw_requests_ok:
  "ledger_ok (fst st) \<Longrightarrow> tw_requests c stage cbs eh st ss = (st', l) \<Longrightarrow>
     ledger_ok (fst st') \<and>
     (\<exists>ext. tw_executeSteps (fst st') = tw_executeSteps (fst st) @ ext \<and> subseq (effective l) ext)"
proof (induction ss arbitrary: st l)
  case Nil
  then show ?case by (simp add: effective_def)
next
  case (Cons s ss)
  obtain tw w where st: "st = (tw, w)" by force
  obtain st1 l1 where r1: "tw_request c stage cbs eh (tw, w) s = (st1, l1)" by (meson surj_pair)
  obtain l2 where r2: "tw_requests c stage cbs eh st1 ss = (st', l2)" and l: "l = l1 @ l2"
    using Cons.prems(2) r1 st by (auto split: prod.splits)
  have "ledger_ok tw" using Cons.prems(1) st by simp
  from tw_request_ok [OF this r1] obtain ext1 where ok1: "ledger_ok (fst st1)"
    and ext1: "tw_executeSteps (fst st1) = tw_executeSteps tw @ ext1" "subseq (effective l1) ext1"
    by blast
  obtain ext2 where ok2: "ledger_ok (fst st')"
    and ext2: "tw_executeSteps (fst st') = tw_executeSteps (fst st1) @ ext2" "subseq (effective l2) ext2"
    using Cons.IH [OF ok1 r2] by blast
  have "subseq (effective l) (ext1 @ ext2)"
    unfolding l effective_append by (intro list_emb_append_mono ext1(2) ext2(2))
  with ok2 ext1(1) ext2(1) st show ?case by (intro conjI exI [of _ "ext1 @ ext2"]) simp_all
qed

end
