(* ===== verification/Stages.thy ===== *)
theory Stages
  imports TaskWrapper "HOL-Library.AList"
begin

text \<open>
  \<open>run_helpers.go\<close>: the tasks of each stage, a map from the stage name to the slice of wrappers, and
  the two iteration orders over stages. A pointer to a wrapper is the pair of its stage and its
  index in the stage: \<open>add\<close> only appends, so the pair stays valid.
\<close>

type_synonym 'w stageTasks = "(string \<times> 'w taskWrapper list) list"

definition newStageTasks :: "'w stageTasks" where
  "newStageTasks = []"

definition stageTasks_get :: "'w stageTasks \<Rightarrow> string \<Rightarrow> 'w taskWrapper list" where
  "stageTasks_get st stage = (case map_of st stage of Some tws \<Rightarrow> tws | None \<Rightarrow> [])"

definition stageTasks_add :: "string \<Rightarrow> 'w taskWrapper \<Rightarrow> 'w stageTasks \<Rightarrow> 'w stageTasks" where
  "stageTasks_add stage tw st = AList.update stage (stageTasks_get st stage @ [tw]) st"

definition stepTaskCount :: "'w stageTasks \<Rightarrow> 'w \<Rightarrow> step \<Rightarrow> nat" where
  "stepTaskCount st w s =
     sum_list (map (\<lambda>(stage, tws). length (filter (\<lambda>tw. taskHasStep (tw_task tw) s w) tws)) st)"

definition reversedSlice :: "'a list \<Rightarrow> 'a list" where
  "reversedSlice s = map (\<lambda>i. s ! i) (rev [0..<length s])"

definition stagesIter :: "string list \<Rightarrow> bool \<Rightarrow> string list" where
  "stagesIter stages reversed = (if reversed then reversedSlice stages else stages)"

section \<open>Pointers to wrappers\<close>

type_synonym tref = "string \<times> nat"

definition tw_valid :: "'w stageTasks \<Rightarrow> tref \<Rightarrow> bool" where
  "tw_valid st r = (snd r < length (stageTasks_get st (fst r)))"

definition tw_at :: "'w stageTasks \<Rightarrow> tref \<Rightarrow> 'w taskWrapper" where
  "tw_at st r = stageTasks_get st (fst r) ! snd r"

definition tw_update :: "tref \<Rightarrow> 'w taskWrapper \<Rightarrow> 'w stageTasks \<Rightarrow> 'w stageTasks" where
  "tw_update r tw st = AList.update (fst r) ((stageTasks_get st (fst r))[snd r := tw]) st"

section \<open>Laws\<close>

lemma reversedSlice_rev [simp]: "reversedSlice s = rev s"
  by (simp add: reversedSlice_def rev_map [symmetric] map_nth)

lemma stagesIter_simps [simp]:
  "stagesIter stages True = rev stages" "stagesIter stages False = stages"
  by (simp_all add: stagesIter_def)

lemma stageTasks_get_new [simp]: "stageTasks_get newStageTasks stage = []"
  by (simp add: stageTasks_get_def newStageTasks_def)

lemma stageTasks_get_add [simp]:
  "stageTasks_get (stageTasks_add stage tw st) stage' =
     (if stage' = stage then stageTasks_get st stage @ [tw] else stageTasks_get st stage')"
  by (simp add: stageTasks_add_def stageTasks_get_def update_conv)

lemma stageTasks_get_update:
  "stageTasks_get (tw_update r tw st) stage =
     (if stage = fst r then (stageTasks_get st stage)[snd r := tw] else stageTasks_get st stage)"
  by (simp add: tw_update_def stageTasks_get_def update_conv)

lemma length_get_update [simp]:
  "length (stageTasks_get (tw_update r tw st) stage) = length (stageTasks_get st stage)"
  by (simp add: stageTasks_get_update)

lemma tw_valid_update [simp]: "tw_valid (tw_update r tw st) r' = tw_valid st r'"
  by (simp add: tw_valid_def)

lemma tw_at_update:
  "tw_valid st r \<Longrightarrow> tw_at (tw_update r tw st) r' = (if r' = r then tw else tw_at st r')"
  by (cases r; cases r') (auto simp: tw_at_def tw_valid_def stageTasks_get_update)

lemma tw_at_update_other [simp]: "r' \<noteq> r \<Longrightarrow> tw_at (tw_update r tw st) r' = tw_at st r'"
  by (cases r; cases r') (auto simp: tw_at_def stageTasks_get_update)

lemma tw_at_update_same [simp]: "tw_valid st r \<Longrightarrow> tw_at (tw_update r tw st) r = tw"
  by (simp add: tw_at_update)

lemma distinct_keys_add [simp]: "distinct (map fst st) \<Longrightarrow> distinct (map fst (stageTasks_add s tw st))"
  by (simp add: stageTasks_add_def distinct_update)

lemma distinct_keys_update [simp]: "distinct (map fst st) \<Longrightarrow> distinct (map fst (tw_update r tw st))"
  by (simp add: tw_update_def distinct_update)

lemma keys_add: "set (map fst (stageTasks_add s tw st)) = insert s (set (map fst st))"
  by (simp add: stageTasks_add_def dom_update)

lemma stageTasks_get_mem:
  "tw \<in> set (stageTasks_get st stage) \<longleftrightarrow> (\<exists>tws. map_of st stage = Some tws \<and> tw \<in> set tws)"
  by (cases "map_of st stage") (simp_all add: stageTasks_get_def)

text \<open>
  The count is independent of the iteration order of the Go map: it is the number of the wrappers,
  over the keys of the map, whose task has the step.
\<close>

lemma stepTaskCount_zero:
  assumes "distinct (map fst st)"
  shows "stepTaskCount st w s = 0 \<longleftrightarrow>
    (\<forall>stage. \<forall>tw\<in>set (stageTasks_get st stage). \<not> taskHasStep (tw_task tw) s w)"
proof -
  have "stepTaskCount st w s = 0 \<longleftrightarrow>
      (\<forall>(stage, tws)\<in>set st. \<forall>tw\<in>set tws. \<not> taskHasStep (tw_task tw) s w)"
    by (auto simp: stepTaskCount_def filter_empty_conv)
  also have "\<dots> \<longleftrightarrow> (\<forall>stage tws. map_of st stage = Some tws \<longrightarrow>
      (\<forall>tw\<in>set tws. \<not> taskHasStep (tw_task tw) s w))"
    using assms by (fastforce dest: map_of_SomeD)
  also have "\<dots> \<longleftrightarrow> (\<forall>stage. \<forall>tw\<in>set (stageTasks_get st stage). \<not> taskHasStep (tw_task tw) s w)"
    by (simp add: Ball_def stageTasks_get_mem) blast
  finally show ?thesis .
qed

end
