(* ===== verification/Service.thy ===== *)
theory Service
  imports Tasks
begin

text \<open>
  \<open>service.go\<close>: a service with a start, a stop and optional setup and teardown methods, wrapped into
  a task.
\<close>

type_synonym 'w service_method = "ctx \<Rightarrow> 'w \<Rightarrow> go_error option \<times> 'w"

record 'w service =
  svc_Start :: "'w service_method"
  svc_Stop :: "'w service_method"
  svc_Setup :: "'w service_method option"
  svc_Teardown :: "'w service_method option"
  svc_TaskInfo :: "('w \<Rightarrow> 'w task_info) option"
  svc_type :: string

record 'w serviceTask =
  st_service :: "'w service"
  st_steps :: "step list"

definition newServiceTask :: "'w service \<Rightarrow> 'w serviceTask" where
  "newServiceTask service =
     (let t = \<lparr>st_service = service, st_steps = [StepStart, StepStop]\<rparr>;
          t = (if svc_Setup service \<noteq> None then t\<lparr>st_steps := st_steps t @ [StepSetup]\<rparr> else t);
          t = (if svc_Teardown service \<noteq> None then t\<lparr>st_steps := st_steps t @ [StepTeardown]\<rparr> else t)
      in t)"

definition serviceTask_Run :: "'w serviceTask \<Rightarrow> ctx \<Rightarrow> step \<Rightarrow> 'w \<Rightarrow> go_error option \<times> 'w" where
  "serviceTask_Run t c s w =
     (case s of
        StepSetup \<Rightarrow> (case svc_Setup (st_service t) of Some f \<Rightarrow> f c w | None \<Rightarrow> (None, w))
      | StepStart \<Rightarrow> svc_Start (st_service t) c w
      | StepStop \<Rightarrow> svc_Stop (st_service t) c w
      | StepTeardown \<Rightarrow> (case svc_Teardown (st_service t) of Some f \<Rightarrow> f c w | None \<Rightarrow> (None, w))
      | StepOther _ \<Rightarrow> (None, w))"

definition serviceTask_TaskInfo :: "'w serviceTask \<Rightarrow> 'w \<Rightarrow> 'w task_info" where
  "serviceTask_TaskInfo t w =
     (let info = (case svc_TaskInfo (st_service t) of Some ti \<Rightarrow> ti w | None \<Rightarrow> zero_task_info)
      in info\<lparr>ti_Steps := Some (st_steps t)\<rparr>)"

definition serviceTask_String :: "'w serviceTask \<Rightarrow> 'w \<Rightarrow> string" where
  "serviceTask_String t w =
     (let tn = ti_Name (serviceTask_TaskInfo t w) in
      if tn \<noteq> '''' then tn else svc_type (st_service t))"

definition ServiceAsTask :: "'w service \<Rightarrow> 'w task" where
  "ServiceAsTask service =
     (let t = newServiceTask service in
      \<lparr>task_Run = serviceTask_Run t, task_TaskInfo = Some (serviceTask_TaskInfo t),
       task_Stringer = Some (serviceTask_String t), task_type = ''*svcinit.serviceTask''\<rparr>)"

lemma ServiceAsTask_hasStep:
  "taskHasStep (ServiceAsTask service) s w \<longleftrightarrow>
     s = StepStart \<or> s = StepStop \<or>
     s = StepSetup \<and> svc_Setup service \<noteq> None \<or> s = StepTeardown \<and> svc_Teardown service \<noteq> None"
  by (auto simp: taskHasStep_def taskSteps_def GetTaskInfo_def ServiceAsTask_def
      serviceTask_TaskInfo_def newServiceTask_def Let_def)

end
