(* ===== verification/Manager.thy ===== *)
theory Manager
  imports Stages Service
begin

text \<open>
  The manager of \<open>manager.go\<close>: its fields, its options, the registration of tasks, and the requests
  that other goroutines make through \<open>Shutdown\<close>, \<open>AddTask\<close> and \<open>AddInitError\<close>. Each of these holds
  \<open>m.mu\<close> from its first to its last line, so it is one function on the manager and the context
  store. Logging is left out.
\<close>

section \<open>The manager\<close>

text \<open>
  A \<open>beforeRun\<close> callback derives a new context from the one it gets, so it works on the context
  store; a nil context, which Go allows it to get and to return, is \<open>None\<close>. A \<open>CancelCauseFunc\<close>
  field holds the context it cancels.
\<close>

type_synonym before_run = "ctx option \<Rightarrow> ctxs \<Rightarrow> ctxs \<times> ctx option \<times> go_error option"
type_synonym after_run = "ctx \<Rightarrow> go_error option \<Rightarrow> go_error option \<Rightarrow> go_error option"

record 'w manager =
  m_stages :: "string list"
  m_tasks :: "'w stageTasks"
  m_shutdownTimeout :: duration
  m_teardownTimeout :: duration
  m_enforceShutdownTimeout :: bool
  m_beforeRun :: "before_run list"
  m_afterRun :: "after_run list"
  m_managerCallbacks :: "'w manager_callback list"
  m_taskCallbacks :: "'w task_callback list"
  m_taskErrorHandler :: "'w task_error_handler option"
  m_logger :: nat
  m_isRunning :: bool
  m_startupCtx :: "ctx option"
  m_taskDoneCtx :: "ctx option"
  m_startupCancel :: "ctx option"
  m_taskDoneCancel :: "ctx option"
  m_pendingStartupCancel :: "go_error option"
  m_tasksRunning :: nat
  m_initErrors :: "go_error list"

definition StageDefault :: string where
  "StageDefault = ''default''"

definition second :: duration where
  "second = 1000000000"

text \<open>\<open>init\<close> checks the stages, with the set of the stages seen so far.\<close>

fun init_loop :: "string set \<Rightarrow> string list \<Rightarrow> go_error option" where
  "init_loop seen [] = None"
| "init_loop seen (stage # rest) =
     (if stage = '''' then Some (Errorf ''%w: blank stage not allowed'' [defs_err ErrInvalidStage])
      else if stage \<in> seen then
        Some (Errorf (''%w: duplicate stage '' @ quoted stage) [defs_err ErrInvalidStage])
      else init_loop (insert stage seen) rest)"

definition manager_init :: "'w manager \<Rightarrow> go_error option" where
  "manager_init m =
     (if length (m_stages m) = 0 then Some (defs_err ErrNoStage) else init_loop {} (m_stages m))"

definition default_manager :: "'w manager" where
  "default_manager =
     \<lparr>m_stages = [StageDefault], m_tasks = newStageTasks,
      m_shutdownTimeout = 10 * second, m_teardownTimeout = 0, m_enforceShutdownTimeout = True,
      m_beforeRun = [], m_afterRun = [], m_managerCallbacks = [], m_taskCallbacks = [],
      m_taskErrorHandler = None, m_logger = 0,
      m_isRunning = False, m_startupCtx = None, m_taskDoneCtx = None,
      m_startupCancel = None, m_taskDoneCancel = None, m_pendingStartupCancel = None,
      m_tasksRunning = 0, m_initErrors = []\<rparr>"

text \<open>An \<open>Option\<close> is a function on the manager.\<close>

type_synonym 'w manager_option = "'w manager \<Rightarrow> 'w manager"

definition WithLogger :: "nat \<Rightarrow> 'w manager_option" where
  "WithLogger logger m = m\<lparr>m_logger := logger\<rparr>"

definition WithStages :: "string list \<Rightarrow> 'w manager_option" where
  "WithStages stages m = m\<lparr>m_stages := stages\<rparr>"

definition WithShutdownTimeout :: "duration \<Rightarrow> 'w manager_option" where
  "WithShutdownTimeout d m = m\<lparr>m_shutdownTimeout := d\<rparr>"

definition WithTeardownTimeout :: "duration \<Rightarrow> 'w manager_option" where
  "WithTeardownTimeout d m = m\<lparr>m_teardownTimeout := d\<rparr>"

definition WithEnforceShutdownTimeout :: "bool \<Rightarrow> 'w manager_option" where
  "WithEnforceShutdownTimeout b m = m\<lparr>m_enforceShutdownTimeout := b\<rparr>"

definition WithBeforeRun :: "before_run \<Rightarrow> 'w manager_option" where
  "WithBeforeRun f m = m\<lparr>m_beforeRun := m_beforeRun m @ [f]\<rparr>"

definition WithAfterRun :: "after_run \<Rightarrow> 'w manager_option" where
  "WithAfterRun f m = m\<lparr>m_afterRun := m_afterRun m @ [f]\<rparr>"

definition WithManagerCallback :: "'w manager_callback list \<Rightarrow> 'w manager_option" where
  "WithManagerCallback cbs m = m\<lparr>m_managerCallbacks := m_managerCallbacks m @ cbs\<rparr>"

definition WithTaskCallback :: "'w task_callback list \<Rightarrow> 'w manager_option" where
  "WithTaskCallback cbs m = m\<lparr>m_taskCallbacks := m_taskCallbacks m @ cbs\<rparr>"

definition WithTaskErrorHandler :: "'w task_error_handler option \<Rightarrow> 'w manager_option" where
  "WithTaskErrorHandler h m = m\<lparr>m_taskErrorHandler := h\<rparr>"

definition New :: "'w manager_option list \<Rightarrow> go_error + 'w manager" where
  "New options =
     (let ret = fold (\<lambda>opt. opt) options default_manager in
      case manager_init ret of Some err \<Rightarrow> Inl err | None \<Rightarrow> Inr ret)"

definition Stages :: "'w manager \<Rightarrow> string list" where
  "Stages m = m_stages m"

definition IsRunning :: "'w manager \<Rightarrow> bool" where
  "IsRunning m = m_isRunning m"

section \<open>Registration and requests\<close>

definition requestStartupCancel :: "go_error \<Rightarrow> 'w manager \<times> ctxs \<Rightarrow> 'w manager \<times> ctxs" where
  "requestStartupCancel cause = (\<lambda>(m, st).
     case m_startupCancel m of
       Some c \<Rightarrow> (m, ctx_cancel c (Some cause) st)
     | None \<Rightarrow>
         (if m_pendingStartupCancel m = None
          then (m\<lparr>m_pendingStartupCancel := Some cause\<rparr>, st) else (m, st)))"

definition addInitError :: "go_error \<Rightarrow> 'w manager \<times> ctxs \<Rightarrow> 'w manager \<times> ctxs" where
  "addInitError err = (\<lambda>(m, st).
     if m_isRunning m
     then requestStartupCancel
            (Errorf ''%w: initialization error: %w'' [defs_err ErrAlreadyRunning, err]) (m, st)
     else (m\<lparr>m_initErrors := m_initErrors m @ [err]\<rparr>, st))"

definition AddInitError :: "go_error option \<Rightarrow> 'w manager \<times> ctxs \<Rightarrow> 'w manager \<times> ctxs" where
  "AddInitError err ms = (case err of None \<Rightarrow> ms | Some e \<Rightarrow> addInitError e ms)"

definition Shutdown :: "'w manager \<times> ctxs \<Rightarrow> 'w manager \<times> ctxs" where
  "Shutdown ms = requestStartupCancel (defs_err ErrExit) ms"

definition AddTask ::
  "string \<Rightarrow> 'w task option \<Rightarrow> 'w task_option list \<Rightarrow> 'w \<Rightarrow> 'w manager \<times> ctxs \<Rightarrow> 'w manager \<times> ctxs" where
  "AddTask stage task options w = (\<lambda>(m, st).
     if m_isRunning m
     then requestStartupCancel (Errorf ''%w: cannot add task'' [defs_err ErrAlreadyRunning]) (m, st)
     else (case task of
             None \<Rightarrow> addInitError (defs_err ErrNilTask) (m, st)
           | Some t \<Rightarrow>
               (case ti_InitError (GetTaskInfo t w) of
                  Some err \<Rightarrow> addInitError err (m, st)
                | None \<Rightarrow>
                    (if stage \<notin> set (m_stages m) then addInitError (newInvalidStage stage) (m, st)
                     else (m\<lparr>m_tasks := stageTasks_add stage (newTaskWrapper t options) (m_tasks m)\<rparr>,
                           st)))))"

text \<open>The user's \<open>init\<close> function builds the task, and may change the world.\<close>

definition InitAddTask ::
  "string \<Rightarrow> ('w \<Rightarrow> 'w task option \<times> 'w) \<Rightarrow> 'w task_option list \<Rightarrow> 'w \<Rightarrow> 'w manager \<times> ctxs
    \<Rightarrow> 'w task option \<times> 'w \<times> 'w manager \<times> ctxs" where
  "InitAddTask stage init_fn options w ms =
     (let (task, w') = init_fn w in (task, w', AddTask stage task options w' ms))"

definition InitCheckAddTask ::
  "string \<Rightarrow> ('w \<Rightarrow> 'w task option \<times> go_error option \<times> 'w) \<Rightarrow> 'w task_option list \<Rightarrow> 'w
    \<Rightarrow> 'w manager \<times> ctxs \<Rightarrow> ('w task option \<times> go_error option) \<times> 'w \<times> 'w manager \<times> ctxs" where
  "InitCheckAddTask stage init_fn options w ms =
     (let (task, err, w') = init_fn w in
      if err \<noteq> None then ((task, err), w', ms)
      else ((task, None), w', AddTask stage task options w' ms))"

definition AddTaskFunc ::
  "string \<Rightarrow> (ctx \<Rightarrow> step \<Rightarrow> 'w \<Rightarrow> go_error option \<times> 'w) \<Rightarrow> 'w task_option list \<Rightarrow> 'w
    \<Rightarrow> 'w manager \<times> ctxs \<Rightarrow> 'w manager \<times> ctxs" where
  "AddTaskFunc stage f options w ms = AddTask stage (Some (TaskFunc f)) options w ms"

definition AddService ::
  "string \<Rightarrow> 'w service option \<Rightarrow> 'w task_option list \<Rightarrow> 'w \<Rightarrow> 'w manager \<times> ctxs \<Rightarrow> 'w manager \<times> ctxs" where
  "AddService stage service options w ms =
     (case service of
        None \<Rightarrow> AddTask stage None options w ms
      | Some svc \<Rightarrow> AddTask stage (Some (ServiceAsTask svc)) options w ms)"

section \<open>Well-formed managers\<close>

text \<open>
  What \<open>New\<close> establishes and registration keeps until \<open>Run\<close> starts: the stages are distinct, not
  blank and at least one; tasks are stored under known stages; no wrapper has run a step.
\<close>

definition stages_ok :: "string list \<Rightarrow> bool" where
  "stages_ok ss \<longleftrightarrow> ss \<noteq> [] \<and> distinct ss \<and> '''' \<notin> set ss"

definition wrappers_fresh :: "'w stageTasks \<Rightarrow> bool" where
  "wrappers_fresh ts = (\<forall>r. tw_valid ts r \<longrightarrow> tw_executeSteps (tw_at ts r) = [] \<and>
      tw_startCancel (tw_at ts r) = None \<and> tw_finishCtx (tw_at ts r) = None)"

definition idle_manager :: "'w manager \<Rightarrow> bool" where
  "idle_manager m \<longleftrightarrow>
     stages_ok (m_stages m) \<and> distinct (map fst (m_tasks m)) \<and>
     set (map fst (m_tasks m)) \<subseteq> set (m_stages m) \<and> wrappers_fresh (m_tasks m) \<and>
     \<not> m_isRunning m \<and> m_startupCancel m = None \<and> m_startupCtx m = None \<and>
     m_taskDoneCtx m = None \<and> m_taskDoneCancel m = None \<and> m_tasksRunning m = 0"

lemma init_loop_None:
  "init_loop seen ss = None \<longleftrightarrow> distinct ss \<and> set ss \<inter> seen = {} \<and> '''' \<notin> set ss"
  by (induction ss arbitrary: seen) auto

lemma manager_init_None: "manager_init m = None \<longleftrightarrow> stages_ok (m_stages m)"
  by (simp add: manager_init_def stages_ok_def init_loop_None)

lemma init_loop_invalid:
  "init_loop seen ss = Some e \<Longrightarrow> err_is (Defs ErrInvalidStage) e"
  by (induction ss arbitrary: seen) (auto split: if_splits)

text \<open>The options of the package change the configuration, never the run state.\<close>

definition config_option :: "'w manager_option \<Rightarrow> bool" where
  "config_option opt \<longleftrightarrow> (\<forall>m. m_tasks (opt m) = m_tasks m \<and> m_isRunning (opt m) = m_isRunning m \<and>
     m_startupCancel (opt m) = m_startupCancel m \<and> m_startupCtx (opt m) = m_startupCtx m \<and>
     m_taskDoneCtx (opt m) = m_taskDoneCtx m \<and> m_taskDoneCancel (opt m) = m_taskDoneCancel m \<and>
     m_tasksRunning (opt m) = m_tasksRunning m \<and>
     m_pendingStartupCancel (opt m) = m_pendingStartupCancel m \<and> m_initErrors (opt m) = m_initErrors m)"

lemma config_options [simp]:
  "config_option (WithLogger l)" "config_option (WithStages ss)" "config_option (WithShutdownTimeout d)"
  "config_option (WithTeardownTimeout d)" "config_option (WithEnforceShutdownTimeout b)"
  "config_option (WithBeforeRun bf)" "config_option (WithAfterRun af)"
  "config_option (WithManagerCallback mcbs)" "config_option (WithTaskCallback tcbs)"
  "config_option (WithTaskErrorHandler h)"
  by (simp_all add: config_option_def WithLogger_def WithStages_def WithShutdownTimeout_def
      WithTeardownTimeout_def WithEnforceShutdownTimeout_def WithBeforeRun_def WithAfterRun_def
      WithManagerCallback_def WithTaskCallback_def WithTaskErrorHandler_def)

lemma fold_config_option:
  "\<forall>opt\<in>set options. config_option opt \<Longrightarrow> config_option (fold (\<lambda>opt. opt) options)"
proof (induction options)
  case Nil
  then show ?case by (simp add: config_option_def)
next
  case (Cons opt options)
  then have "config_option opt" "config_option (fold (\<lambda>opt. opt) options)" by auto
  then show ?case by (simp add: config_option_def)
qed

lemma New_idle:
  assumes "\<forall>opt\<in>set options. config_option opt" and "New options = Inr m"
  shows "idle_manager m \<and> m_pendingStartupCancel m = None \<and> m_initErrors m = []"
proof -
  let ?m = "fold (\<lambda>opt. opt) options default_manager"
  have m: "m = ?m" and ok: "stages_ok (m_stages m)"
    using assms(2) by (auto simp: New_def Let_def manager_init_None [symmetric] split: option.splits)
  have "config_option (fold (\<lambda>opt. opt) options)" using assms(1) by (rule fold_config_option)
  then show ?thesis using ok unfolding m
    by (simp add: config_option_def idle_manager_def default_manager_def newStageTasks_def
        wrappers_fresh_def tw_valid_def stageTasks_get_def)
qed

lemma wrappers_fresh_add:
  assumes "wrappers_fresh ts"
  shows "wrappers_fresh (stageTasks_add stage (newTaskWrapper t options) ts)"
  unfolding wrappers_fresh_def
proof (intro allI impI)
  fix r assume v: "tw_valid (stageTasks_add stage (newTaskWrapper t options) ts) r"
  let ?tw = "tw_at (stageTasks_add stage (newTaskWrapper t options) ts) r"
  have "tw_valid ts r \<and> ?tw = tw_at ts r \<or> ?tw = newTaskWrapper t options"
    using v by (cases r) (auto simp: tw_valid_def tw_at_def nth_append less_Suc_eq)
  then show "tw_executeSteps ?tw = [] \<and> tw_startCancel ?tw = None \<and> tw_finishCtx ?tw = None"
    using assms by (cases r) (auto simp: wrappers_fresh_def newTaskWrapper_def)
qed

lemma requestStartupCancel_idle:
  "idle_manager m \<Longrightarrow> idle_manager (fst (requestStartupCancel e (m, st)))"
  by (auto simp: requestStartupCancel_def idle_manager_def)

lemma addInitError_idle: "idle_manager m \<Longrightarrow> idle_manager (fst (addInitError e (m, st)))"
  by (auto simp: addInitError_def idle_manager_def)

lemma AddTask_idle: "idle_manager m \<Longrightarrow> idle_manager (fst (AddTask stage task options w (m, st)))"
  using wrappers_fresh_add [of "m_tasks m" stage _ options]
  by (auto simp: AddTask_def addInitError_def idle_manager_def keys_add [simplified]
      split: option.split)

lemma AddTask_config:
  assumes "\<not> m_isRunning m"
  shows "m_stages (fst (AddTask stage t options w (m, st))) = m_stages m"
    "m_enforceShutdownTimeout (fst (AddTask stage t options w (m, st))) = m_enforceShutdownTimeout m"
    "m_beforeRun (fst (AddTask stage t options w (m, st))) = m_beforeRun m"
    "snd (AddTask stage t options w (m, st)) = st"
    "\<not> m_isRunning (fst (AddTask stage t options w (m, st)))"
  using assms by (auto simp: AddTask_def addInitError_def split: option.split)

lemma idle_not_running: "idle_manager m \<Longrightarrow> \<not> m_isRunning m"
  by (simp add: idle_manager_def)

lemma AddTask_valid:
  "\<not> m_isRunning m \<Longrightarrow> ti_InitError (GetTaskInfo t w) = None \<Longrightarrow> stage \<in> set (m_stages m) \<Longrightarrow>
   AddTask stage (Some t) options w (m, st) =
     (m\<lparr>m_tasks := stageTasks_add stage (newTaskWrapper t options) (m_tasks m)\<rparr>, st)"
  by (simp add: AddTask_def)

end
