(* ===== verification/RunMachine.thy ===== *)
theory RunMachine
  imports Manager
begin

text \<open>
  \<open>run.go\<close> as a transition system. The goroutine that calls \<open>Run\<close> has a program counter that names
  the function and the line it is at; each \<open>go func()\<close> of \<open>runStageStep\<close> is a goroutine with a phase
  of its own; the contexts, the wait groups, the wrappers and the fields of the manager are shared.
  One action is one goroutine doing what it does between two accesses to shared state, or a caller
  of the library acting: a task returning, a context being cancelled, a timeout firing, a call of
  \<open>Shutdown\<close>, \<open>AddTask\<close> or \<open>AddInitError\<close>. Which action comes next is not determined, so everything
  proved of the runs of the machine holds for every schedule and for every behaviour of the tasks.
\<close>

section \<open>State\<close>

text \<open>The calls the manager makes into user code, and the returns of the tasks.\<close>

datatype event =
    EvManagerCb string step callbackStep
  | EvTaskCb tref step callbackStep "go_error option"
  | EvCall tref step
  | EvReturn tref step "go_error option"
  | EvSkipped tref "go_error option"

text \<open>
  The phase of a goroutine of \<open>runStageStep\<close>: created; contexts set up and start signalled; let
  through by \<open>checkRunStep\<close> with the before callbacks run; step marked; inside the task; returned;
  after callbacks run; \<open>taskCancelOnStop\<close> called; \<open>onError\<close> called (or nothing to run); deferred
  calls executed. The last two keep what \<open>run\<close> returned, \<open>None\<close> if it was not called.
\<close>

datatype gphase =
    GNew | GReady | GBefore | GMarked | GRunning
  | GReturned "go_error option"
  | GAfter "go_error option"
  | GFinished "go_error option"
  | GExit "go_error option option"
  | GDone "go_error option option"

record goroutine =
  g_tw :: tref
  g_step :: step
  g_ctx :: ctx
  g_startCancel :: "ctx option"
  g_cancelOnStop :: "ctx option"
  g_phase :: gphase

text \<open>
  Where \<open>runStage\<close> is: in the loop of \<open>runStageStep\<close> at a task index, at \<open>startWg.Wait\<close>, at
  \<open>waitWG.Wait\<close>, or after it. The stage list of \<open>PRun\<close> holds the current stage and the ones after it
  in the iteration order of the step.
\<close>

datatype run_at = RSpawn nat | RWaitStart | RWait | RAfter

datatype pc =
    PIdle | PEntered
  | PBeforeRun nat "ctx option"
  | PPending "go_error option"
  | PRun step "string list" run_at
  | PSelect
  | PWaitTasks
  | PReturned "go_error option" "go_error option"
  | PPanicked

record 'w sys =
  s_mgr :: "'w manager"
  s_ctxs :: ctxs
  s_world :: 'w
  s_gos :: "goroutine list"
  s_pc :: pc
  s_wgs :: "step \<times> string \<Rightarrow> nat"
  s_startWg :: nat
  s_stepCb :: bool
  s_ctx :: ctx
  s_shutdownOpt :: "ctx option"
  s_setupErr :: "go_error list"
  s_startErr :: "go_error option"
  s_eb :: "go_error list"
  s_cause :: "go_error option"
  s_shutArg :: ctx
  s_shutdownCtx :: ctx
  s_teardownCtx :: ctx
  s_trace :: "event list"

text \<open>The trace has the newest event first.\<close>

abbreviation s_tasks :: "'w sys \<Rightarrow> 'w stageTasks" where
  "s_tasks s \<equiv> m_tasks (s_mgr s)"

abbreviation s_stages :: "'w sys \<Rightarrow> string list" where
  "s_stages s \<equiv> m_stages (s_mgr s)"

section \<open>Shared pieces\<close>

definition set_tw :: "tref \<Rightarrow> 'w taskWrapper \<Rightarrow> 'w sys \<Rightarrow> 'w sys" where
  "set_tw r tw s = s\<lparr>s_mgr := (s_mgr s)\<lparr>m_tasks := tw_update r tw (s_tasks s)\<rparr>\<rparr>"

definition set_go :: "nat \<Rightarrow> goroutine \<Rightarrow> 'w sys \<Rightarrow> 'w sys" where
  "set_go j g s = s\<lparr>s_gos := (s_gos s)[j := g]\<rparr>"

definition set_phase :: "nat \<Rightarrow> gphase \<Rightarrow> 'w sys \<Rightarrow> 'w sys" where
  "set_phase j p s = set_go j ((s_gos s ! j)\<lparr>g_phase := p\<rparr>) s"

text \<open>
  The wait group of a step: \<open>m.tasksRunning\<close> for start, a group local to the call of \<open>runStage\<close>
  otherwise (a step is run once for each stage).
\<close>

definition wg_count :: "'w sys \<Rightarrow> step \<Rightarrow> string \<Rightarrow> nat" where
  "wg_count s st stage = (if st = StepStart then m_tasksRunning (s_mgr s) else s_wgs s (st, stage))"

definition wg_add :: "step \<Rightarrow> string \<Rightarrow> 'w sys \<Rightarrow> 'w sys" where
  "wg_add st stage s =
     (if st = StepStart then s\<lparr>s_mgr := (s_mgr s)\<lparr>m_tasksRunning := m_tasksRunning (s_mgr s) + 1\<rparr>\<rparr>
      else s\<lparr>s_wgs := (s_wgs s)((st, stage) := s_wgs s (st, stage) + 1)\<rparr>)"

definition wg_done :: "step \<Rightarrow> string \<Rightarrow> 'w sys \<Rightarrow> 'w sys" where
  "wg_done st stage s =
     (if st = StepStart then s\<lparr>s_mgr := (s_mgr s)\<lparr>m_tasksRunning := m_tasksRunning (s_mgr s) - 1\<rparr>\<rparr>
      else s\<lparr>s_wgs := (s_wgs s)((st, stage) := s_wgs s (st, stage) - 1)\<rparr>)"

definition cancel_opt :: "ctx option \<Rightarrow> go_error option \<Rightarrow> 'w sys \<Rightarrow> 'w sys" where
  "cancel_opt co cause s =
     (case co of None \<Rightarrow> s | Some c \<Rightarrow> s\<lparr>s_ctxs := ctx_cancel c cause (s_ctxs s)\<rparr>)"

text \<open>The contexts given to \<open>runStage\<close>: the step context and the one that is cancelled when a task is done.\<close>

definition stage_ctx :: "'w sys \<Rightarrow> step \<Rightarrow> ctx" where
  "stage_ctx s st =
     (case st of StepStop \<Rightarrow> s_shutdownCtx s | StepTeardown \<Rightarrow> s_teardownCtx s | _ \<Rightarrow> s_ctx s)"

definition stage_doneCtx :: "'w sys \<Rightarrow> step \<Rightarrow> ctx" where
  "stage_doneCtx s st =
     (case st of StepStop \<Rightarrow> s_shutdownCtx s | StepTeardown \<Rightarrow> s_teardownCtx s
      | _ \<Rightarrow> (case m_taskDoneCtx (s_mgr s) of Some c \<Rightarrow> c | None \<Rightarrow> s_ctx s))"

definition runManagerCallbacks :: "string \<Rightarrow> step \<Rightarrow> callbackStep \<Rightarrow> 'w sys \<Rightarrow> 'w sys" where
  "runManagerCallbacks stage st cs s =
     (let (ctxs', c) = ctx_WithoutCancel (stage_doneCtx s st) (s_ctxs s);
          cbs = m_managerCallbacks (s_mgr s)
      in s\<lparr>s_ctxs := ctxs',
           s_world := fold (\<lambda>cb. cb c stage st cs) cbs (s_world s),
           s_trace := replicate (length cbs) (EvManagerCb stage st cs) @ s_trace s\<rparr>)"

text \<open>\<open>notifyTasksSkipped\<close>: every task of the stages, in order.\<close>

definition stage_refs :: "'w stageTasks \<Rightarrow> string list \<Rightarrow> tref list" where
  "stage_refs ts stages =
     concat (map (\<lambda>stage. map (Pair stage) [0..<length (stageTasks_get ts stage)]) stages)"

definition notify_one :: "ctx \<Rightarrow> go_error option \<Rightarrow> tref \<Rightarrow> 'w sys \<Rightarrow> 'w sys" where
  "notify_one c cause r s =
     (case ti_Skipped (GetTaskInfo (tw_task (tw_at (s_tasks s) r)) (s_world s)) of
        None \<Rightarrow> s
      | Some skipped \<Rightarrow>
          s\<lparr>s_world := skipped c cause (s_world s), s_trace := EvSkipped r cause # s_trace s\<rparr>)"

definition notifyTasksSkipped :: "ctx \<Rightarrow> string list \<Rightarrow> go_error option \<Rightarrow> 'w sys \<Rightarrow> 'w sys" where
  "notifyTasksSkipped c0 stages cause s =
     (let (ctxs', c) = ctx_WithoutCancel c0 (s_ctxs s)
      in fold (notify_one c cause) (stage_refs (s_tasks s) stages) (s\<lparr>s_ctxs := ctxs'\<rparr>))"

text \<open>The \<open>onError\<close> closures that \<open>start\<close> and \<open>shutdown\<close> pass to \<open>runStage\<close>.\<close>

definition on_error :: "step \<Rightarrow> go_error option \<Rightarrow> 'w sys \<Rightarrow> 'w sys" where
  "on_error st err s =
     (case st of
        StepSetup \<Rightarrow>
          (case err of
             None \<Rightarrow> s
           | Some serr \<Rightarrow>
               let ierr = newInitializationError serr in
               cancel_opt (m_startupCancel (s_mgr s)) (Some ierr)
                 (s\<lparr>s_setupErr := mb_add (Some ierr) (s_setupErr s)\<rparr>))
      | StepStart \<Rightarrow>
          (case err of
             Some serr \<Rightarrow> cancel_opt (m_startupCancel (s_mgr s)) (Some serr) s
           | None \<Rightarrow> cancel_opt (m_startupCancel (s_mgr s)) (Some (defs_err ErrExit)) s)
      | _ \<Rightarrow> s\<lparr>s_eb := mb_add err (s_eb s)\<rparr>)"

section \<open>The goroutine of \<open>Run\<close>\<close>

subsection \<open>Before the stages\<close>

text \<open>The first lines of \<open>runWithStopErrors\<close>: the compare-and-swap of \<open>isRunning\<close>.\<close>

definition run_enter :: "ctx \<Rightarrow> ctx option \<Rightarrow> 'w sys \<Rightarrow> 'w sys" where
  "run_enter c opt s =
     (if m_isRunning (s_mgr s) then s\<lparr>s_pc := PReturned (Some (defs_err ErrAlreadyRunning)) None\<rparr>
      else s\<lparr>s_mgr := (s_mgr s)\<lparr>m_isRunning := True\<rparr>, s_ctx := c, s_shutdownOpt := opt,
             s_pc := PEntered\<rparr>)"

text \<open>A return before any stage ran: the deferred function notifies every task.\<close>

definition early_return :: "ctx \<Rightarrow> go_error option \<Rightarrow> 'w sys \<Rightarrow> 'w sys" where
  "early_return c cause s =
     (notifyTasksSkipped c (s_stages s) cause s)\<lparr>s_pc := PReturned cause None\<rparr>"

definition run_checks :: "'w sys \<Rightarrow> 'w sys" where
  "run_checks s =
     (if length (m_initErrors (s_mgr s)) > 0
      then early_return (s_ctx s) (buildMultiErrors (m_initErrors (s_mgr s))) s
      else if stepTaskCount (s_tasks s) (s_world s) StepStart = 0
      then early_return (s_ctx s) (Some (defs_err ErrNoStartTask)) s
      else (let (ctxs', c) = loggerToContext (s_ctx s) (m_logger (s_mgr s)) (s_ctxs s)
            in s\<lparr>s_ctxs := ctxs', s_ctx := c, s_pc := PBeforeRun 0 (Some c)\<rparr>))"

text \<open>
  One \<open>beforeRun\<close> callback. When it fails, \<open>Run\<close> returns with the context the callback returned;
  \<open>context.WithoutCancel\<close> and \<open>context.WithCancelCause\<close> panic on a nil one.
\<close>

definition run_beforeRun :: "nat \<Rightarrow> ctx option \<Rightarrow> 'w sys \<Rightarrow> 'w sys" where
  "run_beforeRun i co s =
     (case (m_beforeRun (s_mgr s) ! i) co (s_ctxs s) of
        (ctxs', co', Some err) \<Rightarrow>
          (case co' of
             Some c \<Rightarrow> early_return c (Some err) (s\<lparr>s_ctxs := ctxs', s_ctx := c\<rparr>)
           | None \<Rightarrow> s\<lparr>s_ctxs := ctxs', s_pc := PPanicked\<rparr>)
      | (ctxs', co', None) \<Rightarrow> s\<lparr>s_ctxs := ctxs', s_pc := PBeforeRun (i + 1) co'\<rparr>)"

text \<open>The locked section that creates and publishes the startup context and the task done context.\<close>

definition run_publish :: "ctx \<Rightarrow> 'w sys \<Rightarrow> 'w sys" where
  "run_publish c s =
     (let (ctxs1, sc) = ctx_WithCancelCause c (s_ctxs s);
          (ctxs2, td) = ctx_WithCancelCause c ctxs1
      in s\<lparr>s_ctx := c, s_ctxs := ctxs2,
           s_mgr := (s_mgr s)\<lparr>m_startupCtx := Some sc, m_startupCancel := Some sc,
                              m_taskDoneCtx := Some td, m_taskDoneCancel := Some td\<rparr>,
           s_pc := PPending (m_pendingStartupCancel (s_mgr s))\<rparr>)"

text \<open>A request recorded before the contexts existed is applied; then the setup of the first stage begins.\<close>

definition begin_stage :: "step \<Rightarrow> string list \<Rightarrow> 'w sys \<Rightarrow> 'w sys" where
  "begin_stage st stages s = s\<lparr>s_stepCb := False, s_pc := PRun st stages (RSpawn 0)\<rparr>"

text \<open>\<open>start\<close> returns: the stages that never run are notified, and \<open>Run\<close> waits at the \<open>select\<close>.\<close>

definition start_returns :: "string list \<Rightarrow> go_error option \<Rightarrow> 'w sys \<Rightarrow> 'w sys" where
  "start_returns skipped err s =
     (notifyTasksSkipped (s_ctx s) skipped err s)\<lparr>s_startErr := err, s_pc := PSelect\<rparr>"

text \<open>The head of the loop of \<open>start\<close>: a fresh error builder and the setup step of the next stage.\<close>

definition start_loop :: "string list \<Rightarrow> 'w sys \<Rightarrow> 'w sys" where
  "start_loop stages s =
     (if stages = [] then start_returns [] None s
      else begin_stage StepSetup stages (s\<lparr>s_setupErr := []\<rparr>))"

definition run_pending :: "go_error option \<Rightarrow> 'w sys \<Rightarrow> 'w sys" where
  "run_pending pending s =
     start_loop (s_stages s)
       (case pending of None \<Rightarrow> s | Some e \<Rightarrow> cancel_opt (m_startupCancel (s_mgr s)) (Some e) s)"

subsection \<open>One stage of one step\<close>

definition new_goroutine :: "tref \<Rightarrow> step \<Rightarrow> goroutine" where
  "new_goroutine r st = \<lparr>g_tw = r, g_step = st, g_ctx = 0, g_startCancel = None,
     g_cancelOnStop = None, g_phase = GNew\<rparr>"

text \<open>\<open>onTask(false)\<close>: the manager callbacks of the step, once.\<close>

definition step_callback_once :: "step \<Rightarrow> string \<Rightarrow> 'w sys \<Rightarrow> 'w sys" where
  "step_callback_once st stage s =
     (if s_stepCb s then s
      else runManagerCallbacks stage st CallbackStepBefore (s\<lparr>s_stepCb := True\<rparr>))"

text \<open>\<open>doTask\<close>, \<open>wg.Add\<close>, \<open>startWg.Add\<close> and the \<open>go\<close> statement for one task.\<close>

definition spawn :: "tref \<Rightarrow> step \<Rightarrow> 'w sys \<Rightarrow> 'w sys" where
  "spawn r st s =
     (let s1 = wg_add st (fst r) (step_callback_once st (fst r) s);
          s2 = (if st = StepStart then s1\<lparr>s_startWg := s_startWg s1 + 1\<rparr> else s1)
      in s2\<lparr>s_gos := s_gos s2 @ [new_goroutine r st]\<rparr>)"

text \<open>One iteration of the loop over the tasks of the stage.\<close>

definition loop_task :: "step \<Rightarrow> string list \<Rightarrow> nat \<Rightarrow> 'w sys \<Rightarrow> 'w sys" where
  "loop_task st stages i s =
     (let r = (hd stages, i);
          (tw', res) = checkStartStep (tw_at (s_tasks s) r) (s_world s) st;
          s1 = set_tw r tw' s;
          s2 = (case res of
                  Inl err \<Rightarrow> on_error st (Some (FatalError err)) s1
                | Inr go \<Rightarrow> if go then spawn r st s1 else s1)
      in s2\<lparr>s_pc := PRun st stages (RSpawn (i + 1))\<rparr>)"

text \<open>The end of the loop: start waits for its goroutines to be set up, the other steps for them to end.\<close>

definition loop_end :: "step \<Rightarrow> string list \<Rightarrow> 'w sys \<Rightarrow> 'w sys" where
  "loop_end st stages s =
     s\<lparr>s_pc := PRun st stages (if st = StepStart then RWaitStart else RWait)\<rparr>"

definition stage_waited :: "step \<Rightarrow> string list \<Rightarrow> 'w sys \<Rightarrow> 'w sys" where
  "stage_waited st stages s = s\<lparr>s_pc := PRun st stages RAfter\<rparr>"

subsection \<open>Shutdown\<close>

text \<open>\<open>DeadlineExceeded\<close> is the manager's own timeout; every other cause is reported as it is.\<close>

definition shutdown_cause :: "ctxs \<Rightarrow> ctx \<Rightarrow> go_error option" where
  "shutdown_cause st c =
     (let ctxCause = ctx_Cause st c in
      if errors_Is ctxCause ContextDeadlineExceeded then Some (defs_err ErrShutdownTimeout)
      else ctxCause)"

text \<open>From the \<open>select\<close> to the first stop step.\<close>

definition begin_shutdown :: "go_error option \<Rightarrow> 'w sys \<Rightarrow> 'w sys" where
  "begin_shutdown selected s =
     (let cause = (if s_startErr s \<noteq> None then s_startErr s else selected);
          s1 = cancel_opt (m_taskDoneCancel (s_mgr s)) cause s;
          (ctxs1, base) = (case s_shutdownOpt s of
                             None \<Rightarrow> ctx_WithoutCancel (s_ctx s) (s_ctxs s1)
                           | Some c \<Rightarrow> loggerToContext c (m_logger (s_mgr s)) (s_ctxs s1));
          (ctxs2, arg) = contextWithCause base cause ctxs1;
          (ctxs3, sd) = (if m_shutdownTimeout (s_mgr s) > 0 then ctx_WithTimeout arg ctxs2
                         else (ctxs2, arg))
      in begin_stage StepStop (stagesIter (s_stages s) True)
           (s1\<lparr>s_cause := cause, s_ctxs := ctxs3, s_shutArg := arg, s_shutdownCtx := sd, s_eb := []\<rparr>))"

text \<open>After the wait for the running tasks: the teardown context and the first teardown step.\<close>

definition begin_teardown :: "'w sys \<Rightarrow> 'w sys" where
  "begin_teardown s =
     (let isTeardownTimeout = m_teardownTimeout (s_mgr s) > 0;
          eb = (if isTeardownTimeout \<and> ctx_Err (s_ctxs s) (s_shutdownCtx s) \<noteq> None
                then mb_add (shutdown_cause (s_ctxs s) (s_shutdownCtx s)) (s_eb s) else s_eb s);
          (ctxs1, td) = (if isTeardownTimeout then ctx_WithTimeout (s_shutArg s) (s_ctxs s)
                         else (s_ctxs s, s_shutdownCtx s))
      in begin_stage StepTeardown (stagesIter (s_stages s) True)
           (s\<lparr>s_eb := eb, s_ctxs := ctxs1, s_teardownCtx := td\<rparr>))"

text \<open>The error \<open>Run\<close> returns, from the cause of the shutdown and the errors of the stop steps.\<close>

definition run_cause :: "go_error option \<Rightarrow> go_error option \<Rightarrow> go_error option" where
  "run_cause cause stopErr =
     (let cause1 = (if errors_Is cause (Defs ErrExit) then None else cause);
          cause2 = (case errors_As_fatal stopErr of
                      None \<Rightarrow> cause1
                    | Some ferr \<Rightarrow>
                        (case cause1 of
                           None \<Rightarrow> Some ferr
                         | Some c \<Rightarrow> errors_Join [c, ferr]))
      in unwrapInternalErrors cause2)"

text \<open>
  The end of \<open>shutdown\<close> and of \<open>runWithStopErrors\<close>, with the deferred cancellations of the timeout
  contexts, the startup context and the task done context.
\<close>

definition shutdown_errors :: "'w sys \<Rightarrow> go_error option" where
  "shutdown_errors s =
     (let eb = (if ctx_Err (s_ctxs s) (s_teardownCtx s) \<noteq> None
                then mb_add (shutdown_cause (s_ctxs s) (s_teardownCtx s)) (s_eb s) else s_eb s)
      in mb_build eb)"

definition run_finish :: "'w sys \<Rightarrow> 'w sys" where
  "run_finish s =
     (let stopErr = shutdown_errors s;
          s1 = cancel_opt (if m_teardownTimeout (s_mgr s) > 0 then Some (s_teardownCtx s) else None) None s;
          s2 = cancel_opt (if m_shutdownTimeout (s_mgr s) > 0 then Some (s_shutdownCtx s) else None) None s1;
          cause = fold (\<lambda>f cause. f (s_ctx s) cause stopErr) (m_afterRun (s_mgr s))
                    (run_cause (s_cause s) stopErr);
          s3 = cancel_opt (m_startupCancel (s_mgr s)) None s2;
          s4 = cancel_opt (m_taskDoneCancel (s_mgr s)) None s3
      in s4\<lparr>s_cause := cause, s_pc := PReturned cause stopErr\<rparr>)"

text \<open>The end of \<open>runStage\<close>: the after callbacks, and what the calling loop does next.\<close>

definition stage_callbacks_after :: "step \<Rightarrow> string \<Rightarrow> 'w sys \<Rightarrow> 'w sys" where
  "stage_callbacks_after st stage s =
     (if s_stepCb s then runManagerCallbacks stage st CallbackStepAfter s else s)"

definition next_stage :: "step \<Rightarrow> string list \<Rightarrow> 'w sys \<Rightarrow> 'w sys" where
  "next_stage st stages s =
     (case st of
        StepSetup \<Rightarrow>
          (if mb_hasErrors (s_setupErr s) then start_returns (tl stages) (mb_build (s_setupErr s)) s
           else begin_stage StepStart stages s)
      | StepStart \<Rightarrow> start_loop (tl stages) s
      | StepStop \<Rightarrow>
          (if tl stages = [] then s\<lparr>s_pc := PWaitTasks\<rparr> else begin_stage StepStop (tl stages) s)
      | _ \<Rightarrow>
          (if tl stages = [] then run_finish s else begin_stage StepTeardown (tl stages) s))"

definition stage_end :: "step \<Rightarrow> string list \<Rightarrow> 'w sys \<Rightarrow> 'w sys" where
  "stage_end st stages s = next_stage st stages (stage_callbacks_after st (hd stages) s)"

section \<open>The goroutines of the tasks\<close>

text \<open>The contexts of the step, the start step manager, and the signal that the goroutine started.\<close>

definition begin_start_step :: "goroutine \<Rightarrow> 'w sys \<Rightarrow> goroutine \<times> 'w sys" where
  "begin_start_step g s =
     (let tw = tw_at (s_tasks s) (g_tw g);
          opts = currentOptions tw (s_world s);
          base = (if \<not> cancelContext opts then stage_ctx s StepStart else stage_doneCtx s StepStart)
      in if startStepManagerOpt opts
         then (let (ctxs1, tc) = ctx_WithCancelCause base (s_ctxs s);
                   (ctxs2, wc) = ctx_WithoutCancel tc ctxs1;
                   (ctxs3, fc) = ctx_WithCancelCause wc ctxs2
               in (g\<lparr>g_ctx := tc, g_startCancel := Some tc, g_cancelOnStop := Some fc\<rparr>,
                   set_tw (g_tw g) (tw\<lparr>tw_startCancel := Some tc, tw_finishCtx := Some fc\<rparr>)
                     (s\<lparr>s_ctxs := ctxs3\<rparr>)))
         else (g\<lparr>g_ctx := base\<rparr>, s))"

definition begin_stop_step :: "goroutine \<Rightarrow> 'w sys \<Rightarrow> goroutine \<times> 'w sys" where
  "begin_stop_step g s =
     (let tw = tw_at (s_tasks s) (g_tw g);
          base = stage_doneCtx s StepStop;
          ssm = \<lparr>ssm_cancel = tw_startCancel tw, ssm_finished = tw_finishCtx tw\<rparr>
      in if startStepManagerOpt (currentOptions tw (s_world s)) \<and>
            (ssm_cancel ssm \<noteq> None \<or> ssm_finished ssm \<noteq> None)
         then (let (ctxs1, c) = contextWithStartStepManager base ssm (s_ctxs s)
               in (g\<lparr>g_ctx := c\<rparr>, s\<lparr>s_ctxs := ctxs1\<rparr>))
         else (g\<lparr>g_ctx := base\<rparr>, s))"

definition go_begin :: "nat \<Rightarrow> 'w sys \<Rightarrow> 'w sys" where
  "go_begin j s =
     (let g = s_gos s ! j;
          (g', s') = (case g_step g of
                        StepStart \<Rightarrow> begin_start_step g s
                      | StepStop \<Rightarrow> begin_stop_step g s
                      | st \<Rightarrow> (g\<lparr>g_ctx := stage_doneCtx s st\<rparr>, s));
          s'' = (if g_step g = StepStart then s'\<lparr>s_startWg := s_startWg s' - 1\<rparr> else s')
      in set_go j (g'\<lparr>g_phase := GReady\<rparr>) s'')"

definition task_callbacks :: "goroutine \<Rightarrow> callbackStep \<Rightarrow> go_error option \<Rightarrow> 'w sys \<Rightarrow> 'w sys" where
  "task_callbacks g cs err s =
     (let tw = tw_at (s_tasks s) (g_tw g);
          n = length (m_taskCallbacks (s_mgr s) @ callbacks (currentOptions tw (s_world s)))
      in s\<lparr>s_world := runCallbacks (g_ctx g) (fst (g_tw g)) (g_step g) cs err
                        (m_taskCallbacks (s_mgr s)) tw (s_world s),
           s_trace := replicate n (EvTaskCb (g_tw g) (g_step g) cs err) @ s_trace s\<rparr>)"

text \<open>\<open>checkRunStep\<close>, and the first line of \<open>run\<close>.\<close>

definition go_check :: "nat \<Rightarrow> 'w sys \<Rightarrow> 'w sys" where
  "go_check j s =
     (let g = s_gos s ! j in
      if checkRunStep (tw_at (s_tasks s) (g_tw g)) (s_world s) (g_step g)
      then set_phase j GBefore (task_callbacks g CallbackStepBefore None s)
      else set_phase j (GExit None) s)"

definition go_mark :: "nat \<Rightarrow> 'w sys \<Rightarrow> 'w sys" where
  "go_mark j s =
     (let g = s_gos s ! j in
      set_phase j GMarked (set_tw (g_tw g) (run_mark (g_step g) (tw_at (s_tasks s) (g_tw g))) s))"

definition go_call :: "nat \<Rightarrow> 'w sys \<Rightarrow> 'w sys" where
  "go_call j s =
     (let g = s_gos s ! j in
      set_phase j GRunning (s\<lparr>s_trace := EvCall (g_tw g) (g_step g) # s_trace s\<rparr>))"

text \<open>
  The handler or the task returns \<open>err\<close>, having changed the world to \<open>w\<close>: what it does in between
  is user code, so both are arbitrary. The task error handler may replace the error.
\<close>

definition go_return :: "nat \<Rightarrow> go_error option \<Rightarrow> 'w \<Rightarrow> 'w sys \<Rightarrow> 'w sys" where
  "go_return j err w s =
     (let g = s_gos s ! j;
          (err', w') = run_handle_error (g_ctx g) (g_step g) (m_taskErrorHandler (s_mgr s))
                         (tw_at (s_tasks s) (g_tw g)) (err, w)
      in set_phase j (GReturned err')
           (s\<lparr>s_world := w', s_trace := EvReturn (g_tw g) (g_step g) err' # s_trace s\<rparr>))"

definition go_after :: "nat \<Rightarrow> go_error option \<Rightarrow> 'w sys \<Rightarrow> 'w sys" where
  "go_after j err s =
     (let g = s_gos s ! j;
          s1 = set_tw (g_tw g) (run_mark_setup (g_step g) err (tw_at (s_tasks s) (g_tw g))) s
      in set_phase j (GAfter err) (task_callbacks g CallbackStepAfter err s1))"

definition go_finish :: "nat \<Rightarrow> go_error option \<Rightarrow> 'w sys \<Rightarrow> 'w sys" where
  "go_finish j err s =
     set_phase j (GFinished err)
       (cancel_opt (g_cancelOnStop (s_gos s ! j)) (Some (finish_cause err)) s)"

definition go_report :: "nat \<Rightarrow> go_error option \<Rightarrow> 'w sys \<Rightarrow> 'w sys" where
  "go_report j err s = set_phase j (GExit (Some err)) (on_error (g_step (s_gos s ! j)) err s)"

text \<open>The deferred calls, last first: \<open>taskCancelOnStop\<close>, \<open>startCancel\<close>, \<open>wg.Done\<close>.\<close>

definition go_exit :: "nat \<Rightarrow> go_error option option \<Rightarrow> 'w sys \<Rightarrow> 'w sys" where
  "go_exit j res s =
     (let g = s_gos s ! j;
          s1 = cancel_opt (g_cancelOnStop g) (Some (Sentinel StartStepManagerNilError)) s;
          s2 = cancel_opt (g_startCancel g) (Some (Sentinel ContextCanceled)) s1
      in set_phase j (GDone res) (wg_done (g_step g) (fst (g_tw g)) s2))"

end
