(* ===== verification/RunSteps.thy ===== *)
theory RunSteps
  imports RunMachine
begin

text \<open>
  The transitions of the run machine: a guard for each effect of \<open>RunMachine\<close>. \<open>sys_step\<close> is the
  relation, one rule for each transition; \<open>exec\<close> computes it, so that concrete runs evaluate.
\<close>

section \<open>Actions\<close>

text \<open>
  The boolean of \<open>AMain\<close> resolves the two \<open>select\<close> statements when both branches are ready: true is
  the first branch of the source.
\<close>

datatype 'w action =
    ARun ctx "ctx option"
  | AMain bool
  | AGo nat
  | AReturn nat "go_error option" 'w
  | AShutdown
  | AAddTask string "'w task option" "'w task_option list"
  | AAddInitError "go_error option"
  | ACancel ctx "go_error \<times> go_error"
  | ATimeout ctx
  | AWorld 'w
  | ASsmCancel nat "go_error option"

text \<open>
  Contexts a caller owns: those that exist when the manager creates its own. Callers cancel theirs,
  never the manager's.
\<close>

definition caller_ctx :: "'w sys \<Rightarrow> ctx \<Rightarrow> bool" where
  "caller_ctx s c \<longleftrightarrow>
     c < (case m_startupCtx (s_mgr s) of Some sc \<Rightarrow> sc | None \<Rightarrow> length (s_ctxs s))"

definition set_mgr_ctxs :: "'w manager \<times> ctxs \<Rightarrow> 'w sys \<Rightarrow> 'w sys" where
  "set_mgr_ctxs ms s = s\<lparr>s_mgr := fst ms, s_ctxs := snd ms\<rparr>"

definition startup_done :: "'w sys \<Rightarrow> bool" where
  "startup_done s = (case m_startupCtx (s_mgr s) of Some c \<Rightarrow> ctx_Done (s_ctxs s) c | None \<Rightarrow> False)"

definition startup_cause :: "'w sys \<Rightarrow> go_error option" where
  "startup_cause s = Option.bind (m_startupCtx (s_mgr s)) (ctx_Cause (s_ctxs s))"

text \<open>The waits of \<open>runStage\<close> that give up when the shutdown context is done.\<close>

definition wait_gives_up :: "step \<Rightarrow> 'w sys \<Rightarrow> bool" where
  "wait_gives_up st s \<longleftrightarrow>
     st = StepStop \<and> m_enforceShutdownTimeout (s_mgr s) \<and> ctx_Done (s_ctxs s) (s_shutdownCtx s)"

definition tasks_wait_gives_up :: "'w sys \<Rightarrow> bool" where
  "tasks_wait_gives_up s \<longleftrightarrow>
     m_enforceShutdownTimeout (s_mgr s) \<and> ctx_Done (s_ctxs s) (s_shutdownCtx s)"

definition ssm_user_cancel :: "nat \<Rightarrow> go_error option \<Rightarrow> 'w sys \<Rightarrow> 'w sys" where
  "ssm_user_cancel j cause s =
     (let ssm = StartStepManagerFromContext (s_ctxs s) (g_ctx (s_gos s ! j))
      in s\<lparr>s_ctxs := snd (ssm_ContextCancel ssm cause (s_ctxs s))\<rparr>)"

section \<open>The step relation\<close>

inductive sys_step :: "'w sys \<Rightarrow> 'w action \<Rightarrow> 'w sys \<Rightarrow> bool" where
  st_enter: "s_pc s = PIdle \<Longrightarrow> c < length (s_ctxs s) \<Longrightarrow> (\<forall>o1. opt = Some o1 \<longrightarrow> o1 < length (s_ctxs s))
    \<Longrightarrow> sys_step s (ARun c opt) (run_enter c opt s)"
| st_checks: "s_pc s = PEntered \<Longrightarrow> sys_step s (AMain b) (run_checks s)"
| st_before: "s_pc s = PBeforeRun i co \<Longrightarrow> i < length (m_beforeRun (s_mgr s))
    \<Longrightarrow> sys_step s (AMain b) (run_beforeRun i co s)"
| st_publish: "s_pc s = PBeforeRun i (Some c) \<Longrightarrow> \<not> i < length (m_beforeRun (s_mgr s))
    \<Longrightarrow> sys_step s (AMain b) (run_publish c s)"
| st_publish_nil: "s_pc s = PBeforeRun i None \<Longrightarrow> \<not> i < length (m_beforeRun (s_mgr s))
    \<Longrightarrow> sys_step s (AMain b) (s\<lparr>s_pc := PPanicked\<rparr>)"
| st_pending: "s_pc s = PPending p \<Longrightarrow> sys_step s (AMain b) (run_pending p s)"
| st_loop: "s_pc s = PRun st stages (RSpawn i) \<Longrightarrow> i < length (stageTasks_get (s_tasks s) (hd stages))
    \<Longrightarrow> sys_step s (AMain b) (loop_task st stages i s)"
| st_loop_end: "s_pc s = PRun st stages (RSpawn i) \<Longrightarrow>
    \<not> i < length (stageTasks_get (s_tasks s) (hd stages)) \<Longrightarrow> sys_step s (AMain b) (loop_end st stages s)"
| st_started: "s_pc s = PRun st stages RWaitStart \<Longrightarrow> s_startWg s = 0
    \<Longrightarrow> sys_step s (AMain b) (stage_waited st stages s)"
| st_waited: "s_pc s = PRun st stages RWait \<Longrightarrow> wg_count s st (hd stages) = 0
    \<Longrightarrow> sys_step s (AMain True) (stage_waited st stages s)"
| st_gave_up: "s_pc s = PRun st stages RWait \<Longrightarrow> wait_gives_up st s
    \<Longrightarrow> sys_step s (AMain False) (stage_waited st stages s)"
| st_stage_end: "s_pc s = PRun st stages RAfter \<Longrightarrow> sys_step s (AMain b) (stage_end st stages s)"
| st_select_ctx: "s_pc s = PSelect \<Longrightarrow> ctx_Done (s_ctxs s) (s_ctx s)
    \<Longrightarrow> sys_step s (AMain True) (begin_shutdown (ctx_Cause (s_ctxs s) (s_ctx s)) s)"
| st_select_startup: "s_pc s = PSelect \<Longrightarrow> startup_done s
    \<Longrightarrow> sys_step s (AMain False) (begin_shutdown (startup_cause s) s)"
| st_tasks_done: "s_pc s = PWaitTasks \<Longrightarrow> m_tasksRunning (s_mgr s) = 0
    \<Longrightarrow> sys_step s (AMain True) (begin_teardown s)"
| st_tasks_gave_up: "s_pc s = PWaitTasks \<Longrightarrow> tasks_wait_gives_up s
    \<Longrightarrow> sys_step s (AMain False) (begin_teardown s)"
| st_begin: "j < length (s_gos s) \<Longrightarrow> g_phase (s_gos s ! j) = GNew \<Longrightarrow> sys_step s (AGo j) (go_begin j s)"
| st_check: "j < length (s_gos s) \<Longrightarrow> g_phase (s_gos s ! j) = GReady \<Longrightarrow> sys_step s (AGo j) (go_check j s)"
| st_mark: "j < length (s_gos s) \<Longrightarrow> g_phase (s_gos s ! j) = GBefore \<Longrightarrow> sys_step s (AGo j) (go_mark j s)"
| st_call: "j < length (s_gos s) \<Longrightarrow> g_phase (s_gos s ! j) = GMarked \<Longrightarrow> sys_step s (AGo j) (go_call j s)"
| st_return: "j < length (s_gos s) \<Longrightarrow> g_phase (s_gos s ! j) = GRunning
    \<Longrightarrow> sys_step s (AReturn j err w) (go_return j err w s)"
| st_after: "j < length (s_gos s) \<Longrightarrow> g_phase (s_gos s ! j) = GReturned err
    \<Longrightarrow> sys_step s (AGo j) (go_after j err s)"
| st_finish: "j < length (s_gos s) \<Longrightarrow> g_phase (s_gos s ! j) = GAfter err
    \<Longrightarrow> sys_step s (AGo j) (go_finish j err s)"
| st_report: "j < length (s_gos s) \<Longrightarrow> g_phase (s_gos s ! j) = GFinished err
    \<Longrightarrow> sys_step s (AGo j) (go_report j err s)"
| st_exit: "j < length (s_gos s) \<Longrightarrow> g_phase (s_gos s ! j) = GExit res
    \<Longrightarrow> sys_step s (AGo j) (go_exit j res s)"
| st_shutdown: "sys_step s AShutdown (set_mgr_ctxs (Shutdown (s_mgr s, s_ctxs s)) s)"
| st_add_task: "sys_step s (AAddTask stage t opts)
    (set_mgr_ctxs (AddTask stage t opts (s_world s) (s_mgr s, s_ctxs s)) s)"
| st_add_error: "sys_step s (AAddInitError e) (set_mgr_ctxs (AddInitError e (s_mgr s, s_ctxs s)) s)"
| st_cancel: "caller_ctx s c \<Longrightarrow> sys_step s (ACancel c ec) (s\<lparr>s_ctxs := ctx_cancel_with c ec (s_ctxs s)\<rparr>)"
| st_timeout: "c < length (s_ctxs s) \<Longrightarrow> cn_kind (s_ctxs s ! c) = KTimeout
    \<Longrightarrow> sys_step s (ATimeout c) (s\<lparr>s_ctxs := ctx_deadline c (s_ctxs s)\<rparr>)"
| st_world: "sys_step s (AWorld w) (s\<lparr>s_world := w\<rparr>)"
| st_ssm: "j < length (s_gos s) \<Longrightarrow> g_phase (s_gos s ! j) = GRunning \<Longrightarrow> g_step (s_gos s ! j) = StepStop
    \<Longrightarrow> sys_step s (ASsmCancel j e) (ssm_user_cancel j e s)"

section \<open>The executable machine\<close>

definition main_exec :: "bool \<Rightarrow> 'w sys \<Rightarrow> 'w sys option" where
  "main_exec b s =
     (case s_pc s of
        PEntered \<Rightarrow> Some (run_checks s)
      | PBeforeRun i co \<Rightarrow>
          (if i < length (m_beforeRun (s_mgr s)) then Some (run_beforeRun i co s)
           else (case co of Some c \<Rightarrow> Some (run_publish c s) | None \<Rightarrow> Some (s\<lparr>s_pc := PPanicked\<rparr>)))
      | PPending p \<Rightarrow> Some (run_pending p s)
      | PRun st stages (RSpawn i) \<Rightarrow>
          (if i < length (stageTasks_get (s_tasks s) (hd stages)) then Some (loop_task st stages i s)
           else Some (loop_end st stages s))
      | PRun st stages RWaitStart \<Rightarrow>
          (if s_startWg s = 0 then Some (stage_waited st stages s) else None)
      | PRun st stages RWait \<Rightarrow>
          (if (if b then wg_count s st (hd stages) = 0 else wait_gives_up st s)
           then Some (stage_waited st stages s) else None)
      | PRun st stages RAfter \<Rightarrow> Some (stage_end st stages s)
      | PSelect \<Rightarrow>
          (if b then (if ctx_Done (s_ctxs s) (s_ctx s)
                      then Some (begin_shutdown (ctx_Cause (s_ctxs s) (s_ctx s)) s) else None)
           else (if startup_done s then Some (begin_shutdown (startup_cause s) s) else None))
      | PWaitTasks \<Rightarrow>
          (if (if b then m_tasksRunning (s_mgr s) = 0 else tasks_wait_gives_up s)
           then Some (begin_teardown s) else None)
      | _ \<Rightarrow> None)"

definition go_exec :: "nat \<Rightarrow> 'w sys \<Rightarrow> 'w sys option" where
  "go_exec j s =
     (if \<not> j < length (s_gos s) then None
      else (case g_phase (s_gos s ! j) of
              GNew \<Rightarrow> Some (go_begin j s)
            | GReady \<Rightarrow> Some (go_check j s)
            | GBefore \<Rightarrow> Some (go_mark j s)
            | GMarked \<Rightarrow> Some (go_call j s)
            | GReturned err \<Rightarrow> Some (go_after j err s)
            | GAfter err \<Rightarrow> Some (go_finish j err s)
            | GFinished err \<Rightarrow> Some (go_report j err s)
            | GExit res \<Rightarrow> Some (go_exit j res s)
            | _ \<Rightarrow> None))"

fun exec :: "'w action \<Rightarrow> 'w sys \<Rightarrow> 'w sys option" where
  "exec (ARun c opt) s =
     (if s_pc s = PIdle \<and> c < length (s_ctxs s) \<and>
         (case opt of None \<Rightarrow> True | Some o1 \<Rightarrow> o1 < length (s_ctxs s))
      then Some (run_enter c opt s) else None)"
| "exec (AMain b) s = main_exec b s"
| "exec (AGo j) s = go_exec j s"
| "exec (AReturn j err w) s =
     (if j < length (s_gos s) \<and> g_phase (s_gos s ! j) = GRunning then Some (go_return j err w s) else None)"
| "exec AShutdown s = Some (set_mgr_ctxs (Shutdown (s_mgr s, s_ctxs s)) s)"
| "exec (AAddTask stage t opts) s =
     Some (set_mgr_ctxs (AddTask stage t opts (s_world s) (s_mgr s, s_ctxs s)) s)"
| "exec (AAddInitError e) s = Some (set_mgr_ctxs (AddInitError e (s_mgr s, s_ctxs s)) s)"
| "exec (ACancel c ec) s =
     (if caller_ctx s c then Some (s\<lparr>s_ctxs := ctx_cancel_with c ec (s_ctxs s)\<rparr>) else None)"
| "exec (ATimeout c) s =
     (if c < length (s_ctxs s) \<and> cn_kind (s_ctxs s ! c) = KTimeout
      then Some (s\<lparr>s_ctxs := ctx_deadline c (s_ctxs s)\<rparr>) else None)"
| "exec (AWorld w) s = Some (s\<lparr>s_world := w\<rparr>)"
| "exec (ASsmCancel j e) s =
     (if j < length (s_gos s) \<and> g_phase (s_gos s ! j) = GRunning \<and> g_step (s_gos s ! j) = StepStop
      then Some (ssm_user_cancel j e s) else None)"

fun exec_all :: "'w action list \<Rightarrow> 'w sys \<Rightarrow> 'w sys option" where
  "exec_all [] s = Some s"
| "exec_all (a # as) s = (case exec a s of None \<Rightarrow> None | Some s' \<Rightarrow> exec_all as s')"

lemma main_exec_step: "main_exec b s = Some s' \<Longrightarrow> sys_step s (AMain b) s'"
  by (auto simp: main_exec_def split: pc.splits run_at.splits if_splits option.splits
      intro: sys_step.intros)

lemma go_exec_step: "go_exec j s = Some s' \<Longrightarrow> sys_step s (AGo j) s'"
  by (auto simp: go_exec_def split: gphase.splits if_splits intro: sys_step.intros)

lemma exec_step: "exec a s = Some s' \<Longrightarrow> sys_step s a s'"
  by (cases a) (auto split: if_splits option.splits intro: sys_step.intros main_exec_step go_exec_step)

lemma step_exec: "sys_step s a s' \<Longrightarrow> exec a s = Some s'"
  by (induction rule: sys_step.induct) (auto simp: main_exec_def go_exec_def split: option.split)

text \<open>The relation and the function are the same machine; it is deterministic once the action is chosen.\<close>

lemma sys_step_iff_exec: "sys_step s a s' \<longleftrightarrow> exec a s = Some s'"
  using exec_step step_exec by blast

lemma exec_all_runs: "exec_all as s = Some s' \<Longrightarrow> runs_to sys_step s as s'"
proof (induction as arbitrary: s)
  case Nil
  then show ?case by (simp add: runs_nil)
next
  case (Cons a as)
  then obtain t where "exec a s = Some t" "exec_all as t = Some s'"
    by (auto split: option.splits)
  with Cons.IH show ?case by (blast intro: runs_to_cons exec_step)
qed

section \<open>Initial and reachable states\<close>

text \<open>
  \<open>beforeRun\<close> callbacks do to the store what user code can do: derive contexts and cancel some, and
  return a context of the store (or nil).
\<close>

definition before_run_ok :: "before_run \<Rightarrow> bool" where
  "before_run_ok f \<longleftrightarrow> (\<forall>co st st' co' err. f co st = (st', co', err) \<longrightarrow> ctxs_wf st \<longrightarrow>
     (\<forall>c. co = Some c \<longrightarrow> c < length st) \<longrightarrow>
     ctxs_le st st' \<and> ctxs_wf st' \<and> (\<forall>c. co' = Some c \<longrightarrow> c < length st'))"

definition initial :: "'w sys \<Rightarrow> bool" where
  "initial s \<longleftrightarrow>
     idle_manager (s_mgr s) \<and> (\<forall>f\<in>set (m_beforeRun (s_mgr s)). before_run_ok f) \<and>
     ctxs_wf (s_ctxs s) \<and> s_gos s = [] \<and> s_pc s = PIdle \<and> s_wgs s = (\<lambda>_. 0) \<and> s_startWg s = 0 \<and>
     \<not> s_stepCb s \<and> s_setupErr s = [] \<and> s_startErr s = None \<and> s_eb s = [] \<and> s_cause s = None \<and>
     s_ctx s = 0 \<and> s_shutdownOpt s = None \<and> s_shutArg s = 0 \<and> s_shutdownCtx s = 0 \<and> s_teardownCtx s = 0 \<and> s_trace s = []"

definition reachable :: "'w sys \<Rightarrow> bool" where
  "reachable s \<longleftrightarrow> (\<exists>s0 as. initial s0 \<and> runs_to sys_step s0 as s)"

definition initial_sys :: "'w manager \<Rightarrow> ctxs \<Rightarrow> 'w \<Rightarrow> 'w sys" where
  "initial_sys m st w =
     \<lparr>s_mgr = m, s_ctxs = st, s_world = w, s_gos = [], s_pc = PIdle, s_wgs = (\<lambda>_. 0), s_startWg = 0,
      s_stepCb = False, s_ctx = 0, s_shutdownOpt = None, s_setupErr = [], s_startErr = None,
      s_eb = [], s_cause = None, s_shutArg = 0, s_shutdownCtx = 0, s_teardownCtx = 0, s_trace = []\<rparr>"

lemma reachable_exec: "initial s \<Longrightarrow> exec_all as s = Some s' \<Longrightarrow> reachable s'"
  unfolding reachable_def by (blast intro: exec_all_runs)

lemma reachable_step: "reachable s \<Longrightarrow> sys_step s a s' \<Longrightarrow> reachable s'"
  unfolding reachable_def by (blast intro: runs_snoc)

text \<open>A manager that may be run: what the registration starts with and keeps.\<close>

definition startable :: "'w manager \<times> ctxs \<Rightarrow> bool" where
  "startable = (\<lambda>(m, st). idle_manager m \<and> (\<forall>f\<in>set (m_beforeRun m). before_run_ok f) \<and> ctxs_wf st)"

lemma startable_AddTask [simp]: "startable ms \<Longrightarrow> startable (AddTask stage t options w ms)"
  using AddTask_idle [of "fst ms" stage t options w "snd ms"] AddTask_config [of "fst ms" stage t options w "snd ms"]
  by (cases ms) (auto simp: startable_def idle_not_running)

lemma startable_initial: "startable (m, st) \<Longrightarrow> initial (initial_sys m st w)"
  by (simp add: startable_def initial_def initial_sys_def)

end
