(* ===== verification/RunFrames.thy ===== *)
theory RunFrames
  imports RunSteps
begin

text \<open>
  Frame lemmas: what each effect of the run machine leaves alone. Every effect is a composition of a
  few primitive updates; the simplifier gets, for each of them, the fields that it does not change.
\<close>

lemma set_tw_frame [simp]:
  "s_ctxs (set_tw r tw s) = s_ctxs s" "s_world (set_tw r tw s) = s_world s"
  "s_gos (set_tw r tw s) = s_gos s" "s_pc (set_tw r tw s) = s_pc s"
  "s_wgs (set_tw r tw s) = s_wgs s" "s_startWg (set_tw r tw s) = s_startWg s"
  "s_stepCb (set_tw r tw s) = s_stepCb s" "s_ctx (set_tw r tw s) = s_ctx s"
  "s_shutdownOpt (set_tw r tw s) = s_shutdownOpt s" "s_setupErr (set_tw r tw s) = s_setupErr s"
  "s_startErr (set_tw r tw s) = s_startErr s" "s_eb (set_tw r tw s) = s_eb s"
  "s_cause (set_tw r tw s) = s_cause s" "s_shutArg (set_tw r tw s) = s_shutArg s"
  "s_shutdownCtx (set_tw r tw s) = s_shutdownCtx s"
  "s_teardownCtx (set_tw r tw s) = s_teardownCtx s" "s_trace (set_tw r tw s) = s_trace s"
  "m_stages (s_mgr (set_tw r tw s)) = m_stages (s_mgr s)"
  "m_shutdownTimeout (s_mgr (set_tw r tw s)) = m_shutdownTimeout (s_mgr s)"
  "m_teardownTimeout (s_mgr (set_tw r tw s)) = m_teardownTimeout (s_mgr s)"
  "m_enforceShutdownTimeout (s_mgr (set_tw r tw s)) = m_enforceShutdownTimeout (s_mgr s)"
  "m_beforeRun (s_mgr (set_tw r tw s)) = m_beforeRun (s_mgr s)"
  "m_afterRun (s_mgr (set_tw r tw s)) = m_afterRun (s_mgr s)"
  "m_managerCallbacks (s_mgr (set_tw r tw s)) = m_managerCallbacks (s_mgr s)"
  "m_taskCallbacks (s_mgr (set_tw r tw s)) = m_taskCallbacks (s_mgr s)"
  "m_taskErrorHandler (s_mgr (set_tw r tw s)) = m_taskErrorHandler (s_mgr s)"
  "m_logger (s_mgr (set_tw r tw s)) = m_logger (s_mgr s)"
  "m_isRunning (s_mgr (set_tw r tw s)) = m_isRunning (s_mgr s)"
  "m_startupCtx (s_mgr (set_tw r tw s)) = m_startupCtx (s_mgr s)"
  "m_taskDoneCtx (s_mgr (set_tw r tw s)) = m_taskDoneCtx (s_mgr s)"
  "m_startupCancel (s_mgr (set_tw r tw s)) = m_startupCancel (s_mgr s)"
  "m_taskDoneCancel (s_mgr (set_tw r tw s)) = m_taskDoneCancel (s_mgr s)"
  "m_pendingStartupCancel (s_mgr (set_tw r tw s)) = m_pendingStartupCancel (s_mgr s)"
  "m_tasksRunning (s_mgr (set_tw r tw s)) = m_tasksRunning (s_mgr s)"
  "m_initErrors (s_mgr (set_tw r tw s)) = m_initErrors (s_mgr s)"
  by (simp_all add: set_tw_def)

lemma set_tw_tasks [simp]: "s_tasks (set_tw r tw s) = tw_update r tw (s_tasks s)"
  by (simp add: set_tw_def)

lemma set_go_frame [simp]:
  "s_mgr (set_go j g s) = s_mgr s" "s_ctxs (set_go j g s) = s_ctxs s"
  "s_world (set_go j g s) = s_world s" "s_pc (set_go j g s) = s_pc s"
  "s_wgs (set_go j g s) = s_wgs s" "s_startWg (set_go j g s) = s_startWg s"
  "s_stepCb (set_go j g s) = s_stepCb s" "s_ctx (set_go j g s) = s_ctx s"
  "s_shutdownOpt (set_go j g s) = s_shutdownOpt s" "s_setupErr (set_go j g s) = s_setupErr s"
  "s_startErr (set_go j g s) = s_startErr s" "s_eb (set_go j g s) = s_eb s"
  "s_cause (set_go j g s) = s_cause s" "s_shutArg (set_go j g s) = s_shutArg s"
  "s_shutdownCtx (set_go j g s) = s_shutdownCtx s"
  "s_teardownCtx (set_go j g s) = s_teardownCtx s" "s_trace (set_go j g s) = s_trace s"
  by (simp_all add: set_go_def)

lemma set_go_gos [simp]: "s_gos (set_go j g s) = (s_gos s)[j := g]"
  by (simp add: set_go_def)

lemma set_phase_frame [simp]:
  "s_mgr (set_phase j p s) = s_mgr s" "s_ctxs (set_phase j p s) = s_ctxs s"
  "s_world (set_phase j p s) = s_world s" "s_pc (set_phase j p s) = s_pc s"
  "s_wgs (set_phase j p s) = s_wgs s" "s_startWg (set_phase j p s) = s_startWg s"
  "s_stepCb (set_phase j p s) = s_stepCb s" "s_ctx (set_phase j p s) = s_ctx s"
  "s_shutdownOpt (set_phase j p s) = s_shutdownOpt s"
  "s_setupErr (set_phase j p s) = s_setupErr s" "s_startErr (set_phase j p s) = s_startErr s"
  "s_eb (set_phase j p s) = s_eb s" "s_cause (set_phase j p s) = s_cause s"
  "s_shutArg (set_phase j p s) = s_shutArg s" "s_shutdownCtx (set_phase j p s) = s_shutdownCtx s"
  "s_teardownCtx (set_phase j p s) = s_teardownCtx s" "s_trace (set_phase j p s) = s_trace s"
  by (simp_all add: set_phase_def)

lemma set_phase_gos [simp]:
  "s_gos (set_phase j p s) = (s_gos s)[j := (s_gos s ! j)\<lparr>g_phase := p\<rparr>]"
  by (simp add: set_phase_def)

lemma wg_add_frame [simp]:
  "s_ctxs (wg_add st x s) = s_ctxs s" "s_world (wg_add st x s) = s_world s"
  "s_gos (wg_add st x s) = s_gos s" "s_pc (wg_add st x s) = s_pc s"
  "s_startWg (wg_add st x s) = s_startWg s" "s_stepCb (wg_add st x s) = s_stepCb s"
  "s_ctx (wg_add st x s) = s_ctx s" "s_shutdownOpt (wg_add st x s) = s_shutdownOpt s"
  "s_setupErr (wg_add st x s) = s_setupErr s" "s_startErr (wg_add st x s) = s_startErr s"
  "s_eb (wg_add st x s) = s_eb s" "s_cause (wg_add st x s) = s_cause s"
  "s_shutArg (wg_add st x s) = s_shutArg s" "s_shutdownCtx (wg_add st x s) = s_shutdownCtx s"
  "s_teardownCtx (wg_add st x s) = s_teardownCtx s" "s_trace (wg_add st x s) = s_trace s"
  "m_stages (s_mgr (wg_add st x s)) = m_stages (s_mgr s)"
  "m_shutdownTimeout (s_mgr (wg_add st x s)) = m_shutdownTimeout (s_mgr s)"
  "m_teardownTimeout (s_mgr (wg_add st x s)) = m_teardownTimeout (s_mgr s)"
  "m_enforceShutdownTimeout (s_mgr (wg_add st x s)) = m_enforceShutdownTimeout (s_mgr s)"
  "m_beforeRun (s_mgr (wg_add st x s)) = m_beforeRun (s_mgr s)"
  "m_afterRun (s_mgr (wg_add st x s)) = m_afterRun (s_mgr s)"
  "m_managerCallbacks (s_mgr (wg_add st x s)) = m_managerCallbacks (s_mgr s)"
  "m_taskCallbacks (s_mgr (wg_add st x s)) = m_taskCallbacks (s_mgr s)"
  "m_taskErrorHandler (s_mgr (wg_add st x s)) = m_taskErrorHandler (s_mgr s)"
  "m_logger (s_mgr (wg_add st x s)) = m_logger (s_mgr s)"
  "m_isRunning (s_mgr (wg_add st x s)) = m_isRunning (s_mgr s)"
  "m_startupCtx (s_mgr (wg_add st x s)) = m_startupCtx (s_mgr s)"
  "m_taskDoneCtx (s_mgr (wg_add st x s)) = m_taskDoneCtx (s_mgr s)"
  "m_startupCancel (s_mgr (wg_add st x s)) = m_startupCancel (s_mgr s)"
  "m_taskDoneCancel (s_mgr (wg_add st x s)) = m_taskDoneCancel (s_mgr s)"
  "m_pendingStartupCancel (s_mgr (wg_add st x s)) = m_pendingStartupCancel (s_mgr s)"
  "m_initErrors (s_mgr (wg_add st x s)) = m_initErrors (s_mgr s)"
  "s_tasks (wg_add st x s) = s_tasks s"
  by (simp_all add: wg_add_def)

lemma wg_done_frame [simp]:
  "s_ctxs (wg_done st x s) = s_ctxs s" "s_world (wg_done st x s) = s_world s"
  "s_gos (wg_done st x s) = s_gos s" "s_pc (wg_done st x s) = s_pc s"
  "s_startWg (wg_done st x s) = s_startWg s" "s_stepCb (wg_done st x s) = s_stepCb s"
  "s_ctx (wg_done st x s) = s_ctx s" "s_shutdownOpt (wg_done st x s) = s_shutdownOpt s"
  "s_setupErr (wg_done st x s) = s_setupErr s" "s_startErr (wg_done st x s) = s_startErr s"
  "s_eb (wg_done st x s) = s_eb s" "s_cause (wg_done st x s) = s_cause s"
  "s_shutArg (wg_done st x s) = s_shutArg s" "s_shutdownCtx (wg_done st x s) = s_shutdownCtx s"
  "s_teardownCtx (wg_done st x s) = s_teardownCtx s" "s_trace (wg_done st x s) = s_trace s"
  "m_stages (s_mgr (wg_done st x s)) = m_stages (s_mgr s)"
  "m_shutdownTimeout (s_mgr (wg_done st x s)) = m_shutdownTimeout (s_mgr s)"
  "m_teardownTimeout (s_mgr (wg_done st x s)) = m_teardownTimeout (s_mgr s)"
  "m_enforceShutdownTimeout (s_mgr (wg_done st x s)) = m_enforceShutdownTimeout (s_mgr s)"
  "m_beforeRun (s_mgr (wg_done st x s)) = m_beforeRun (s_mgr s)"
  "m_afterRun (s_mgr (wg_done st x s)) = m_afterRun (s_mgr s)"
  "m_managerCallbacks (s_mgr (wg_done st x s)) = m_managerCallbacks (s_mgr s)"
  "m_taskCallbacks (s_mgr (wg_done st x s)) = m_taskCallbacks (s_mgr s)"
  "m_taskErrorHandler (s_mgr (wg_done st x s)) = m_taskErrorHandler (s_mgr s)"
  "m_logger (s_mgr (wg_done st x s)) = m_logger (s_mgr s)"
  "m_isRunning (s_mgr (wg_done st x s)) = m_isRunning (s_mgr s)"
  "m_startupCtx (s_mgr (wg_done st x s)) = m_startupCtx (s_mgr s)"
  "m_taskDoneCtx (s_mgr (wg_done st x s)) = m_taskDoneCtx (s_mgr s)"
  "m_startupCancel (s_mgr (wg_done st x s)) = m_startupCancel (s_mgr s)"
  "m_taskDoneCancel (s_mgr (wg_done st x s)) = m_taskDoneCancel (s_mgr s)"
  "m_pendingStartupCancel (s_mgr (wg_done st x s)) = m_pendingStartupCancel (s_mgr s)"
  "m_initErrors (s_mgr (wg_done st x s)) = m_initErrors (s_mgr s)"
  "s_tasks (wg_done st x s) = s_tasks s"
  by (simp_all add: wg_done_def)

lemma cancel_opt_frame [simp]:
  "s_mgr (cancel_opt co e s) = s_mgr s" "s_world (cancel_opt co e s) = s_world s"
  "s_gos (cancel_opt co e s) = s_gos s" "s_pc (cancel_opt co e s) = s_pc s"
  "s_wgs (cancel_opt co e s) = s_wgs s" "s_startWg (cancel_opt co e s) = s_startWg s"
  "s_stepCb (cancel_opt co e s) = s_stepCb s" "s_ctx (cancel_opt co e s) = s_ctx s"
  "s_shutdownOpt (cancel_opt co e s) = s_shutdownOpt s"
  "s_setupErr (cancel_opt co e s) = s_setupErr s" "s_startErr (cancel_opt co e s) = s_startErr s"
  "s_eb (cancel_opt co e s) = s_eb s" "s_cause (cancel_opt co e s) = s_cause s"
  "s_shutArg (cancel_opt co e s) = s_shutArg s"
  "s_shutdownCtx (cancel_opt co e s) = s_shutdownCtx s"
  "s_teardownCtx (cancel_opt co e s) = s_teardownCtx s" "s_trace (cancel_opt co e s) = s_trace s"
  by (simp_all add: cancel_opt_def split: option.split)

lemma runManagerCallbacks_frame [simp]:
  "s_mgr (runManagerCallbacks x st cs s) = s_mgr s"
  "s_gos (runManagerCallbacks x st cs s) = s_gos s"
  "s_pc (runManagerCallbacks x st cs s) = s_pc s"
  "s_wgs (runManagerCallbacks x st cs s) = s_wgs s"
  "s_startWg (runManagerCallbacks x st cs s) = s_startWg s"
  "s_stepCb (runManagerCallbacks x st cs s) = s_stepCb s"
  "s_ctx (runManagerCallbacks x st cs s) = s_ctx s"
  "s_shutdownOpt (runManagerCallbacks x st cs s) = s_shutdownOpt s"
  "s_setupErr (runManagerCallbacks x st cs s) = s_setupErr s"
  "s_startErr (runManagerCallbacks x st cs s) = s_startErr s"
  "s_eb (runManagerCallbacks x st cs s) = s_eb s"
  "s_cause (runManagerCallbacks x st cs s) = s_cause s"
  "s_shutArg (runManagerCallbacks x st cs s) = s_shutArg s"
  "s_shutdownCtx (runManagerCallbacks x st cs s) = s_shutdownCtx s"
  "s_teardownCtx (runManagerCallbacks x st cs s) = s_teardownCtx s"
  by (simp_all add: runManagerCallbacks_def Let_def split_beta)

lemma notify_one_frame [simp]:
  "s_mgr (notify_one c e r s) = s_mgr s" "s_ctxs (notify_one c e r s) = s_ctxs s"
  "s_gos (notify_one c e r s) = s_gos s" "s_pc (notify_one c e r s) = s_pc s"
  "s_wgs (notify_one c e r s) = s_wgs s" "s_startWg (notify_one c e r s) = s_startWg s"
  "s_stepCb (notify_one c e r s) = s_stepCb s" "s_ctx (notify_one c e r s) = s_ctx s"
  "s_shutdownOpt (notify_one c e r s) = s_shutdownOpt s"
  "s_setupErr (notify_one c e r s) = s_setupErr s"
  "s_startErr (notify_one c e r s) = s_startErr s" "s_eb (notify_one c e r s) = s_eb s"
  "s_cause (notify_one c e r s) = s_cause s" "s_shutArg (notify_one c e r s) = s_shutArg s"
  "s_shutdownCtx (notify_one c e r s) = s_shutdownCtx s"
  "s_teardownCtx (notify_one c e r s) = s_teardownCtx s"
  by (simp_all add: notify_one_def split: option.split)

lemma fold_notify_frame [simp]:
  "s_mgr (fold (notify_one c e) rs s) = s_mgr s" "s_ctxs (fold (notify_one c e) rs s) = s_ctxs s"
  "s_gos (fold (notify_one c e) rs s) = s_gos s" "s_pc (fold (notify_one c e) rs s) = s_pc s"
  "s_wgs (fold (notify_one c e) rs s) = s_wgs s"
  "s_startWg (fold (notify_one c e) rs s) = s_startWg s"
  "s_stepCb (fold (notify_one c e) rs s) = s_stepCb s"
  "s_ctx (fold (notify_one c e) rs s) = s_ctx s"
  "s_shutdownOpt (fold (notify_one c e) rs s) = s_shutdownOpt s"
  "s_setupErr (fold (notify_one c e) rs s) = s_setupErr s"
  "s_startErr (fold (notify_one c e) rs s) = s_startErr s"
  "s_eb (fold (notify_one c e) rs s) = s_eb s" "s_cause (fold (notify_one c e) rs s) = s_cause s"
  "s_shutArg (fold (notify_one c e) rs s) = s_shutArg s"
  "s_shutdownCtx (fold (notify_one c e) rs s) = s_shutdownCtx s"
  "s_teardownCtx (fold (notify_one c e) rs s) = s_teardownCtx s"
  by (induction rs arbitrary: s) simp_all

lemma notifyTasksSkipped_frame [simp]:
  "s_mgr (notifyTasksSkipped c ss e s) = s_mgr s" "s_gos (notifyTasksSkipped c ss e s) = s_gos s"
  "s_pc (notifyTasksSkipped c ss e s) = s_pc s" "s_wgs (notifyTasksSkipped c ss e s) = s_wgs s"
  "s_startWg (notifyTasksSkipped c ss e s) = s_startWg s"
  "s_stepCb (notifyTasksSkipped c ss e s) = s_stepCb s"
  "s_ctx (notifyTasksSkipped c ss e s) = s_ctx s"
  "s_shutdownOpt (notifyTasksSkipped c ss e s) = s_shutdownOpt s"
  "s_setupErr (notifyTasksSkipped c ss e s) = s_setupErr s"
  "s_startErr (notifyTasksSkipped c ss e s) = s_startErr s"
  "s_eb (notifyTasksSkipped c ss e s) = s_eb s"
  "s_cause (notifyTasksSkipped c ss e s) = s_cause s"
  "s_shutArg (notifyTasksSkipped c ss e s) = s_shutArg s"
  "s_shutdownCtx (notifyTasksSkipped c ss e s) = s_shutdownCtx s"
  "s_teardownCtx (notifyTasksSkipped c ss e s) = s_teardownCtx s"
  by (simp_all add: notifyTasksSkipped_def Let_def split_beta)

lemma on_error_frame [simp]:
  "s_mgr (on_error st e s) = s_mgr s" "s_world (on_error st e s) = s_world s"
  "s_gos (on_error st e s) = s_gos s" "s_pc (on_error st e s) = s_pc s"
  "s_wgs (on_error st e s) = s_wgs s" "s_startWg (on_error st e s) = s_startWg s"
  "s_stepCb (on_error st e s) = s_stepCb s" "s_ctx (on_error st e s) = s_ctx s"
  "s_shutdownOpt (on_error st e s) = s_shutdownOpt s"
  "s_startErr (on_error st e s) = s_startErr s" "s_cause (on_error st e s) = s_cause s"
  "s_shutArg (on_error st e s) = s_shutArg s" "s_shutdownCtx (on_error st e s) = s_shutdownCtx s"
  "s_teardownCtx (on_error st e s) = s_teardownCtx s" "s_trace (on_error st e s) = s_trace s"
  by (simp_all add: on_error_def Let_def split: step.split option.split)

lemma begin_stage_frame [simp]:
  "s_mgr (begin_stage st ss s) = s_mgr s" "s_ctxs (begin_stage st ss s) = s_ctxs s"
  "s_world (begin_stage st ss s) = s_world s" "s_gos (begin_stage st ss s) = s_gos s"
  "s_wgs (begin_stage st ss s) = s_wgs s" "s_startWg (begin_stage st ss s) = s_startWg s"
  "s_ctx (begin_stage st ss s) = s_ctx s" "s_shutdownOpt (begin_stage st ss s) = s_shutdownOpt s"
  "s_setupErr (begin_stage st ss s) = s_setupErr s"
  "s_startErr (begin_stage st ss s) = s_startErr s" "s_eb (begin_stage st ss s) = s_eb s"
  "s_cause (begin_stage st ss s) = s_cause s" "s_shutArg (begin_stage st ss s) = s_shutArg s"
  "s_shutdownCtx (begin_stage st ss s) = s_shutdownCtx s"
  "s_teardownCtx (begin_stage st ss s) = s_teardownCtx s"
  "s_trace (begin_stage st ss s) = s_trace s"
  by (simp_all add: begin_stage_def)

lemma begin_stage_simps [simp]:
  "s_pc (begin_stage st ss s) = PRun st ss (RSpawn 0)" "\<not> s_stepCb (begin_stage st ss s)"
  by (simp_all add: begin_stage_def)

lemma start_returns_frame [simp]:
  "s_mgr (start_returns ss e s) = s_mgr s" "s_gos (start_returns ss e s) = s_gos s"
  "s_wgs (start_returns ss e s) = s_wgs s" "s_startWg (start_returns ss e s) = s_startWg s"
  "s_stepCb (start_returns ss e s) = s_stepCb s" "s_ctx (start_returns ss e s) = s_ctx s"
  "s_shutdownOpt (start_returns ss e s) = s_shutdownOpt s"
  "s_setupErr (start_returns ss e s) = s_setupErr s" "s_eb (start_returns ss e s) = s_eb s"
  "s_cause (start_returns ss e s) = s_cause s" "s_shutArg (start_returns ss e s) = s_shutArg s"
  "s_shutdownCtx (start_returns ss e s) = s_shutdownCtx s"
  "s_teardownCtx (start_returns ss e s) = s_teardownCtx s"
  by (simp_all add: start_returns_def)

lemma start_loop_frame [simp]:
  "s_mgr (start_loop ss s) = s_mgr s" "s_gos (start_loop ss s) = s_gos s"
  "s_wgs (start_loop ss s) = s_wgs s" "s_startWg (start_loop ss s) = s_startWg s"
  "s_ctx (start_loop ss s) = s_ctx s" "s_shutdownOpt (start_loop ss s) = s_shutdownOpt s"
  "s_eb (start_loop ss s) = s_eb s" "s_cause (start_loop ss s) = s_cause s"
  "s_shutArg (start_loop ss s) = s_shutArg s" "s_shutdownCtx (start_loop ss s) = s_shutdownCtx s"
  "s_teardownCtx (start_loop ss s) = s_teardownCtx s"
  by (simp_all add: start_loop_def)

lemma step_callback_once_frame [simp]:
  "s_mgr (step_callback_once st x s) = s_mgr s" "s_gos (step_callback_once st x s) = s_gos s"
  "s_pc (step_callback_once st x s) = s_pc s" "s_wgs (step_callback_once st x s) = s_wgs s"
  "s_startWg (step_callback_once st x s) = s_startWg s"
  "s_ctx (step_callback_once st x s) = s_ctx s"
  "s_shutdownOpt (step_callback_once st x s) = s_shutdownOpt s"
  "s_setupErr (step_callback_once st x s) = s_setupErr s"
  "s_startErr (step_callback_once st x s) = s_startErr s"
  "s_eb (step_callback_once st x s) = s_eb s" "s_cause (step_callback_once st x s) = s_cause s"
  "s_shutArg (step_callback_once st x s) = s_shutArg s"
  "s_shutdownCtx (step_callback_once st x s) = s_shutdownCtx s"
  "s_teardownCtx (step_callback_once st x s) = s_teardownCtx s"
  by (simp_all add: step_callback_once_def)

lemma spawn_frame [simp]:
  "s_pc (spawn r st s) = s_pc s" "s_ctx (spawn r st s) = s_ctx s"
  "s_shutdownOpt (spawn r st s) = s_shutdownOpt s" "s_setupErr (spawn r st s) = s_setupErr s"
  "s_startErr (spawn r st s) = s_startErr s" "s_eb (spawn r st s) = s_eb s"
  "s_cause (spawn r st s) = s_cause s" "s_shutArg (spawn r st s) = s_shutArg s"
  "s_shutdownCtx (spawn r st s) = s_shutdownCtx s"
  "s_teardownCtx (spawn r st s) = s_teardownCtx s"
  "m_stages (s_mgr (spawn r st s)) = m_stages (s_mgr s)"
  "m_shutdownTimeout (s_mgr (spawn r st s)) = m_shutdownTimeout (s_mgr s)"
  "m_teardownTimeout (s_mgr (spawn r st s)) = m_teardownTimeout (s_mgr s)"
  "m_enforceShutdownTimeout (s_mgr (spawn r st s)) = m_enforceShutdownTimeout (s_mgr s)"
  "m_beforeRun (s_mgr (spawn r st s)) = m_beforeRun (s_mgr s)"
  "m_afterRun (s_mgr (spawn r st s)) = m_afterRun (s_mgr s)"
  "m_managerCallbacks (s_mgr (spawn r st s)) = m_managerCallbacks (s_mgr s)"
  "m_taskCallbacks (s_mgr (spawn r st s)) = m_taskCallbacks (s_mgr s)"
  "m_taskErrorHandler (s_mgr (spawn r st s)) = m_taskErrorHandler (s_mgr s)"
  "m_logger (s_mgr (spawn r st s)) = m_logger (s_mgr s)"
  "m_isRunning (s_mgr (spawn r st s)) = m_isRunning (s_mgr s)"
  "m_startupCtx (s_mgr (spawn r st s)) = m_startupCtx (s_mgr s)"
  "m_taskDoneCtx (s_mgr (spawn r st s)) = m_taskDoneCtx (s_mgr s)"
  "m_startupCancel (s_mgr (spawn r st s)) = m_startupCancel (s_mgr s)"
  "m_taskDoneCancel (s_mgr (spawn r st s)) = m_taskDoneCancel (s_mgr s)"
  "m_pendingStartupCancel (s_mgr (spawn r st s)) = m_pendingStartupCancel (s_mgr s)"
  "m_initErrors (s_mgr (spawn r st s)) = m_initErrors (s_mgr s)"
  "s_tasks (spawn r st s) = s_tasks s"
  by (simp_all add: spawn_def Let_def)

lemma spawn_gos [simp]: "s_gos (spawn r st s) = s_gos s @ [new_goroutine r st]"
  by (simp add: spawn_def Let_def)

lemma loop_task_frame [simp]:
  "s_ctx (loop_task st ss i s) = s_ctx s" "s_shutdownOpt (loop_task st ss i s) = s_shutdownOpt s"
  "s_startErr (loop_task st ss i s) = s_startErr s" "s_cause (loop_task st ss i s) = s_cause s"
  "s_shutArg (loop_task st ss i s) = s_shutArg s"
  "s_shutdownCtx (loop_task st ss i s) = s_shutdownCtx s"
  "s_teardownCtx (loop_task st ss i s) = s_teardownCtx s"
  "m_stages (s_mgr (loop_task st ss i s)) = m_stages (s_mgr s)"
  "m_shutdownTimeout (s_mgr (loop_task st ss i s)) = m_shutdownTimeout (s_mgr s)"
  "m_teardownTimeout (s_mgr (loop_task st ss i s)) = m_teardownTimeout (s_mgr s)"
  "m_enforceShutdownTimeout (s_mgr (loop_task st ss i s)) = m_enforceShutdownTimeout (s_mgr s)"
  "m_beforeRun (s_mgr (loop_task st ss i s)) = m_beforeRun (s_mgr s)"
  "m_afterRun (s_mgr (loop_task st ss i s)) = m_afterRun (s_mgr s)"
  "m_managerCallbacks (s_mgr (loop_task st ss i s)) = m_managerCallbacks (s_mgr s)"
  "m_taskCallbacks (s_mgr (loop_task st ss i s)) = m_taskCallbacks (s_mgr s)"
  "m_taskErrorHandler (s_mgr (loop_task st ss i s)) = m_taskErrorHandler (s_mgr s)"
  "m_logger (s_mgr (loop_task st ss i s)) = m_logger (s_mgr s)"
  "m_isRunning (s_mgr (loop_task st ss i s)) = m_isRunning (s_mgr s)"
  "m_startupCtx (s_mgr (loop_task st ss i s)) = m_startupCtx (s_mgr s)"
  "m_taskDoneCtx (s_mgr (loop_task st ss i s)) = m_taskDoneCtx (s_mgr s)"
  "m_startupCancel (s_mgr (loop_task st ss i s)) = m_startupCancel (s_mgr s)"
  "m_taskDoneCancel (s_mgr (loop_task st ss i s)) = m_taskDoneCancel (s_mgr s)"
  "m_pendingStartupCancel (s_mgr (loop_task st ss i s)) = m_pendingStartupCancel (s_mgr s)"
  "m_initErrors (s_mgr (loop_task st ss i s)) = m_initErrors (s_mgr s)"
  by (simp_all add: loop_task_def Let_def split_beta split: sum.split)

lemma loop_end_frame [simp]:
  "s_mgr (loop_end st ss s) = s_mgr s" "s_ctxs (loop_end st ss s) = s_ctxs s"
  "s_world (loop_end st ss s) = s_world s" "s_gos (loop_end st ss s) = s_gos s"
  "s_wgs (loop_end st ss s) = s_wgs s" "s_startWg (loop_end st ss s) = s_startWg s"
  "s_stepCb (loop_end st ss s) = s_stepCb s" "s_ctx (loop_end st ss s) = s_ctx s"
  "s_shutdownOpt (loop_end st ss s) = s_shutdownOpt s"
  "s_setupErr (loop_end st ss s) = s_setupErr s" "s_startErr (loop_end st ss s) = s_startErr s"
  "s_eb (loop_end st ss s) = s_eb s" "s_cause (loop_end st ss s) = s_cause s"
  "s_shutArg (loop_end st ss s) = s_shutArg s"
  "s_shutdownCtx (loop_end st ss s) = s_shutdownCtx s"
  "s_teardownCtx (loop_end st ss s) = s_teardownCtx s" "s_trace (loop_end st ss s) = s_trace s"
  by (simp_all add: loop_end_def)

lemma stage_waited_frame [simp]:
  "s_mgr (stage_waited st ss s) = s_mgr s" "s_ctxs (stage_waited st ss s) = s_ctxs s"
  "s_world (stage_waited st ss s) = s_world s" "s_gos (stage_waited st ss s) = s_gos s"
  "s_wgs (stage_waited st ss s) = s_wgs s" "s_startWg (stage_waited st ss s) = s_startWg s"
  "s_stepCb (stage_waited st ss s) = s_stepCb s" "s_ctx (stage_waited st ss s) = s_ctx s"
  "s_shutdownOpt (stage_waited st ss s) = s_shutdownOpt s"
  "s_setupErr (stage_waited st ss s) = s_setupErr s"
  "s_startErr (stage_waited st ss s) = s_startErr s" "s_eb (stage_waited st ss s) = s_eb s"
  "s_cause (stage_waited st ss s) = s_cause s" "s_shutArg (stage_waited st ss s) = s_shutArg s"
  "s_shutdownCtx (stage_waited st ss s) = s_shutdownCtx s"
  "s_teardownCtx (stage_waited st ss s) = s_teardownCtx s"
  "s_trace (stage_waited st ss s) = s_trace s"
  by (simp_all add: stage_waited_def)

lemma begin_shutdown_frame [simp]:
  "s_mgr (begin_shutdown e s) = s_mgr s" "s_world (begin_shutdown e s) = s_world s"
  "s_gos (begin_shutdown e s) = s_gos s" "s_wgs (begin_shutdown e s) = s_wgs s"
  "s_startWg (begin_shutdown e s) = s_startWg s" "s_ctx (begin_shutdown e s) = s_ctx s"
  "s_shutdownOpt (begin_shutdown e s) = s_shutdownOpt s"
  "s_setupErr (begin_shutdown e s) = s_setupErr s"
  "s_startErr (begin_shutdown e s) = s_startErr s"
  "s_teardownCtx (begin_shutdown e s) = s_teardownCtx s"
  "s_trace (begin_shutdown e s) = s_trace s"
  by (simp_all add: begin_shutdown_def Let_def split_beta)

lemma begin_teardown_frame [simp]:
  "s_mgr (begin_teardown s) = s_mgr s" "s_world (begin_teardown s) = s_world s"
  "s_gos (begin_teardown s) = s_gos s" "s_wgs (begin_teardown s) = s_wgs s"
  "s_startWg (begin_teardown s) = s_startWg s" "s_ctx (begin_teardown s) = s_ctx s"
  "s_shutdownOpt (begin_teardown s) = s_shutdownOpt s"
  "s_setupErr (begin_teardown s) = s_setupErr s" "s_startErr (begin_teardown s) = s_startErr s"
  "s_cause (begin_teardown s) = s_cause s" "s_shutArg (begin_teardown s) = s_shutArg s"
  "s_shutdownCtx (begin_teardown s) = s_shutdownCtx s" "s_trace (begin_teardown s) = s_trace s"
  by (simp_all add: begin_teardown_def Let_def split_beta)

lemma run_finish_frame [simp]:
  "s_mgr (run_finish s) = s_mgr s" "s_world (run_finish s) = s_world s"
  "s_gos (run_finish s) = s_gos s" "s_wgs (run_finish s) = s_wgs s"
  "s_startWg (run_finish s) = s_startWg s" "s_stepCb (run_finish s) = s_stepCb s"
  "s_ctx (run_finish s) = s_ctx s" "s_shutdownOpt (run_finish s) = s_shutdownOpt s"
  "s_setupErr (run_finish s) = s_setupErr s" "s_startErr (run_finish s) = s_startErr s"
  "s_eb (run_finish s) = s_eb s" "s_shutArg (run_finish s) = s_shutArg s"
  "s_shutdownCtx (run_finish s) = s_shutdownCtx s"
  "s_teardownCtx (run_finish s) = s_teardownCtx s" "s_trace (run_finish s) = s_trace s"
  by (simp_all add: run_finish_def Let_def)

lemma stage_callbacks_after_frame [simp]:
  "s_mgr (stage_callbacks_after st x s) = s_mgr s"
  "s_gos (stage_callbacks_after st x s) = s_gos s" "s_pc (stage_callbacks_after st x s) = s_pc s"
  "s_wgs (stage_callbacks_after st x s) = s_wgs s"
  "s_startWg (stage_callbacks_after st x s) = s_startWg s"
  "s_stepCb (stage_callbacks_after st x s) = s_stepCb s"
  "s_ctx (stage_callbacks_after st x s) = s_ctx s"
  "s_shutdownOpt (stage_callbacks_after st x s) = s_shutdownOpt s"
  "s_setupErr (stage_callbacks_after st x s) = s_setupErr s"
  "s_startErr (stage_callbacks_after st x s) = s_startErr s"
  "s_eb (stage_callbacks_after st x s) = s_eb s"
  "s_cause (stage_callbacks_after st x s) = s_cause s"
  "s_shutArg (stage_callbacks_after st x s) = s_shutArg s"
  "s_shutdownCtx (stage_callbacks_after st x s) = s_shutdownCtx s"
  "s_teardownCtx (stage_callbacks_after st x s) = s_teardownCtx s"
  by (simp_all add: stage_callbacks_after_def)

lemma next_stage_frame [simp]:
  "s_mgr (next_stage st ss s) = s_mgr s" "s_gos (next_stage st ss s) = s_gos s"
  "s_wgs (next_stage st ss s) = s_wgs s" "s_startWg (next_stage st ss s) = s_startWg s"
  "s_ctx (next_stage st ss s) = s_ctx s" "s_shutdownOpt (next_stage st ss s) = s_shutdownOpt s"
  "s_eb (next_stage st ss s) = s_eb s" "s_shutArg (next_stage st ss s) = s_shutArg s"
  "s_shutdownCtx (next_stage st ss s) = s_shutdownCtx s"
  "s_teardownCtx (next_stage st ss s) = s_teardownCtx s"
  by (simp_all add: next_stage_def split: step.split)

lemma stage_end_frame [simp]:
  "s_mgr (stage_end st ss s) = s_mgr s" "s_gos (stage_end st ss s) = s_gos s"
  "s_wgs (stage_end st ss s) = s_wgs s" "s_startWg (stage_end st ss s) = s_startWg s"
  "s_ctx (stage_end st ss s) = s_ctx s" "s_shutdownOpt (stage_end st ss s) = s_shutdownOpt s"
  "s_eb (stage_end st ss s) = s_eb s" "s_shutArg (stage_end st ss s) = s_shutArg s"
  "s_shutdownCtx (stage_end st ss s) = s_shutdownCtx s"
  "s_teardownCtx (stage_end st ss s) = s_teardownCtx s"
  by (simp_all add: stage_end_def)

lemma task_callbacks_frame [simp]:
  "s_mgr (task_callbacks g cs e s) = s_mgr s" "s_ctxs (task_callbacks g cs e s) = s_ctxs s"
  "s_gos (task_callbacks g cs e s) = s_gos s" "s_pc (task_callbacks g cs e s) = s_pc s"
  "s_wgs (task_callbacks g cs e s) = s_wgs s" "s_startWg (task_callbacks g cs e s) = s_startWg s"
  "s_stepCb (task_callbacks g cs e s) = s_stepCb s" "s_ctx (task_callbacks g cs e s) = s_ctx s"
  "s_shutdownOpt (task_callbacks g cs e s) = s_shutdownOpt s"
  "s_setupErr (task_callbacks g cs e s) = s_setupErr s"
  "s_startErr (task_callbacks g cs e s) = s_startErr s" "s_eb (task_callbacks g cs e s) = s_eb s"
  "s_cause (task_callbacks g cs e s) = s_cause s"
  "s_shutArg (task_callbacks g cs e s) = s_shutArg s"
  "s_shutdownCtx (task_callbacks g cs e s) = s_shutdownCtx s"
  "s_teardownCtx (task_callbacks g cs e s) = s_teardownCtx s"
  by (simp_all add: task_callbacks_def Let_def)

lemma early_return_frame [simp]:
  "s_mgr (early_return c e s) = s_mgr s" "s_gos (early_return c e s) = s_gos s"
  "s_wgs (early_return c e s) = s_wgs s" "s_startWg (early_return c e s) = s_startWg s"
  "s_stepCb (early_return c e s) = s_stepCb s" "s_ctx (early_return c e s) = s_ctx s"
  "s_shutdownOpt (early_return c e s) = s_shutdownOpt s"
  "s_setupErr (early_return c e s) = s_setupErr s"
  "s_startErr (early_return c e s) = s_startErr s" "s_eb (early_return c e s) = s_eb s"
  "s_cause (early_return c e s) = s_cause s" "s_shutArg (early_return c e s) = s_shutArg s"
  "s_shutdownCtx (early_return c e s) = s_shutdownCtx s"
  "s_teardownCtx (early_return c e s) = s_teardownCtx s"
  by (simp_all add: early_return_def)

lemma run_checks_frame [simp]:
  "s_mgr (run_checks s) = s_mgr s" "s_gos (run_checks s) = s_gos s"
  "s_wgs (run_checks s) = s_wgs s" "s_startWg (run_checks s) = s_startWg s"
  "s_stepCb (run_checks s) = s_stepCb s" "s_shutdownOpt (run_checks s) = s_shutdownOpt s"
  "s_setupErr (run_checks s) = s_setupErr s" "s_startErr (run_checks s) = s_startErr s"
  "s_eb (run_checks s) = s_eb s" "s_cause (run_checks s) = s_cause s"
  "s_shutArg (run_checks s) = s_shutArg s" "s_shutdownCtx (run_checks s) = s_shutdownCtx s"
  "s_teardownCtx (run_checks s) = s_teardownCtx s"
  by (simp_all add: run_checks_def Let_def split_beta)

lemma run_beforeRun_frame [simp]:
  "s_mgr (run_beforeRun i co s) = s_mgr s" "s_gos (run_beforeRun i co s) = s_gos s"
  "s_wgs (run_beforeRun i co s) = s_wgs s" "s_startWg (run_beforeRun i co s) = s_startWg s"
  "s_stepCb (run_beforeRun i co s) = s_stepCb s"
  "s_shutdownOpt (run_beforeRun i co s) = s_shutdownOpt s"
  "s_setupErr (run_beforeRun i co s) = s_setupErr s"
  "s_startErr (run_beforeRun i co s) = s_startErr s" "s_eb (run_beforeRun i co s) = s_eb s"
  "s_cause (run_beforeRun i co s) = s_cause s" "s_shutArg (run_beforeRun i co s) = s_shutArg s"
  "s_shutdownCtx (run_beforeRun i co s) = s_shutdownCtx s"
  "s_teardownCtx (run_beforeRun i co s) = s_teardownCtx s"
  by (simp_all add: run_beforeRun_def Let_def split_beta split: option.split)

lemma run_publish_frame [simp]:
  "s_world (run_publish c s) = s_world s" "s_gos (run_publish c s) = s_gos s"
  "s_wgs (run_publish c s) = s_wgs s" "s_startWg (run_publish c s) = s_startWg s"
  "s_stepCb (run_publish c s) = s_stepCb s" "s_shutdownOpt (run_publish c s) = s_shutdownOpt s"
  "s_setupErr (run_publish c s) = s_setupErr s" "s_startErr (run_publish c s) = s_startErr s"
  "s_eb (run_publish c s) = s_eb s" "s_cause (run_publish c s) = s_cause s"
  "s_shutArg (run_publish c s) = s_shutArg s" "s_shutdownCtx (run_publish c s) = s_shutdownCtx s"
  "s_teardownCtx (run_publish c s) = s_teardownCtx s" "s_trace (run_publish c s) = s_trace s"
  "m_stages (s_mgr (run_publish c s)) = m_stages (s_mgr s)"
  "m_shutdownTimeout (s_mgr (run_publish c s)) = m_shutdownTimeout (s_mgr s)"
  "m_teardownTimeout (s_mgr (run_publish c s)) = m_teardownTimeout (s_mgr s)"
  "m_enforceShutdownTimeout (s_mgr (run_publish c s)) = m_enforceShutdownTimeout (s_mgr s)"
  "m_beforeRun (s_mgr (run_publish c s)) = m_beforeRun (s_mgr s)"
  "m_afterRun (s_mgr (run_publish c s)) = m_afterRun (s_mgr s)"
  "m_managerCallbacks (s_mgr (run_publish c s)) = m_managerCallbacks (s_mgr s)"
  "m_taskCallbacks (s_mgr (run_publish c s)) = m_taskCallbacks (s_mgr s)"
  "m_taskErrorHandler (s_mgr (run_publish c s)) = m_taskErrorHandler (s_mgr s)"
  "m_logger (s_mgr (run_publish c s)) = m_logger (s_mgr s)"
  "m_isRunning (s_mgr (run_publish c s)) = m_isRunning (s_mgr s)"
  "m_pendingStartupCancel (s_mgr (run_publish c s)) = m_pendingStartupCancel (s_mgr s)"
  "m_tasksRunning (s_mgr (run_publish c s)) = m_tasksRunning (s_mgr s)"
  "m_initErrors (s_mgr (run_publish c s)) = m_initErrors (s_mgr s)"
  "s_tasks (run_publish c s) = s_tasks s"
  by (simp_all add: run_publish_def Let_def split_beta)

lemma run_pending_frame [simp]:
  "s_mgr (run_pending p s) = s_mgr s" "s_gos (run_pending p s) = s_gos s"
  "s_wgs (run_pending p s) = s_wgs s" "s_startWg (run_pending p s) = s_startWg s"
  "s_ctx (run_pending p s) = s_ctx s" "s_shutdownOpt (run_pending p s) = s_shutdownOpt s"
  "s_eb (run_pending p s) = s_eb s" "s_cause (run_pending p s) = s_cause s"
  "s_shutArg (run_pending p s) = s_shutArg s" "s_shutdownCtx (run_pending p s) = s_shutdownCtx s"
  "s_teardownCtx (run_pending p s) = s_teardownCtx s"
  by (simp_all add: run_pending_def split: option.split)

lemma go_begin_frame [simp]:
  "s_world (go_begin j s) = s_world s" "s_pc (go_begin j s) = s_pc s"
  "s_wgs (go_begin j s) = s_wgs s" "s_stepCb (go_begin j s) = s_stepCb s"
  "s_ctx (go_begin j s) = s_ctx s" "s_shutdownOpt (go_begin j s) = s_shutdownOpt s"
  "s_setupErr (go_begin j s) = s_setupErr s" "s_startErr (go_begin j s) = s_startErr s"
  "s_eb (go_begin j s) = s_eb s" "s_cause (go_begin j s) = s_cause s"
  "s_shutArg (go_begin j s) = s_shutArg s" "s_shutdownCtx (go_begin j s) = s_shutdownCtx s"
  "s_teardownCtx (go_begin j s) = s_teardownCtx s" "s_trace (go_begin j s) = s_trace s"
  "m_stages (s_mgr (go_begin j s)) = m_stages (s_mgr s)"
  "m_shutdownTimeout (s_mgr (go_begin j s)) = m_shutdownTimeout (s_mgr s)"
  "m_teardownTimeout (s_mgr (go_begin j s)) = m_teardownTimeout (s_mgr s)"
  "m_enforceShutdownTimeout (s_mgr (go_begin j s)) = m_enforceShutdownTimeout (s_mgr s)"
  "m_beforeRun (s_mgr (go_begin j s)) = m_beforeRun (s_mgr s)"
  "m_afterRun (s_mgr (go_begin j s)) = m_afterRun (s_mgr s)"
  "m_managerCallbacks (s_mgr (go_begin j s)) = m_managerCallbacks (s_mgr s)"
  "m_taskCallbacks (s_mgr (go_begin j s)) = m_taskCallbacks (s_mgr s)"
  "m_taskErrorHandler (s_mgr (go_begin j s)) = m_taskErrorHandler (s_mgr s)"
  "m_logger (s_mgr (go_begin j s)) = m_logger (s_mgr s)"
  "m_isRunning (s_mgr (go_begin j s)) = m_isRunning (s_mgr s)"
  "m_startupCtx (s_mgr (go_begin j s)) = m_startupCtx (s_mgr s)"
  "m_taskDoneCtx (s_mgr (go_begin j s)) = m_taskDoneCtx (s_mgr s)"
  "m_startupCancel (s_mgr (go_begin j s)) = m_startupCancel (s_mgr s)"
  "m_taskDoneCancel (s_mgr (go_begin j s)) = m_taskDoneCancel (s_mgr s)"
  "m_pendingStartupCancel (s_mgr (go_begin j s)) = m_pendingStartupCancel (s_mgr s)"
  "m_tasksRunning (s_mgr (go_begin j s)) = m_tasksRunning (s_mgr s)"
  "m_initErrors (s_mgr (go_begin j s)) = m_initErrors (s_mgr s)"
  by (simp_all add: go_begin_def begin_start_step_def begin_stop_step_def Let_def split_beta split: step.split)

lemma go_check_frame [simp]:
  "s_mgr (go_check j s) = s_mgr s" "s_ctxs (go_check j s) = s_ctxs s"
  "s_pc (go_check j s) = s_pc s" "s_wgs (go_check j s) = s_wgs s"
  "s_startWg (go_check j s) = s_startWg s" "s_stepCb (go_check j s) = s_stepCb s"
  "s_ctx (go_check j s) = s_ctx s" "s_shutdownOpt (go_check j s) = s_shutdownOpt s"
  "s_setupErr (go_check j s) = s_setupErr s" "s_startErr (go_check j s) = s_startErr s"
  "s_eb (go_check j s) = s_eb s" "s_cause (go_check j s) = s_cause s"
  "s_shutArg (go_check j s) = s_shutArg s" "s_shutdownCtx (go_check j s) = s_shutdownCtx s"
  "s_teardownCtx (go_check j s) = s_teardownCtx s"
  by (simp_all add: go_check_def Let_def)

lemma go_mark_frame [simp]:
  "s_ctxs (go_mark j s) = s_ctxs s" "s_world (go_mark j s) = s_world s"
  "s_pc (go_mark j s) = s_pc s" "s_wgs (go_mark j s) = s_wgs s"
  "s_startWg (go_mark j s) = s_startWg s" "s_stepCb (go_mark j s) = s_stepCb s"
  "s_ctx (go_mark j s) = s_ctx s" "s_shutdownOpt (go_mark j s) = s_shutdownOpt s"
  "s_setupErr (go_mark j s) = s_setupErr s" "s_startErr (go_mark j s) = s_startErr s"
  "s_eb (go_mark j s) = s_eb s" "s_cause (go_mark j s) = s_cause s"
  "s_shutArg (go_mark j s) = s_shutArg s" "s_shutdownCtx (go_mark j s) = s_shutdownCtx s"
  "s_teardownCtx (go_mark j s) = s_teardownCtx s" "s_trace (go_mark j s) = s_trace s"
  "m_stages (s_mgr (go_mark j s)) = m_stages (s_mgr s)"
  "m_shutdownTimeout (s_mgr (go_mark j s)) = m_shutdownTimeout (s_mgr s)"
  "m_teardownTimeout (s_mgr (go_mark j s)) = m_teardownTimeout (s_mgr s)"
  "m_enforceShutdownTimeout (s_mgr (go_mark j s)) = m_enforceShutdownTimeout (s_mgr s)"
  "m_beforeRun (s_mgr (go_mark j s)) = m_beforeRun (s_mgr s)"
  "m_afterRun (s_mgr (go_mark j s)) = m_afterRun (s_mgr s)"
  "m_managerCallbacks (s_mgr (go_mark j s)) = m_managerCallbacks (s_mgr s)"
  "m_taskCallbacks (s_mgr (go_mark j s)) = m_taskCallbacks (s_mgr s)"
  "m_taskErrorHandler (s_mgr (go_mark j s)) = m_taskErrorHandler (s_mgr s)"
  "m_logger (s_mgr (go_mark j s)) = m_logger (s_mgr s)"
  "m_isRunning (s_mgr (go_mark j s)) = m_isRunning (s_mgr s)"
  "m_startupCtx (s_mgr (go_mark j s)) = m_startupCtx (s_mgr s)"
  "m_taskDoneCtx (s_mgr (go_mark j s)) = m_taskDoneCtx (s_mgr s)"
  "m_startupCancel (s_mgr (go_mark j s)) = m_startupCancel (s_mgr s)"
  "m_taskDoneCancel (s_mgr (go_mark j s)) = m_taskDoneCancel (s_mgr s)"
  "m_pendingStartupCancel (s_mgr (go_mark j s)) = m_pendingStartupCancel (s_mgr s)"
  "m_tasksRunning (s_mgr (go_mark j s)) = m_tasksRunning (s_mgr s)"
  "m_initErrors (s_mgr (go_mark j s)) = m_initErrors (s_mgr s)"
  by (simp_all add: go_mark_def Let_def)

lemma go_call_frame [simp]:
  "s_mgr (go_call j s) = s_mgr s" "s_ctxs (go_call j s) = s_ctxs s"
  "s_world (go_call j s) = s_world s" "s_pc (go_call j s) = s_pc s"
  "s_wgs (go_call j s) = s_wgs s" "s_startWg (go_call j s) = s_startWg s"
  "s_stepCb (go_call j s) = s_stepCb s" "s_ctx (go_call j s) = s_ctx s"
  "s_shutdownOpt (go_call j s) = s_shutdownOpt s" "s_setupErr (go_call j s) = s_setupErr s"
  "s_startErr (go_call j s) = s_startErr s" "s_eb (go_call j s) = s_eb s"
  "s_cause (go_call j s) = s_cause s" "s_shutArg (go_call j s) = s_shutArg s"
  "s_shutdownCtx (go_call j s) = s_shutdownCtx s" "s_teardownCtx (go_call j s) = s_teardownCtx s"
  by (simp_all add: go_call_def Let_def)

lemma go_return_frame [simp]:
  "s_mgr (go_return j e w s) = s_mgr s" "s_ctxs (go_return j e w s) = s_ctxs s"
  "s_pc (go_return j e w s) = s_pc s" "s_wgs (go_return j e w s) = s_wgs s"
  "s_startWg (go_return j e w s) = s_startWg s" "s_stepCb (go_return j e w s) = s_stepCb s"
  "s_ctx (go_return j e w s) = s_ctx s" "s_shutdownOpt (go_return j e w s) = s_shutdownOpt s"
  "s_setupErr (go_return j e w s) = s_setupErr s" "s_startErr (go_return j e w s) = s_startErr s"
  "s_eb (go_return j e w s) = s_eb s" "s_cause (go_return j e w s) = s_cause s"
  "s_shutArg (go_return j e w s) = s_shutArg s"
  "s_shutdownCtx (go_return j e w s) = s_shutdownCtx s"
  "s_teardownCtx (go_return j e w s) = s_teardownCtx s"
  by (simp_all add: go_return_def Let_def split_beta)

lemma go_after_frame [simp]:
  "s_ctxs (go_after j e s) = s_ctxs s" "s_pc (go_after j e s) = s_pc s"
  "s_wgs (go_after j e s) = s_wgs s" "s_startWg (go_after j e s) = s_startWg s"
  "s_stepCb (go_after j e s) = s_stepCb s" "s_ctx (go_after j e s) = s_ctx s"
  "s_shutdownOpt (go_after j e s) = s_shutdownOpt s" "s_setupErr (go_after j e s) = s_setupErr s"
  "s_startErr (go_after j e s) = s_startErr s" "s_eb (go_after j e s) = s_eb s"
  "s_cause (go_after j e s) = s_cause s" "s_shutArg (go_after j e s) = s_shutArg s"
  "s_shutdownCtx (go_after j e s) = s_shutdownCtx s"
  "s_teardownCtx (go_after j e s) = s_teardownCtx s"
  "m_stages (s_mgr (go_after j e s)) = m_stages (s_mgr s)"
  "m_shutdownTimeout (s_mgr (go_after j e s)) = m_shutdownTimeout (s_mgr s)"
  "m_teardownTimeout (s_mgr (go_after j e s)) = m_teardownTimeout (s_mgr s)"
  "m_enforceShutdownTimeout (s_mgr (go_after j e s)) = m_enforceShutdownTimeout (s_mgr s)"
  "m_beforeRun (s_mgr (go_after j e s)) = m_beforeRun (s_mgr s)"
  "m_afterRun (s_mgr (go_after j e s)) = m_afterRun (s_mgr s)"
  "m_managerCallbacks (s_mgr (go_after j e s)) = m_managerCallbacks (s_mgr s)"
  "m_taskCallbacks (s_mgr (go_after j e s)) = m_taskCallbacks (s_mgr s)"
  "m_taskErrorHandler (s_mgr (go_after j e s)) = m_taskErrorHandler (s_mgr s)"
  "m_logger (s_mgr (go_after j e s)) = m_logger (s_mgr s)"
  "m_isRunning (s_mgr (go_after j e s)) = m_isRunning (s_mgr s)"
  "m_startupCtx (s_mgr (go_after j e s)) = m_startupCtx (s_mgr s)"
  "m_taskDoneCtx (s_mgr (go_after j e s)) = m_taskDoneCtx (s_mgr s)"
  "m_startupCancel (s_mgr (go_after j e s)) = m_startupCancel (s_mgr s)"
  "m_taskDoneCancel (s_mgr (go_after j e s)) = m_taskDoneCancel (s_mgr s)"
  "m_pendingStartupCancel (s_mgr (go_after j e s)) = m_pendingStartupCancel (s_mgr s)"
  "m_tasksRunning (s_mgr (go_after j e s)) = m_tasksRunning (s_mgr s)"
  "m_initErrors (s_mgr (go_after j e s)) = m_initErrors (s_mgr s)"
  by (simp_all add: go_after_def Let_def)

lemma go_finish_frame [simp]:
  "s_mgr (go_finish j e s) = s_mgr s" "s_world (go_finish j e s) = s_world s"
  "s_pc (go_finish j e s) = s_pc s" "s_wgs (go_finish j e s) = s_wgs s"
  "s_startWg (go_finish j e s) = s_startWg s" "s_stepCb (go_finish j e s) = s_stepCb s"
  "s_ctx (go_finish j e s) = s_ctx s" "s_shutdownOpt (go_finish j e s) = s_shutdownOpt s"
  "s_setupErr (go_finish j e s) = s_setupErr s" "s_startErr (go_finish j e s) = s_startErr s"
  "s_eb (go_finish j e s) = s_eb s" "s_cause (go_finish j e s) = s_cause s"
  "s_shutArg (go_finish j e s) = s_shutArg s" "s_shutdownCtx (go_finish j e s) = s_shutdownCtx s"
  "s_teardownCtx (go_finish j e s) = s_teardownCtx s" "s_trace (go_finish j e s) = s_trace s"
  by (simp_all add: go_finish_def)

lemma go_report_frame [simp]:
  "s_mgr (go_report j e s) = s_mgr s" "s_world (go_report j e s) = s_world s"
  "s_pc (go_report j e s) = s_pc s" "s_wgs (go_report j e s) = s_wgs s"
  "s_startWg (go_report j e s) = s_startWg s" "s_stepCb (go_report j e s) = s_stepCb s"
  "s_ctx (go_report j e s) = s_ctx s" "s_shutdownOpt (go_report j e s) = s_shutdownOpt s"
  "s_startErr (go_report j e s) = s_startErr s" "s_cause (go_report j e s) = s_cause s"
  "s_shutArg (go_report j e s) = s_shutArg s" "s_shutdownCtx (go_report j e s) = s_shutdownCtx s"
  "s_teardownCtx (go_report j e s) = s_teardownCtx s" "s_trace (go_report j e s) = s_trace s"
  by (simp_all add: go_report_def)

lemma go_exit_frame [simp]:
  "s_world (go_exit j r s) = s_world s" "s_pc (go_exit j r s) = s_pc s"
  "s_startWg (go_exit j r s) = s_startWg s" "s_stepCb (go_exit j r s) = s_stepCb s"
  "s_ctx (go_exit j r s) = s_ctx s" "s_shutdownOpt (go_exit j r s) = s_shutdownOpt s"
  "s_setupErr (go_exit j r s) = s_setupErr s" "s_startErr (go_exit j r s) = s_startErr s"
  "s_eb (go_exit j r s) = s_eb s" "s_cause (go_exit j r s) = s_cause s"
  "s_shutArg (go_exit j r s) = s_shutArg s" "s_shutdownCtx (go_exit j r s) = s_shutdownCtx s"
  "s_teardownCtx (go_exit j r s) = s_teardownCtx s" "s_trace (go_exit j r s) = s_trace s"
  "m_stages (s_mgr (go_exit j r s)) = m_stages (s_mgr s)"
  "m_shutdownTimeout (s_mgr (go_exit j r s)) = m_shutdownTimeout (s_mgr s)"
  "m_teardownTimeout (s_mgr (go_exit j r s)) = m_teardownTimeout (s_mgr s)"
  "m_enforceShutdownTimeout (s_mgr (go_exit j r s)) = m_enforceShutdownTimeout (s_mgr s)"
  "m_beforeRun (s_mgr (go_exit j r s)) = m_beforeRun (s_mgr s)"
  "m_afterRun (s_mgr (go_exit j r s)) = m_afterRun (s_mgr s)"
  "m_managerCallbacks (s_mgr (go_exit j r s)) = m_managerCallbacks (s_mgr s)"
  "m_taskCallbacks (s_mgr (go_exit j r s)) = m_taskCallbacks (s_mgr s)"
  "m_taskErrorHandler (s_mgr (go_exit j r s)) = m_taskErrorHandler (s_mgr s)"
  "m_logger (s_mgr (go_exit j r s)) = m_logger (s_mgr s)"
  "m_isRunning (s_mgr (go_exit j r s)) = m_isRunning (s_mgr s)"
  "m_startupCtx (s_mgr (go_exit j r s)) = m_startupCtx (s_mgr s)"
  "m_taskDoneCtx (s_mgr (go_exit j r s)) = m_taskDoneCtx (s_mgr s)"
  "m_startupCancel (s_mgr (go_exit j r s)) = m_startupCancel (s_mgr s)"
  "m_taskDoneCancel (s_mgr (go_exit j r s)) = m_taskDoneCancel (s_mgr s)"
  "m_pendingStartupCancel (s_mgr (go_exit j r s)) = m_pendingStartupCancel (s_mgr s)"
  "m_initErrors (s_mgr (go_exit j r s)) = m_initErrors (s_mgr s)"
  "s_tasks (go_exit j r s) = s_tasks s"
  by (simp_all add: go_exit_def Let_def)

end
