(* ===== verification/RunFlow.thy ===== *)
theory RunFlow
  imports RunFrames
begin

text \<open>
  The control flow of the goroutine of \<open>Run\<close>: which program counters follow which. Every other
  action leaves the program counter alone. From it come the schedule of the steps (which step of
  which stage is still ahead) and, later, termination.
\<close>

section \<open>The control flow graph\<close>

inductive flow :: "string list \<Rightarrow> pc \<Rightarrow> pc \<Rightarrow> bool" for all where
  fl_enter: "flow all PIdle PEntered"
| fl_reject: "flow all PEntered (PReturned c None)"
| fl_checked: "flow all PEntered (PBeforeRun 0 co)"
| fl_before: "flow all (PBeforeRun i co) (PBeforeRun (Suc i) co')"
| fl_before_err: "flow all (PBeforeRun i co) (PReturned c None)"
| fl_before_panic: "flow all (PBeforeRun i co) PPanicked"
| fl_publish: "flow all (PBeforeRun i co) (PPending p)"
| fl_start: "flow all (PPending p) (PRun StepSetup all (RSpawn 0))"
| fl_task: "flow all (PRun st ss (RSpawn i)) (PRun st ss (RSpawn (Suc i)))"
| fl_wait_start: "flow all (PRun StepStart ss (RSpawn i)) (PRun StepStart ss RWaitStart)"
| fl_wait: "st \<noteq> StepStart \<Longrightarrow> flow all (PRun st ss (RSpawn i)) (PRun st ss RWait)"
| fl_started: "flow all (PRun st ss RWaitStart) (PRun st ss RAfter)"
| fl_waited: "flow all (PRun st ss RWait) (PRun st ss RAfter)"
| fl_setup_failed: "flow all (PRun StepSetup ss RAfter) PSelect"
| fl_setup_ok: "flow all (PRun StepSetup ss RAfter) (PRun StepStart ss (RSpawn 0))"
| fl_next: "flow all (PRun StepStart (x # y # ss) RAfter) (PRun StepSetup (y # ss) (RSpawn 0))"
| fl_all_started: "flow all (PRun StepStart [x] RAfter) PSelect"
| fl_shutdown: "flow all PSelect (PRun StepStop (rev all) (RSpawn 0))"
| fl_stop: "flow all (PRun StepStop (x # y # ss) RAfter) (PRun StepStop (y # ss) (RSpawn 0))"
| fl_stopped: "flow all (PRun StepStop [x] RAfter) PWaitTasks"
| fl_teardown: "flow all PWaitTasks (PRun StepTeardown (rev all) (RSpawn 0))"
| fl_tear: "flow all (PRun StepTeardown (x # y # ss) RAfter) (PRun StepTeardown (y # ss) (RSpawn 0))"
| fl_return: "flow all (PRun StepTeardown [x] RAfter) (PReturned c e)"

text \<open>
  Program counters that occur: the list of a \<open>PRun\<close> is what is left of the stages, in the order of
  the step; only the start step waits at \<open>startWg\<close>, and it does not wait for its tasks to end.
\<close>

fun at_ok :: "step \<Rightarrow> run_at \<Rightarrow> bool" where
  "at_ok st (RSpawn i) = True"
| "at_ok st RWaitStart = (st = StepStart)"
| "at_ok st RWait = (st \<noteq> StepStart)"
| "at_ok st RAfter = True"

fun pc_ok :: "string list \<Rightarrow> pc \<Rightarrow> bool" where
  "pc_ok all (PRun st ss at) =
     (ss \<noteq> [] \<and> step_known st \<and> at_ok st at \<and>
      (\<exists>pre. pre @ ss = (if st = StepSetup \<or> st = StepStart then all else rev all)))"
| "pc_ok all _ = True"

lemma suffix_tail: "pre @ x # ys = zs \<Longrightarrow> \<exists>pre. pre @ ys = zs"
  by (intro exI [of _ "pre @ [x]"]) simp

lemma flow_pc_ok: "flow all pc pc' \<Longrightarrow> all \<noteq> [] \<Longrightarrow> pc_ok all pc \<Longrightarrow> pc_ok all pc'"
  by (induction rule: flow.induct) (auto intro: suffix_tail)

section \<open>Steps ahead and steps passed\<close>

text \<open>\<open>ahead all pc st x\<close>: the run has not yet come to step \<open>st\<close> of stage \<open>x\<close>.\<close>

fun ahead_run :: "string list \<Rightarrow> step \<Rightarrow> string list \<Rightarrow> step \<Rightarrow> string \<Rightarrow> bool" where
  "ahead_run all StepSetup ss st x =
     (case st of StepSetup \<Rightarrow> x \<in> set (tl ss) | StepStart \<Rightarrow> x \<in> set ss | _ \<Rightarrow> x \<in> set all)"
| "ahead_run all StepStart ss st x =
     (case st of StepSetup \<Rightarrow> x \<in> set (tl ss) | StepStart \<Rightarrow> x \<in> set (tl ss) | _ \<Rightarrow> x \<in> set all)"
| "ahead_run all StepStop ss st x =
     (case st of StepStop \<Rightarrow> x \<in> set (tl ss) | StepTeardown \<Rightarrow> x \<in> set all | _ \<Rightarrow> False)"
| "ahead_run all StepTeardown ss st x = (st = StepTeardown \<and> x \<in> set (tl ss))"
| "ahead_run all (StepOther _) ss st x = False"

fun ahead :: "string list \<Rightarrow> pc \<Rightarrow> step \<Rightarrow> string \<Rightarrow> bool" where
  "ahead all (PRun st' ss _) st x = ahead_run all st' ss st x"
| "ahead all PSelect st x = ((st = StepStop \<or> st = StepTeardown) \<and> x \<in> set all)"
| "ahead all PWaitTasks st x = (st = StepTeardown \<and> x \<in> set all)"
| "ahead all (PReturned _ _) st x = False"
| "ahead all _ st x = (x \<in> set all)"

text \<open>The task at index \<open>i\<close> of the stage has been looked at for this step.\<close>

fun in_loop_before :: "pc \<Rightarrow> step \<Rightarrow> tref \<Rightarrow> bool" where
  "in_loop_before (PRun st' ss (RSpawn k)) st r = (st' = st \<and> hd ss = fst r \<and> k \<le> snd r)"
| "in_loop_before _ st r = False"

definition passed :: "string list \<Rightarrow> pc \<Rightarrow> step \<Rightarrow> tref \<Rightarrow> bool" where
  "passed all pc st r \<longleftrightarrow> fst r \<in> set all \<and> \<not> ahead all pc st (fst r) \<and> \<not> in_loop_before pc st r"

lemma ahead_flow:
  "flow all pc pc' \<Longrightarrow> pc_ok all pc \<Longrightarrow> x \<in> set all \<Longrightarrow> step_known st \<Longrightarrow> ahead all pc' st x \<Longrightarrow> ahead all pc st x"
  by (induction rule: flow.induct) (auto split: step.splits dest: list.set_sel(2))

lemma hd_mem: "hd xs = x \<Longrightarrow> xs \<noteq> [] \<Longrightarrow> x \<in> set xs"
  by (auto intro: hd_in_set)

lemma hd_rev_mem: "hd (rev xs) = x \<Longrightarrow> xs \<noteq> [] \<Longrightarrow> x \<in> set xs"
  using hd_mem [of "rev xs"] by simp

lemma loop_flow:
  "flow all pc pc' \<Longrightarrow> all \<noteq> [] \<Longrightarrow> pc_ok all pc \<Longrightarrow> in_loop_before pc' st r \<Longrightarrow>
   in_loop_before pc st r \<or> ahead all pc st (fst r)"
  by (induction rule: flow.induct) (auto split: step.splits dest: hd_mem hd_rev_mem)

lemma passed_flow:
  "flow all pc pc' \<Longrightarrow> all \<noteq> [] \<Longrightarrow> pc_ok all pc \<Longrightarrow> step_known st \<Longrightarrow> passed all pc st r \<Longrightarrow> passed all pc' st r"
  using ahead_flow loop_flow unfolding passed_def by blast

text \<open>The task the loop is at has not been passed in this step or a later one; it is afterwards.\<close>

lemma not_passed_here:
  assumes "pc_ok all (PRun st ss (RSpawn i))" and "distinct all"
  shows "\<not> passed all (PRun st ss (RSpawn i)) st (hd ss, i)"
  by (simp add: passed_def)

lemma not_passed_later:
  assumes "pc_ok all (PRun st ss at)" and "st < st'" and "step_known st'"
  shows "\<not> passed all (PRun st ss at) st' (hd ss, k)"
proof -
  have "hd ss \<in> set ss" "set ss \<subseteq> set all"
    using assms(1) by (auto split: if_splits) (metis set_append set_rev Un_iff)+
  then show ?thesis using assms(2,3)
    using assms(1) by (cases st; cases st') (auto simp: passed_def less_step_def)
qed

lemma passed_here_next:
  assumes "pc_ok all (PRun st ss (RSpawn i))" and "distinct all"
  shows "passed all (PRun st ss (RSpawn (Suc i))) st (hd ss, i)"
proof -
  have "hd ss \<in> set ss" "set ss \<subseteq> set all" "distinct ss"
    using assms by (auto split: if_splits) (metis set_append set_rev Un_iff distinct_append distinct_rev)+
  moreover then have "hd ss \<notin> set (tl ss)" by (cases ss) auto
  ultimately show ?thesis using assms(1) by (cases st) (auto simp: passed_def)
qed

section \<open>Steps follow the flow\<close>

lemma main_pcs [simp]:
  "s_pc (early_return c e s) = PReturned e None"
  "s_pc (start_returns ss e s) = PSelect"
  "s_pc (loop_task st ss i s) = PRun st ss (RSpawn (Suc i))"
  "s_pc (loop_end st ss s) = PRun st ss (if st = StepStart then RWaitStart else RWait)"
  "s_pc (stage_waited st ss s) = PRun st ss RAfter"
  "s_pc (begin_shutdown e s) = PRun StepStop (rev (s_stages s)) (RSpawn 0)"
  "s_pc (begin_teardown s) = PRun StepTeardown (rev (s_stages s)) (RSpawn 0)"
  "s_pc (run_publish c s) = PPending (m_pendingStartupCancel (s_mgr s))"
  by (simp_all add: early_return_def start_returns_def loop_task_def loop_end_def stage_waited_def
      begin_shutdown_def begin_teardown_def run_publish_def Let_def split_beta)

lemma start_loop_pc: "s_pc (start_loop ss s) = (if ss = [] then PSelect else PRun StepSetup ss (RSpawn 0))"
  by (simp add: start_loop_def)

lemma run_finish_pc: "\<exists>c e. s_pc (run_finish s) = PReturned c e"
  by (simp add: run_finish_def Let_def)

lemma next_stage_flow:
  "pc_ok all (PRun st ss RAfter) \<Longrightarrow> flow all (PRun st ss RAfter) (s_pc (next_stage st ss s))"
  using run_finish_pc [of s]
  by (cases ss; cases "tl ss"; cases st)
    (auto simp: next_stage_def start_loop_pc intro: flow.intros)

lemma other_pcs [simp]:
  "s_stages (set_mgr_ctxs (Shutdown (s_mgr s, c)) s) = s_stages s"
  "s_stages (set_mgr_ctxs (AddTask x t opts w (s_mgr s, c)) s) = s_stages s"
  "s_stages (set_mgr_ctxs (AddInitError e (s_mgr s, c)) s) = s_stages s"
  "s_pc (set_mgr_ctxs ms s) = s_pc s"
  "s_gos (set_mgr_ctxs ms s) = s_gos s"
  "s_pc (ssm_user_cancel j e s) = s_pc s"
  "s_gos (ssm_user_cancel j e s) = s_gos s"
  "s_mgr (ssm_user_cancel j e s) = s_mgr s"
  by (simp_all add: set_mgr_ctxs_def Shutdown_def AddTask_def AddInitError_def addInitError_def
      requestStartupCancel_def ssm_user_cancel_def Let_def split: option.split)

lemma step_stages [simp]: "sys_step s a s' \<Longrightarrow> s_stages s' = s_stages s"
  by (induction rule: sys_step.induct) (simp_all add: run_enter_def)

lemma step_flow:
  assumes "sys_step s a s'" and "pc_ok (s_stages s) (s_pc s)" and "s_stages s \<noteq> []"
    and "s_pc s = PIdle \<Longrightarrow> \<not> m_isRunning (s_mgr s)"
  shows "s_pc s' = s_pc s \<or> flow (s_stages s) (s_pc s) (s_pc s')"
  using assms
proof (induction rule: sys_step.induct)
  case (st_before s i co b)
  then show ?case
    by (auto simp: run_beforeRun_def split_beta split: option.split intro: flow.intros)
next
  case (st_stage_end s st stages b)
  then show ?case
    using next_stage_flow [of "s_stages s" st stages "stage_callbacks_after st (hd stages) s"]
    by (simp add: stage_end_def)
qed (auto simp: run_enter_def run_checks_def run_pending_def start_loop_pc split_beta Let_def
      split: option.split intro: flow.intros)

end
