(* ===== verification/RunSched.thy ===== *)
theory RunSched
  imports RunFlow
begin

text \<open>
  The first invariant of the run machine: goroutines and marked steps belong to steps the run has
  already come to, and there is at most one goroutine for each task and step. It gives that the
  order error of \<open>checkStartStep\<close> never occurs during a run.
\<close>

section \<open>Marks and keys\<close>

definition marks :: "'w sys \<Rightarrow> tref \<Rightarrow> step set" where
  "marks s r = set (tw_executeSteps (tw_at (s_tasks s) r))"

definition g_key :: "goroutine \<Rightarrow> step \<times> tref" where
  "g_key g = (g_step g, g_tw g)"

abbreviation keys :: "'w sys \<Rightarrow> (step \<times> tref) list" where
  "keys s \<equiv> map g_key (s_gos s)"

abbreviation valid :: "'w sys \<Rightarrow> tref \<Rightarrow> bool" where
  "valid s r \<equiv> tw_valid (s_tasks s) r"

lemma g_key_phase [simp]: "g_key (g\<lparr>g_phase := p\<rparr>) = g_key g"
  by (simp add: g_key_def)

lemma map_update_same: "f x = f (xs ! i) \<Longrightarrow> map f (xs[i := x]) = map f xs"
  by (metis list_update_id map_update)

lemma go_keys [simp]:
  "keys (go_check j s) = keys s" "keys (go_mark j s) = keys s" "keys (go_call j s) = keys s"
  "keys (go_return j e w s) = keys s" "keys (go_after j e s) = keys s"
  "keys (go_finish j e s) = keys s" "keys (go_report j e s) = keys s" "keys (go_exit j res s) = keys s"
  by (simp_all add: go_check_def go_mark_def go_call_def go_return_def go_after_def go_finish_def
      go_report_def go_exit_def Let_def split_beta map_update_same)

lemma begin_start_step_goroutine [simp]:
  "g_tw (fst (begin_start_step g s)) = g_tw g" "g_step (fst (begin_start_step g s)) = g_step g"
  "s_gos (snd (begin_start_step g s)) = s_gos s"
  by (simp_all add: begin_start_step_def Let_def split_beta)

lemma begin_stop_step_goroutine [simp]:
  "g_tw (fst (begin_stop_step g s)) = g_tw g" "g_step (fst (begin_stop_step g s)) = g_step g"
  "s_gos (snd (begin_stop_step g s)) = s_gos s"
  by (simp_all add: begin_stop_step_def Let_def split_beta)

text \<open>\<open>go_begin\<close> sets the contexts and the phase of the goroutine, nothing else of it.\<close>

lemma go_begin_gos:
  "\<exists>g'. s_gos (go_begin j s) = (s_gos s)[j := g'] \<and> g_tw g' = g_tw (s_gos s ! j) \<and>
        g_step g' = g_step (s_gos s ! j) \<and> g_phase g' = GReady"
  by (cases "g_step (s_gos s ! j)") (simp_all add: go_begin_def Let_def split_beta, auto)

lemma go_begin_keys [simp]: "keys (go_begin j s) = keys s"
proof -
  obtain g' where "s_gos (go_begin j s) = (s_gos s)[j := g']" "g_tw g' = g_tw (s_gos s ! j)"
    "g_step g' = g_step (s_gos s ! j)"
    using go_begin_gos by blast
  then show ?thesis by (simp add: map_update_same g_key_def)
qed

lemma tw_valid_set_tw [simp]: "tw_valid (s_tasks (set_tw r tw s)) r' = valid s r'"
  by simp

lemma marks_set_tw:
  "valid s r \<Longrightarrow> marks (set_tw r tw s) r' = (if r' = r then set (tw_executeSteps tw) else marks s r')"
  by (simp add: marks_def tw_at_update)

lemma marks_cong: "s_tasks s' = s_tasks s \<Longrightarrow> marks s' r = marks s r"
  by (simp add: marks_def)

lemma begin_start_step_marks:
  "valid s (g_tw g) \<Longrightarrow> marks (snd (begin_start_step g s)) r = marks s r"
  "valid (snd (begin_start_step g s)) r = valid s r"
  "s_tasks (snd (begin_stop_step g s)) = s_tasks s"
  by (auto simp: begin_start_step_def begin_stop_step_def Let_def split_beta marks_set_tw)
    (auto simp: marks_def)

lemma go_begin_marks:
  "valid s (g_tw (s_gos s ! j)) \<Longrightarrow> marks (go_begin j s) r = marks s r"
  "valid (go_begin j s) r = valid s r"
  by (auto simp: go_begin_def Let_def split_beta marks_def begin_start_step_marks
      begin_start_step_marks(1) [unfolded marks_def] split: step.split)

lemma go_mark_marks:
  "valid s (g_tw (s_gos s ! j)) \<Longrightarrow> marks (go_mark j s) r =
     (if r = g_tw (s_gos s ! j) \<and> g_step (s_gos s ! j) \<noteq> StepSetup
      then insert (g_step (s_gos s ! j)) (marks s r) else marks s r)"
  "valid (go_mark j s) r = valid s r"
  by (auto simp: go_mark_def Let_def run_mark_def marks_def tw_at_update)

lemma go_after_marks:
  "valid s (g_tw (s_gos s ! j)) \<Longrightarrow> marks (go_after j e s) r =
     (if r = g_tw (s_gos s ! j) \<and> g_step (s_gos s ! j) = StepSetup \<and> e = None
      then insert StepSetup (marks s r) else marks s r)"
  "valid (go_after j e s) r = valid s r"
  by (auto simp: go_after_def Let_def run_mark_setup_def marks_def tw_at_update)

declare go_begin_marks(2) [simp] go_mark_marks(2) [simp] go_after_marks(2) [simp]

lemma loop_task_tasks:
  "s_tasks (loop_task st ss i s) =
     tw_update (hd ss, i) (fst (checkStartStep (tw_at (s_tasks s) (hd ss, i)) (s_world s) st)) (s_tasks s)"
  by (simp add: loop_task_def Let_def split_beta split: sum.split)

lemma loop_task_marks:
  assumes "valid s (hd ss, i)"
  shows "marks (loop_task st ss i s) r \<subseteq> (if r = (hd ss, i) then insert st (marks s r) else marks s r)"
    and "marks s r \<subseteq> marks (loop_task st ss i s) r"
    and "valid (loop_task st ss i s) r' = valid s r'"
  using assms ledger.check_adds [of "tw_at (s_tasks s) (hd ss, i)" "s_world s" st]
    ledger.check_grows [of "tw_at (s_tasks s) (hd ss, i)" "s_world s" st]
  by (auto simp: marks_def loop_task_tasks tw_at_update)

lemma loop_task_gos:
  "s_gos (loop_task st ss i s) = s_gos s @
     (if snd (checkStartStep (tw_at (s_tasks s) (hd ss, i)) (s_world s) st) = Inr True
      then [new_goroutine (hd ss, i) st] else [])"
  by (auto simp: loop_task_def Let_def split_beta split: sum.split)

section \<open>The invariant\<close>

definition sched_inv :: "'w sys \<Rightarrow> bool" where
  "sched_inv s \<longleftrightarrow>
     stages_ok (s_stages s) \<and> pc_ok (s_stages s) (s_pc s) \<and>
     (s_pc s = PIdle \<longrightarrow> idle_manager (s_mgr s)) \<and> (s_pc s \<noteq> PIdle \<longrightarrow> m_isRunning (s_mgr s)) \<and>
     (\<forall>r. valid s r \<longrightarrow> fst r \<in> set (s_stages s)) \<and>
     (\<forall>g\<in>set (s_gos s). valid s (g_tw g) \<and> step_known (g_step g) \<and>
        passed (s_stages s) (s_pc s) (g_step g) (g_tw g)) \<and>
     (\<forall>r st. valid s r \<longrightarrow> st \<in> marks s r \<longrightarrow> step_known st \<and> passed (s_stages s) (s_pc s) st r) \<and>
     distinct (keys s)"

lemma sched_invD:
  assumes "sched_inv s"
  shows "stages_ok (s_stages s)" "pc_ok (s_stages s) (s_pc s)"
    "s_pc s = PIdle \<Longrightarrow> idle_manager (s_mgr s)" "s_pc s \<noteq> PIdle \<Longrightarrow> m_isRunning (s_mgr s)"
    "valid s r \<Longrightarrow> fst r \<in> set (s_stages s)"
    "g \<in> set (s_gos s) \<Longrightarrow> valid s (g_tw g)" "g \<in> set (s_gos s) \<Longrightarrow> step_known (g_step g)"
    "g \<in> set (s_gos s) \<Longrightarrow> passed (s_stages s) (s_pc s) (g_step g) (g_tw g)"
    "valid s r \<Longrightarrow> st \<in> marks s r \<Longrightarrow> step_known st"
    "valid s r \<Longrightarrow> st \<in> marks s r \<Longrightarrow> passed (s_stages s) (s_pc s) st r"
    "distinct (keys s)" "s_stages s \<noteq> []" "distinct (s_stages s)"
  using assms unfolding sched_inv_def stages_ok_def by blast+

lemma not_passed_idle: "\<not> passed all PIdle st r"
  by (simp add: passed_def)

lemma idle_valid_stage: "idle_manager m \<Longrightarrow> tw_valid (m_tasks m) r \<Longrightarrow> fst r \<in> set (m_stages m)"
  by (auto simp: idle_manager_def tw_valid_def stageTasks_get_def split: option.splits
      dest: map_of_SomeD)

lemma sched_inv_idle:
  "idle_manager (s_mgr s) \<Longrightarrow> s_pc s = PIdle \<Longrightarrow> s_gos s = [] \<Longrightarrow> sched_inv s"
  by (auto simp: sched_inv_def idle_valid_stage marks_def)
    (auto simp: idle_manager_def wrappers_fresh_def)

lemma sched_inv_gos_idle: "sched_inv s \<Longrightarrow> s_pc s = PIdle \<Longrightarrow> s_gos s = []"
  using not_passed_idle by (fastforce simp: sched_inv_def neq_Nil_conv)

text \<open>
  The shape of every step on the part of the state the invariant reads. New marks and new goroutines
  are for the step at hand.
\<close>

lemma sched_inv_transfer:
  assumes inv: "sched_inv s"
    and st: "s_stages s' = s_stages s"
    and pc: "s_pc s' = s_pc s \<or> flow (s_stages s) (s_pc s) (s_pc s')"
    and run: "s_pc s' \<noteq> PIdle" "m_isRunning (s_mgr s')"
    and val: "\<And>r. valid s' r = valid s r"
    and mk: "\<And>r st. valid s r \<Longrightarrow> st \<in> marks s' r \<Longrightarrow>
               st \<in> marks s r \<or> step_known st \<and> passed (s_stages s) (s_pc s') st r"
    and ks: "keys s' = keys s \<or> (\<exists>st r. keys s' = keys s @ [(st, r)] \<and> valid s r \<and> step_known st \<and>
               passed (s_stages s) (s_pc s') st r \<and> \<not> passed (s_stages s) (s_pc s) st r)"
  shows "sched_inv s'"
proof -
  have mono: "passed (s_stages s) (s_pc s') st r" if "passed (s_stages s) (s_pc s) st r" "step_known st" for st r
    using pc that passed_flow sched_invD(2,12) [OF inv] by metis
  have old: "valid s r \<and> step_known st \<and> passed (s_stages s) (s_pc s') st r"
    if "(st, r) \<in> set (keys s)" for st r
  proof -
    from that obtain g where "g \<in> set (s_gos s)" "g_step g = st" "g_tw g = r"
      by (auto simp: g_key_def)
    then show ?thesis using mono sched_invD(6-8) [OF inv] by blast
  qed
  have new: "valid s r \<and> step_known st \<and> passed (s_stages s) (s_pc s') st r"
    if k: "(st, r) \<in> set (keys s')" for st r
  proof (cases "keys s' = keys s")
    case True
    with k old show ?thesis by simp
  next
    case False
    with ks obtain st' r' where "keys s' = keys s @ [(st', r')]" "valid s r'" "step_known st'"
      "passed (s_stages s) (s_pc s') st' r'" by blast
    with k old show ?thesis by (metis in_set_conv_decomp UnE set_append singletonD list.set(1) list.set(2) prod.inject insertE empty_iff)
  qed
  have dist: "distinct (keys s')"
  proof (cases "keys s' = keys s")
    case True
    with inv show ?thesis by (simp add: sched_inv_def)
  next
    case False
    with ks obtain st r where k: "keys s' = keys s @ [(st, r)]" "\<not> passed (s_stages s) (s_pc s) st r"
      by blast
    have "(st, r) \<notin> set (keys s)"
      using k(2) inv by (auto simp: sched_inv_def g_key_def)
    with k(1) inv show ?thesis by (simp add: sched_inv_def)
  qed
  have gos: "valid s (g_tw g) \<and> step_known (g_step g) \<and> passed (s_stages s) (s_pc s') (g_step g) (g_tw g)"
    if "g \<in> set (s_gos s')" for g
    using new [of "g_step g" "g_tw g"] that by (force simp: g_key_def)
  have "pc_ok (s_stages s) (s_pc s')"
    using pc flow_pc_ok sched_invD(2,12) [OF inv] by metis
  moreover have "step_known st \<and> passed (s_stages s) (s_pc s') st r" if "valid s r" "st \<in> marks s' r" for st r
    using mk [OF that] mono sched_invD(9,10) [OF inv that(1)] by blast
  ultimately show ?thesis
    using inv st run val dist gos by (simp add: sched_inv_def)
qed

text \<open>Steps that leave the wrappers and the goroutines alone.\<close>

lemma sched_inv_frame:
  assumes "sched_inv s" and "s_pc s' = s_pc s \<or> flow (s_stages s) (s_pc s) (s_pc s')"
    and "s_pc s' \<noteq> PIdle" and "m_isRunning (s_mgr s')" and "s_stages s' = s_stages s"
    and "s_tasks s' = s_tasks s" and "keys s' = keys s"
  shows "sched_inv s'"
  using assms(1,5,2,3,4) by (rule sched_inv_transfer) (auto simp: assms(6,7) marks_def)

lemma flow_not_idle: "flow all pc pc' \<Longrightarrow> pc' \<noteq> PIdle"
  by (induction rule: flow.induct) simp_all

lemma set_mgr_ctxs_running:
  assumes "m_isRunning (s_mgr s)"
  shows "s_tasks (set_mgr_ctxs (Shutdown (s_mgr s, c)) s) = s_tasks s"
    and "s_tasks (set_mgr_ctxs (AddTask x t opts w (s_mgr s, c)) s) = s_tasks s"
    and "s_tasks (set_mgr_ctxs (AddInitError e (s_mgr s, c)) s) = s_tasks s"
    and "m_isRunning (s_mgr (set_mgr_ctxs (Shutdown (s_mgr s, c)) s))"
    and "m_isRunning (s_mgr (set_mgr_ctxs (AddTask x t opts w (s_mgr s, c)) s))"
    and "m_isRunning (s_mgr (set_mgr_ctxs (AddInitError e (s_mgr s, c)) s))"
  using assms by (auto simp: set_mgr_ctxs_def Shutdown_def AddTask_def AddInitError_def addInitError_def
      requestStartupCancel_def split: option.split)

lemma step_running:
  "sys_step s a s' \<Longrightarrow> m_isRunning (s_mgr s) \<Longrightarrow> m_isRunning (s_mgr s')"
  by (induction rule: sys_step.induct) (simp_all add: run_enter_def set_mgr_ctxs_running)

lemma sched_flow:
  assumes "sched_inv s" and "sys_step s a s'"
  shows "s_pc s' = s_pc s \<or> flow (s_stages s) (s_pc s) (s_pc s')"
  using assms(2) by (rule step_flow) (use sched_invD [OF assms(1)] in \<open>auto simp: idle_manager_def\<close>)

lemma sched_inv_step_idle:
  assumes "sys_step s a s'" and "sched_inv s" and "s_pc s = PIdle"
  shows "sched_inv s'"
  using assms
proof (induction rule: sys_step.induct)
  case (st_enter s c opt)
  have idle: "idle_manager (s_mgr s)" using st_enter sched_invD(3) by blast
  have "s_gos s = []" using st_enter sched_inv_gos_idle by blast
  then show ?case using idle
    by (auto simp: sched_inv_def run_enter_def idle_manager_def marks_def wrappers_fresh_def
        idle_valid_stage [unfolded idle_manager_def])
next
  case (st_shutdown s)
  then show ?case
    using sched_invD(3) sched_inv_gos_idle
    by (intro sched_inv_idle) (auto simp: set_mgr_ctxs_def Shutdown_def intro!: requestStartupCancel_idle)
next
  case (st_add_task s stage t opts)
  then show ?case
    using sched_invD(3) sched_inv_gos_idle
    by (intro sched_inv_idle) (auto simp: set_mgr_ctxs_def intro!: AddTask_idle)
next
  case (st_add_error s e)
  then show ?case
    using sched_invD(3) sched_inv_gos_idle
    by (intro sched_inv_idle)
      (auto simp: set_mgr_ctxs_def AddInitError_def intro!: addInitError_idle split: option.split)
qed (simp_all add: sched_inv_gos_idle, (auto intro!: sched_inv_idle simp: sched_inv_gos_idle sched_invD(3))+)

text \<open>The loop of \<open>runStageStep\<close> marks, and spawns for, the task it is at.\<close>

lemma sched_inv_loop_task:
  assumes inv: "sched_inv s" and pc: "s_pc s = PRun st ss (RSpawn i)"
    and i: "i < length (stageTasks_get (s_tasks s) (hd ss))"
  shows "sched_inv (loop_task st ss i s)"
proof -
  let ?r = "(hd ss, i)"
  note ok = sched_invD [OF inv]
  have v: "valid s ?r" using i by (simp add: tw_valid_def)
  have known: "step_known st" using ok(2) pc by simp
  have here: "passed (s_stages s) (PRun st ss (RSpawn (Suc i))) st ?r"
    and not_yet: "\<not> passed (s_stages s) (PRun st ss (RSpawn i)) st ?r"
    using passed_here_next not_passed_here ok(2,13) pc by auto
  show ?thesis
  proof (rule sched_inv_transfer [OF inv])
    show "s_pc (loop_task st ss i s) = s_pc s \<or> flow (s_stages s) (s_pc s) (s_pc (loop_task st ss i s))"
      by (simp add: pc fl_task)
    fix r st' assume "valid s r" "st' \<in> marks (loop_task st ss i s) r"
    then show "st' \<in> marks s r \<or>
        step_known st' \<and> passed (s_stages s) (s_pc (loop_task st ss i s)) st' r"
      using loop_task_marks(1) [OF v, of st r] known here by (auto split: if_splits)
  next
    show "keys (loop_task st ss i s) = keys s \<or> (\<exists>st' r. keys (loop_task st ss i s) = keys s @ [(st', r)] \<and>
        valid s r \<and> step_known st' \<and> passed (s_stages s) (s_pc (loop_task st ss i s)) st' r \<and>
        \<not> passed (s_stages s) (s_pc s) st' r)"
      using v known here not_yet pc
      by (cases "snd (checkStartStep (tw_at (s_tasks s) ?r) (s_world s) st) = Inr True")
        (auto simp: loop_task_gos g_key_def new_goroutine_def)
  qed (use ok(4) pc loop_task_marks(3) [OF v] in auto)
qed

lemma sched_inv_go:
  assumes inv: "sched_inv s" and j: "j < length (s_gos s)" and pc: "s_pc s' = s_pc s"
    and st: "s_stages s' = s_stages s" and run: "m_isRunning (s_mgr s') = m_isRunning (s_mgr s)"
    and val: "\<And>r. valid s' r = valid s r" and ks: "keys s' = keys s"
    and mk: "\<And>r. marks s' r \<subseteq>
      (if r = g_tw (s_gos s ! j) then insert (g_step (s_gos s ! j)) (marks s r) else marks s r)"
  shows "sched_inv s'"
proof (rule sched_inv_transfer [OF inv st])
  have not_idle: "s_pc s \<noteq> PIdle" using sched_inv_gos_idle [OF inv] j by auto
  then show "s_pc s' \<noteq> PIdle" "m_isRunning (s_mgr s')" using pc run sched_invD(4) [OF inv] by auto
  fix r st' assume "valid s r" "st' \<in> marks s' r"
  then show "st' \<in> marks s r \<or> step_known st' \<and> passed (s_stages s) (s_pc s') st' r"
    using mk [of r] sched_invD(7,8) [OF inv nth_mem [OF j]] pc by (auto split: if_splits)
qed (use pc val ks in auto)

lemma sched_inv_step_running:
  assumes "sys_step s a s'" and "sched_inv s" and "s_pc s \<noteq> PIdle"
  shows "sched_inv s'"
proof -
  have fl: "s_pc s' = s_pc s \<or> flow (s_stages s) (s_pc s) (s_pc s')"
    using assms sched_flow by blast
  have not_idle: "s_pc s' \<noteq> PIdle" using fl flow_not_idle assms(3) by metis
  have running: "m_isRunning (s_mgr s')" using assms step_running sched_invD(4) by blast
  have frame: "s_tasks s' = s_tasks s \<Longrightarrow> keys s' = keys s \<Longrightarrow> sched_inv s'"
    using sched_inv_frame [OF assms(2) fl not_idle running] step_stages [OF assms(1)] by blast
  have gv: "j < length (s_gos s) \<Longrightarrow> valid s (g_tw (s_gos s ! j))" for j
    using sched_invD(6) [OF assms(2)] nth_mem by blast
  from assms show ?thesis using frame gv
  proof (cases rule: sys_step.cases)
    case (st_loop st ss i b)
    then show ?thesis using sched_inv_loop_task assms(2) by blast
  next
    case (st_begin j)
    then show ?thesis by (intro sched_inv_go [OF assms(2), of j]) (simp_all add: go_begin_marks(1) [OF gv] subset_iff)
  next
    case (st_mark j)
    then show ?thesis by (intro sched_inv_go [OF assms(2), of j]) (simp_all add: go_mark_marks(1) [OF gv] subset_iff)
  next
    case (st_after j err)
    then show ?thesis by (intro sched_inv_go [OF assms(2), of j]) (simp_all add: go_after_marks(1) [OF gv] subset_iff)
  qed (use sched_invD(4) [OF assms(2) assms(3)] in \<open>simp_all add: set_mgr_ctxs_running\<close>)
qed

lemma sched_inv_step: "sched_inv s \<Longrightarrow> sys_step s a s' \<Longrightarrow> sched_inv s'"
  using sched_inv_step_idle sched_inv_step_running by blast

lemma initial_sched_inv: "initial s \<Longrightarrow> sched_inv s"
  by (rule sched_inv_idle) (simp_all add: initial_def)

interpretation sched: invariant_machine sys_step initial sched_inv
  using initial_sched_inv sched_inv_step by unfold_locales

lemma reachable_sched_inv: "reachable s \<Longrightarrow> sched_inv s"
  unfolding reachable_def using sched.inv_run by blast

end
