(* ===== verification/RunLedger.thy ===== *)
theory RunLedger
  imports RunSched
begin

text \<open>
  What the goroutines, the wrappers and the trace know of each other. A goroutine is at the call of
  its task exactly when the trace says so; its step is marked exactly when it got to the line that
  marks it; the step it depends on was marked before it was created.
\<close>

section \<open>One goroutine moves\<close>

definition moved :: "nat \<Rightarrow> gphase \<Rightarrow> 'w sys \<Rightarrow> 'w sys \<Rightarrow> bool" where
  "moved j p s s' \<longleftrightarrow> (\<exists>g'. s_gos s' = (s_gos s)[j := g'] \<and> g_key g' = g_key (s_gos s ! j) \<and> g_phase g' = p)"

lemma moved_phase: "s_gos s' = (s_gos s)[j := (s_gos s ! j)\<lparr>g_phase := p\<rparr>] \<Longrightarrow> moved j p s s'"
  by (auto simp: moved_def)

lemma go_moved:
  "moved j GReady s (go_begin j s)"
  "moved j (if checkRunStep (tw_at (s_tasks s) (g_tw (s_gos s ! j))) (s_world s) (g_step (s_gos s ! j))
            then GBefore else GExit None) s (go_check j s)"
  "moved j GMarked s (go_mark j s)"
  "moved j GRunning s (go_call j s)"
  "\<exists>err'. moved j (GReturned err') s (go_return j err w s) \<and>
     s_trace (go_return j err w s) = EvReturn (g_tw (s_gos s ! j)) (g_step (s_gos s ! j)) err' # s_trace s"
  "moved j (GAfter err) s (go_after j err s)"
  "moved j (GFinished err) s (go_finish j err s)"
  "moved j (GExit (Some err)) s (go_report j err s)"
  "moved j (GDone res) s (go_exit j res s)"
  using go_begin_gos [of j s]
  by (auto simp: go_check_def go_mark_def go_call_def go_return_def go_after_def go_finish_def
      go_report_def go_exit_def Let_def split_beta g_key_def moved_def)

lemma moved_nth: "moved j p s s' \<Longrightarrow> i < length (s_gos s) \<Longrightarrow> i \<noteq> j \<Longrightarrow> s_gos s' ! i = s_gos s ! i"
  by (auto simp: moved_def)

lemma moved_at: "moved j p s s' \<Longrightarrow> j < length (s_gos s) \<Longrightarrow> g_phase (s_gos s' ! j) = p \<and> g_key (s_gos s' ! j) = g_key (s_gos s ! j)"
  by (auto simp: moved_def)

lemma moved_length: "moved j p s s' \<Longrightarrow> length (s_gos s') = length (s_gos s)"
  by (auto simp: moved_def)

lemma moved_keys: "moved j p s s' \<Longrightarrow> keys s' = keys s"
  by (auto simp: moved_def map_update_same)

section \<open>Phases and the trace\<close>

text \<open>What \<open>run\<close> returned, once it has.\<close>

fun result :: "gphase \<Rightarrow> go_error option option" where
  "result (GReturned e) = Some e"
| "result (GAfter e) = Some e"
| "result (GFinished e) = Some e"
| "result (GExit r) = r"
| "result (GDone r) = r"
| "result _ = None"

fun done_phase :: "gphase \<Rightarrow> bool" where
  "done_phase (GDone _) = True"
| "done_phase _ = False"

text \<open>The step of the goroutine is marked in its wrapper.\<close>

definition settled :: "goroutine \<Rightarrow> bool" where
  "settled g \<longleftrightarrow>
     (if g_step g = StepSetup
      then result (g_phase g) = Some None \<and> g_phase g \<noteq> GReturned None
      else g_phase g = GMarked \<or> g_phase g = GRunning \<or> result (g_phase g) \<noteq> None)"

fun ev_key :: "event \<Rightarrow> (step \<times> tref) option" where
  "ev_key (EvCall r st) = Some (st, r)"
| "ev_key (EvReturn r st e) = Some (st, r)"
| "ev_key _ = None"

text \<open>The calls and returns of one step of one task, newest first.\<close>

definition calls_of :: "step \<times> tref \<Rightarrow> event list \<Rightarrow> event list" where
  "calls_of k t = filter (\<lambda>e. ev_key e = Some k) t"

lemma calls_of_simps [simp]:
  "calls_of k [] = []" "calls_of k (e # t) = (if ev_key e = Some k then e # calls_of k t else calls_of k t)"
  "calls_of k (t @ t') = calls_of k t @ calls_of k t'"
  by (simp_all add: calls_of_def)

lemma calls_of_replicate [simp]: "ev_key e = None \<Longrightarrow> calls_of k (replicate n e) = []"
  by (simp add: calls_of_def)

definition calls_at :: "goroutine \<Rightarrow> event list" where
  "calls_at g =
     (case result (g_phase g) of
        Some e \<Rightarrow> [EvReturn (g_tw g) (g_step g) e, EvCall (g_tw g) (g_step g)]
      | None \<Rightarrow> if g_phase g = GRunning then [EvCall (g_tw g) (g_step g)] else [])"

abbreviation log_of :: "'w sys \<Rightarrow> step \<times> tref \<Rightarrow> event list" where
  "log_of s k \<equiv> calls_of k (s_trace s)"

section \<open>The invariant\<close>

definition g_linked :: "'w sys \<Rightarrow> goroutine \<Rightarrow> bool" where
  "g_linked s g \<longleftrightarrow>
     log_of s (g_key g) = calls_at g \<and>
     (g_step g \<in> marks s (g_tw g) \<longleftrightarrow> settled g) \<and>
     (\<forall>p. prev_step (g_step g) = Some p \<longrightarrow> p \<in> marks s (g_tw g))"

definition link_inv :: "'w sys \<Rightarrow> bool" where
  "link_inv s \<longleftrightarrow> (\<forall>g\<in>set (s_gos s). g_linked s g) \<and> (\<forall>k. k \<notin> set (keys s) \<longrightarrow> log_of s k = [])"

lemma link_inv_frame:
  assumes "link_inv s" and "s_gos s' = s_gos s" and "\<And>g. g \<in> set (s_gos s) \<Longrightarrow> marks s' (g_tw g) = marks s (g_tw g)"
    and "\<And>k. log_of s' k = log_of s k"
  shows "link_inv s'"
  using assms by (simp add: link_inv_def g_linked_def)

text \<open>Logs that do not change: the manager's callbacks and the skip notifications are no calls.\<close>

lemma log_runManagerCallbacks [simp]: "log_of (runManagerCallbacks x st cs s) k = log_of s k"
  by (simp add: runManagerCallbacks_def Let_def split_beta)

lemma log_notify_one [simp]: "log_of (notify_one c e r s) k = log_of s k"
  by (simp add: notify_one_def split: option.split)

lemma log_fold_notify [simp]: "log_of (fold (notify_one c e) rs s) k = log_of s k"
  by (induction rs arbitrary: s) simp_all

lemma log_notifyTasksSkipped [simp]: "log_of (notifyTasksSkipped c ss e s) k = log_of s k"
  by (simp add: notifyTasksSkipped_def Let_def split_beta)

lemma log_main [simp]:
  "log_of (early_return c e s) k = log_of s k"
  "log_of (start_returns ss e s) k = log_of s k"
  "log_of (start_loop ss s) k = log_of s k"
  "log_of (step_callback_once st x s) k = log_of s k"
  "log_of (spawn r st s) k = log_of s k"
  "log_of (stage_callbacks_after st x s) k = log_of s k"
  "log_of (task_callbacks g cs e s) k = log_of s k"
  by (simp_all add: early_return_def start_returns_def start_loop_def step_callback_once_def spawn_def
      stage_callbacks_after_def task_callbacks_def Let_def wg_add_def)

lemma trace_run_finish [simp]: "s_trace (run_finish s) = s_trace s"
  by (simp add: run_finish_def Let_def)

lemma log_actions [simp]:
  "log_of (run_enter c o1 s) k = log_of s k"
  "log_of (run_checks s) k = log_of s k"
  "log_of (run_beforeRun i co s) k = log_of s k"
  "log_of (run_pending p s) k = log_of s k"
  "log_of (loop_task st ss i s) k = log_of s k"
  "log_of (next_stage st ss s) k = log_of s k"
  "log_of (stage_end st ss s) k = log_of s k"
  "log_of (go_check j s) k = log_of s k"
  "log_of (go_after j e s) k = log_of s k"
  "log_of (set_mgr_ctxs ms s) k = log_of s k"
  "log_of (ssm_user_cancel j e s) k = log_of s k"
  by (simp_all add: run_enter_def run_checks_def run_beforeRun_def run_pending_def loop_task_def
      next_stage_def stage_end_def go_check_def go_after_def set_mgr_ctxs_def ssm_user_cancel_def
      Let_def split_beta split: option.split sum.split step.split)

text \<open>One goroutine moves: its own log and mark change, the others' do not.\<close>

lemma link_inv_moved:
  assumes inv: "link_inv s" and dist: "distinct (keys s)" and j: "j < length (s_gos s)"
    and mv: "moved j p s s'"
    and mk: "\<And>r. marks s' r = (if r = g_tw (s_gos s ! j) \<and> m then insert (g_step (s_gos s ! j)) (marks s r) else marks s r)"
    and log: "\<And>k. log_of s' k = (if k = g_key (s_gos s ! j) then calls_at (s_gos s' ! j) else log_of s k)"
    and set: "settled (s_gos s' ! j) \<longleftrightarrow> settled (s_gos s ! j) \<or> m"
  shows "link_inv s'"
  unfolding link_inv_def
proof
  let ?g = "s_gos s ! j"
  have key: "g_key (s_gos s' ! j) = g_key ?g" using moved_at [OF mv j] by simp
  then have tw: "g_tw (s_gos s' ! j) = g_tw ?g" and st: "g_step (s_gos s' ! j) = g_step ?g"
    by (simp_all add: g_key_def)
  have linked: "g_linked s g" if "g \<in> set (s_gos s)" for g using inv that by (simp add: link_inv_def)
  show "\<forall>g\<in>set (s_gos s'). g_linked s' g"
  proof
    fix g assume "g \<in> set (s_gos s')"
    then obtain i where i: "i < length (s_gos s')" "g = s_gos s' ! i" by (metis in_set_conv_nth)
    show "g_linked s' g"
    proof (cases "i = j")
      case True
      with linked [of ?g] j i mk set show ?thesis
        by (simp add: g_linked_def key tw st log)
    next
      case False
      with i moved_nth [OF mv] moved_length [OF mv] have g: "g = s_gos s ! i" "i < length (s_gos s)" by auto
      then have neq: "g_key g \<noteq> g_key ?g" using dist j False by (simp add: distinct_conv_nth)
      have "log_of s' (g_key g) = log_of s (g_key g)" using log neq by simp
      moreover have "g_step g \<in> marks s' (g_tw g) \<longleftrightarrow> g_step g \<in> marks s (g_tw g)"
        using mk neq by (auto simp: g_key_def)
      moreover have "marks s (g_tw g) \<subseteq> marks s' (g_tw g)" using mk by auto
      ultimately show ?thesis using linked [of g] g by (auto simp: g_linked_def)
    qed
  qed
  show "\<forall>k. k \<notin> set (keys s') \<longrightarrow> log_of s' k = []"
    using inv j by (auto simp: link_inv_def log moved_keys [OF mv])
qed

text \<open>The loop of \<open>runStageStep\<close> may mark the step of the task it is at, or add a goroutine for it.\<close>

lemma link_inv_loop_task:
  assumes inv: "link_inv s" and sch: "sched_inv s" and pc: "s_pc s = PRun st ss (RSpawn i)"
    and i: "i < length (stageTasks_get (s_tasks s) (hd ss))"
  shows "link_inv (loop_task st ss i s)"
proof -
  let ?r = "(hd ss, i)" and ?s' = "loop_task st ss i s"
  let ?chk = "checkStartStep (tw_at (s_tasks s) ?r) (s_world s) st"
  note ok = sched_invD [OF sch]
  have v: "valid s ?r" using i by (simp add: tw_valid_def)
  have known: "step_known st" using ok(2) pc by simp
  have no: "\<not> passed (s_stages s) (s_pc s) st ?r" using not_passed_here ok(2,13) pc by simp
  have new: "g_key g \<noteq> (st, ?r)" if "g \<in> set (s_gos s)" for g
    using ok(8) [OF that] no by (auto simp: g_key_def)
  then have new_key: "(st, ?r) \<notin> set (keys s)" by (metis (no_types, lifting) in_set_conv_nth length_map nth_map nth_mem)
  have unmarked: "st \<notin> marks s ?r" using ok(10) [OF v] no by blast
  have old: "g_linked ?s' g" if "g \<in> set (s_gos s)" for g
  proof -
    have l: "g_linked s g" using inv that by (simp add: link_inv_def)
    have "g_step g \<in> marks ?s' (g_tw g) \<longleftrightarrow> g_step g \<in> marks s (g_tw g)"
      using loop_task_marks(1) [OF v, of st "g_tw g"] loop_task_marks(2) [OF v, of "g_tw g" st] new [OF that] by (auto simp: g_key_def split: if_splits)
    with l loop_task_marks(2) [OF v, of "g_tw g" st] show ?thesis by (auto simp: g_linked_def)
  qed
  have fresh: "g_linked ?s' (new_goroutine ?r st)" if go: "snd ?chk = Inr True"
  proof -
    have tasks: "marks ?s' r = marks s r" for r
      using ledger.check_go_keeps [OF go] v by (auto simp: marks_def loop_task_tasks tw_at_update)
    have "log_of s (st, ?r) = []" using inv new_key by (simp add: link_inv_def)
    with ledger.check_prev [OF go] unmarked show ?thesis
      by (auto simp: g_linked_def new_goroutine_def g_key_def calls_at_def settled_def tasks)
        (auto simp: marks_def)
  qed
  show ?thesis unfolding link_inv_def
  proof
    show "\<forall>g\<in>set (s_gos ?s'). g_linked ?s' g" using old fresh by (auto simp: loop_task_gos)
    show "\<forall>k. k \<notin> set (keys ?s') \<longrightarrow> log_of ?s' k = []"
      using inv by (auto simp: link_inv_def loop_task_gos)
  qed
qed

lemma marks_set_mgr_ctxs:
  assumes "m_isRunning (s_mgr s)"
  shows "marks (set_mgr_ctxs (Shutdown (s_mgr s, c)) s) r = marks s r"
    and "marks (set_mgr_ctxs (AddTask x t opts w (s_mgr s, c)) s) r = marks s r"
    and "marks (set_mgr_ctxs (AddInitError e (s_mgr s, c)) s) r = marks s r"
  using assms by (simp_all add: marks_def set_mgr_ctxs_running)

text \<open>Moves by which neither the log nor the mark of the goroutine changes.\<close>

lemma link_inv_still:
  assumes inv: "link_inv s" and dist: "distinct (keys s)" and j: "j < length (s_gos s)"
    and mv: "moved j p s s'"
    and mk: "\<And>r. marks s' r = marks s r" and log: "\<And>k. log_of s' k = log_of s k"
    and res: "result p = result (g_phase (s_gos s ! j))"
    and run: "p \<noteq> GRunning" "g_phase (s_gos s ! j) \<noteq> GRunning"
    and set: "settled (s_gos s' ! j) \<longleftrightarrow> settled (s_gos s ! j)"
  shows "link_inv s'"
proof (rule link_inv_moved [OF inv dist j mv, where m = False])
  have "calls_at (s_gos s' ! j) = calls_at (s_gos s ! j)"
    using moved_at [OF mv j] res run by (auto simp: calls_at_def g_key_def split: option.split)
  then show "log_of s' k = (if k = g_key (s_gos s ! j) then calls_at (s_gos s' ! j) else log_of s k)" for k
    using inv j log by (auto simp: link_inv_def g_linked_def)
qed (use mk set in auto)

lemma moved_settled:
  assumes "moved j p s s'" and "j < length (s_gos s)"
  shows "settled (s_gos s' ! j) \<longleftrightarrow>
    (if g_step (s_gos s ! j) = StepSetup then result p = Some None \<and> p \<noteq> GReturned None
     else p = GMarked \<or> p = GRunning \<or> result p \<noteq> None)"
  using moved_at [OF assms] by (auto simp: settled_def g_key_def)

lemma log_go_call:
  "log_of (go_call j s) k =
     (if k = g_key (s_gos s ! j) then EvCall (g_tw (s_gos s ! j)) (g_step (s_gos s ! j)) # log_of s k
      else log_of s k)"
  by (auto simp: go_call_def Let_def g_key_def)

lemma link_inv_go:
  assumes inv: "link_inv s" and sch: "sched_inv s" and j: "j < length (s_gos s)"
  shows "g_phase (s_gos s ! j) = GNew \<Longrightarrow> link_inv (go_begin j s)"
    and "g_phase (s_gos s ! j) = GReady \<Longrightarrow> link_inv (go_check j s)"
    and "g_phase (s_gos s ! j) = GBefore \<Longrightarrow> link_inv (go_mark j s)"
    and "g_phase (s_gos s ! j) = GMarked \<Longrightarrow> link_inv (go_call j s)"
    and "g_phase (s_gos s ! j) = GRunning \<Longrightarrow> link_inv (go_return j e w s)"
    and "g_phase (s_gos s ! j) = GReturned e \<Longrightarrow> link_inv (go_after j e s)"
    and "g_phase (s_gos s ! j) = GAfter e \<Longrightarrow> link_inv (go_finish j e s)"
    and "g_phase (s_gos s ! j) = GFinished e \<Longrightarrow> link_inv (go_report j e s)"
    and "g_phase (s_gos s ! j) = GExit res \<Longrightarrow> link_inv (go_exit j res s)"
proof -
  let ?g = "s_gos s ! j"
  note dist = sched_invD(11) [OF sch]
  have v: "valid s (g_tw ?g)" using sched_invD(6) [OF sch] j by simp
  have log: "log_of s (g_key ?g) = calls_at ?g" using inv j by (simp add: link_inv_def g_linked_def)
  note set = moved_settled [OF _ j] and still = link_inv_still [OF inv dist j]
  show "g_phase ?g = GNew \<Longrightarrow> link_inv (go_begin j s)"
    by (rule still [OF go_moved(1)])
      (simp_all add: set [OF go_moved(1)] go_begin_marks(1) [OF v] settled_def [of ?g])
  show "g_phase ?g = GReady \<Longrightarrow> link_inv (go_check j s)"
    by (rule still [OF go_moved(2)])
      (simp_all add: set [OF go_moved(2)] marks_def settled_def [of ?g] split: if_splits)
  show "g_phase ?g = GBefore \<Longrightarrow> link_inv (go_mark j s)"
    by (rule link_inv_moved [OF inv dist j go_moved(3), where m = "g_step ?g \<noteq> StepSetup"])
      (use moved_at [OF go_moved(3) j] log in
        \<open>auto simp: set [OF go_moved(3)] go_mark_marks(1) [OF v] settled_def [of ?g] calls_at_def\<close>)
  show "g_phase ?g = GMarked \<Longrightarrow> link_inv (go_call j s)"
    by (rule link_inv_moved [OF inv dist j go_moved(4), where m = False])
      (use moved_at [OF go_moved(4) j] log in
        \<open>auto simp: set [OF go_moved(4)] marks_def settled_def [of ?g] calls_at_def log_go_call g_key_def\<close>)
  show "g_phase ?g = GRunning \<Longrightarrow> link_inv (go_return j e w s)"
  proof -
    assume ph: "g_phase ?g = GRunning"
    obtain e' where mv: "moved j (GReturned e') s (go_return j e w s)"
      and tr: "s_trace (go_return j e w s) = EvReturn (g_tw ?g) (g_step ?g) e' # s_trace s"
      using go_moved(5) [where j = j and s = s and err = e and w = w] by blast
    show ?thesis
      by (rule link_inv_moved [OF inv dist j mv, where m = False])
        (use moved_at [OF mv j] log ph in
          \<open>auto simp: set [OF mv] marks_def settled_def [of ?g] calls_at_def tr g_key_def\<close>)
  qed
  show "g_phase ?g = GReturned e \<Longrightarrow> link_inv (go_after j e s)"
    by (rule link_inv_moved [OF inv dist j go_moved(6), where m = "g_step ?g = StepSetup \<and> e = None"])
      (use moved_at [OF go_moved(6) j] log in
        \<open>auto simp: set [OF go_moved(6)] go_after_marks(1) [OF v] settled_def [of ?g] calls_at_def g_key_def\<close>)
  show "g_phase ?g = GAfter e \<Longrightarrow> link_inv (go_finish j e s)"
    by (rule still [OF go_moved(7)]) (simp_all add: set [OF go_moved(7)] marks_def settled_def [of ?g])
  show "g_phase ?g = GFinished e \<Longrightarrow> link_inv (go_report j e s)"
    by (rule still [OF go_moved(8)]) (simp_all add: set [OF go_moved(8)] marks_def settled_def [of ?g])
  show "g_phase ?g = GExit res \<Longrightarrow> link_inv (go_exit j res s)"
    by (rule still [OF go_moved(9)]) (simp_all add: set [OF go_moved(9)] marks_def settled_def [of ?g])
qed

lemma link_inv_step:
  assumes step: "sys_step s a s'" and inv: "link_inv s" and sch: "sched_inv s"
  shows "link_inv s'"
proof (cases "s_pc s = PIdle")
  case True
  then have "s_gos s = []" using sched_inv_gos_idle sch by blast
  moreover have "s_gos s' = s_gos s \<and> (\<forall>k. log_of s' k = log_of s k)"
    using step True \<open>s_gos s = []\<close> by (cases rule: sys_step.cases) (auto simp: run_enter_def)
  ultimately show ?thesis using inv by (simp add: link_inv_def)
next
  case False
  note frame = link_inv_frame [OF inv]
  have running: "m_isRunning (s_mgr s)" using sched_invD(4) [OF sch] False by blast
  from step show ?thesis
  proof (cases rule: sys_step.cases)
    case (st_loop st ss i b)
    then show ?thesis using link_inv_loop_task inv sch by blast
  qed (simp_all add: link_inv_go [OF inv sch] False,
      (rule frame; simp add: set_mgr_ctxs_running [OF running] marks_def)+)
qed

definition core_inv :: "'w sys \<Rightarrow> bool" where
  "core_inv s \<longleftrightarrow> sched_inv s \<and> link_inv s"

lemma initial_link_inv: "initial s \<Longrightarrow> link_inv s"
  by (simp add: initial_def link_inv_def)

interpretation link: invariant_machine sys_step initial core_inv
  using initial_sched_inv sched_inv_step initial_link_inv link_inv_step
  by unfold_locales (auto simp: core_inv_def)

lemma reachable_core_inv: "reachable s \<Longrightarrow> core_inv s"
  unfolding reachable_def using link.inv_run by blast

end
