(* ===== verification/RunBarrier.thy ===== *)
theory RunBarrier
  imports RunLedger
begin

text \<open>
  The waits of \<open>runStage\<close>: the wait groups count the unfinished goroutines, so a stage of setup or
  teardown is left only when all its goroutines are done, and one of start only when its goroutines
  have begun. From it comes the order between the steps of different stages.
\<close>

section \<open>Wait groups\<close>

definition waits_for :: "step \<Rightarrow> string \<Rightarrow> goroutine \<Rightarrow> bool" where
  "waits_for st x g \<longleftrightarrow> g_step g = st \<and> (st = StepStart \<or> fst (g_tw g) = x) \<and> \<not> done_phase (g_phase g)"

definition not_begun :: "goroutine \<Rightarrow> bool" where
  "not_begun g \<longleftrightarrow> g_step g = StepStart \<and> g_phase g = GNew"

definition count_inv :: "'w sys \<Rightarrow> bool" where
  "count_inv s \<longleftrightarrow>
     (\<forall>st x. wg_count s st x = length (filter (waits_for st x) (s_gos s))) \<and>
     s_startWg s = length (filter not_begun (s_gos s))"

lemma wg_count_cong:
  "s_wgs s' = s_wgs s \<Longrightarrow> m_tasksRunning (s_mgr s') = m_tasksRunning (s_mgr s) \<Longrightarrow>
   wg_count s' st x = wg_count s st x"
  by (simp add: wg_count_def)

lemma count_inv_frame:
  assumes "count_inv s" and "s_gos s' = s_gos s" and "s_wgs s' = s_wgs s"
    and "m_tasksRunning (s_mgr s') = m_tasksRunning (s_mgr s)" and "s_startWg s' = s_startWg s"
  shows "count_inv s'"
  using assms wg_count_cong [OF assms(3,4)] by (simp add: count_inv_def)

lemma wg_count_add:
  "wg_count (wg_add st x s) st' x' =
     wg_count s st' x' + (if st' = st \<and> (st = StepStart \<or> x' = x) then 1 else 0)"
  by (simp add: wg_count_def wg_add_def)

lemma wg_count_done:
  "wg_count (wg_done st x s) st' x' =
     wg_count s st' x' - (if st' = st \<and> (st = StepStart \<or> x' = x) then 1 else 0)"
  by (simp add: wg_count_def wg_done_def)

lemma spawn_counts:
  "wg_count (spawn r st s) st' x = wg_count s st' x + (if waits_for st' x (new_goroutine r st) then 1 else 0)"
  "s_startWg (spawn r st s) = s_startWg s + (if not_begun (new_goroutine r st) then 1 else 0)"
  by (auto simp: spawn_def Let_def wg_count_def wg_add_def waits_for_def not_begun_def new_goroutine_def)

lemma count_inv_spawn: "count_inv s \<Longrightarrow> count_inv (spawn r st s)"
  by (auto simp: count_inv_def spawn_counts)

lemma count_inv_loop_task:
  assumes "count_inv s"
  shows "count_inv (loop_task st ss i s)"
proof -
  let ?r = "(hd ss, i)"
  obtain tw' res where chk: "checkStartStep (tw_at (s_tasks s) ?r) (s_world s) st = (tw', res)"
    by (meson surj_pair)
  let ?s1 = "set_tw ?r tw' s"
  have s1: "count_inv ?s1" by (rule count_inv_frame [OF assms]) simp_all
  then have sp: "count_inv (spawn ?r st ?s1)" by (rule count_inv_spawn)
  show ?thesis
  proof (cases "res = Inr True")
    case True
    then show ?thesis by (intro count_inv_frame [OF sp]) (simp_all add: loop_task_def chk Let_def)
  next
    case False
    then show ?thesis
      by (intro count_inv_frame [OF s1]) (auto simp: loop_task_def chk Let_def split: sum.split)
  qed
qed

lemma set_mgr_ctxs_config [simp]:
  "m_tasksRunning (s_mgr (set_mgr_ctxs (Shutdown (s_mgr s, c)) s)) = m_tasksRunning (s_mgr s)"
  "m_tasksRunning (s_mgr (set_mgr_ctxs (AddTask x t opts w (s_mgr s, c)) s)) = m_tasksRunning (s_mgr s)"
  "m_tasksRunning (s_mgr (set_mgr_ctxs (AddInitError e (s_mgr s, c)) s)) = m_tasksRunning (s_mgr s)"
  "m_enforceShutdownTimeout (s_mgr (set_mgr_ctxs (Shutdown (s_mgr s, c)) s)) = m_enforceShutdownTimeout (s_mgr s)"
  "m_enforceShutdownTimeout (s_mgr (set_mgr_ctxs (AddTask x t opts w (s_mgr s, c)) s)) = m_enforceShutdownTimeout (s_mgr s)"
  "m_enforceShutdownTimeout (s_mgr (set_mgr_ctxs (AddInitError e (s_mgr s, c)) s)) = m_enforceShutdownTimeout (s_mgr s)"
  by (auto simp: set_mgr_ctxs_def Shutdown_def AddTask_def AddInitError_def addInitError_def
      requestStartupCancel_def split: option.split)

lemma set_mgr_ctxs_frame [simp]:
  "s_wgs (set_mgr_ctxs ms s) = s_wgs s" "s_startWg (set_mgr_ctxs ms s) = s_startWg s"
  "s_setupErr (set_mgr_ctxs ms s) = s_setupErr s" "s_trace (set_mgr_ctxs ms s) = s_trace s"
  "s_wgs (ssm_user_cancel j e s) = s_wgs s" "s_startWg (ssm_user_cancel j e s) = s_startWg s"
  "s_setupErr (ssm_user_cancel j e s) = s_setupErr s" "s_trace (ssm_user_cancel j e s) = s_trace s"
  by (simp_all add: set_mgr_ctxs_def ssm_user_cancel_def Let_def)

lemma run_enter_frame [simp]:
  "s_gos (run_enter c o1 s) = s_gos s" "s_wgs (run_enter c o1 s) = s_wgs s"
  "s_startWg (run_enter c o1 s) = s_startWg s" "s_setupErr (run_enter c o1 s) = s_setupErr s"
  "m_tasksRunning (s_mgr (run_enter c o1 s)) = m_tasksRunning (s_mgr s)"
  "s_tasks (run_enter c o1 s) = s_tasks s" "s_trace (run_enter c o1 s) = s_trace s"
  "m_enforceShutdownTimeout (s_mgr (run_enter c o1 s)) = m_enforceShutdownTimeout (s_mgr s)"
  by (simp_all add: run_enter_def)

text \<open>A goroutine moves: the counters change with its own phase.\<close>

lemma moved_filter:
  assumes "moved j p s s'" and "j < length (s_gos s)"
  shows "length (filter P (s_gos s')) + (if P (s_gos s ! j) then 1 else 0) =
    length (filter P (s_gos s)) + (if P (s_gos s' ! j) then 1 else 0)"
proof -
  obtain g' where g': "s_gos s' = (s_gos s)[j := g']" using assms(1) by (auto simp: moved_def)
  then have "s_gos s' ! j = g'" using assms(2) by simp
  with length_filter_update [OF assms(2), of P g'] g' show ?thesis by simp
qed

lemma moved_waits:
  assumes "moved j p s s'" and "j < length (s_gos s)"
  shows "waits_for st x (s_gos s' ! j) \<longleftrightarrow> g_step (s_gos s ! j) = st \<and>
      (st = StepStart \<or> fst (g_tw (s_gos s ! j)) = x) \<and> \<not> done_phase p"
    and "not_begun (s_gos s' ! j) \<longleftrightarrow> g_step (s_gos s ! j) = StepStart \<and> p = GNew"
  using moved_at [OF assms] by (auto simp: waits_for_def not_begun_def g_key_def)

lemma count_inv_moved:
  assumes inv: "count_inv s" and j: "j < length (s_gos s)" and mv: "moved j p s s'"
    and wg: "\<And>st x. wg_count s' st x = wg_count s st x -
       (if g_step (s_gos s ! j) = st \<and> (st = StepStart \<or> fst (g_tw (s_gos s ! j)) = x) \<and> done_phase p then 1 else 0)"
    and swg: "s_startWg s' = s_startWg s - (if not_begun (s_gos s ! j) then 1 else 0)"
    and live: "\<not> done_phase (g_phase (s_gos s ! j))" and p: "p \<noteq> GNew"
  shows "count_inv s'"
  unfolding count_inv_def
proof (intro conjI allI)
  fix st x
  show "wg_count s' st x = length (filter (waits_for st x) (s_gos s'))"
    using moved_filter [OF mv j, of "waits_for st x"] moved_waits(1) [OF mv j, of st x] inv live
    by (auto simp: count_inv_def wg waits_for_def split: if_splits)
  show "s_startWg s' = length (filter not_begun (s_gos s'))"
    using moved_filter [OF mv j, of not_begun] moved_waits(2) [OF mv j] inv p
    by (auto simp: count_inv_def swg split: if_splits)
qed

lemma begin_startWg:
  "s_startWg (go_begin j s) = s_startWg s - (if g_step (s_gos s ! j) = StepStart then 1 else 0)"
  "m_tasksRunning (s_mgr (go_begin j s)) = m_tasksRunning (s_mgr s)"
  by (simp_all add: go_begin_def begin_start_step_def begin_stop_step_def Let_def split_beta split: step.split)

lemma exit_wg:
  "wg_count (go_exit j res s) st x = wg_count s st x -
     (if st = g_step (s_gos s ! j) \<and> (st = StepStart \<or> x = fst (g_tw (s_gos s ! j))) then 1 else 0)"
proof -
  let ?g = "s_gos s ! j"
  let ?s2 = "cancel_opt (g_startCancel ?g) (Some (Sentinel ContextCanceled))
    (cancel_opt (g_cancelOnStop ?g) (Some (Sentinel StartStepManagerNilError)) s)"
  have "wg_count (go_exit j res s) st x = wg_count (wg_done (g_step ?g) (fst (g_tw ?g)) ?s2) st x"
    by (rule wg_count_cong) (simp_all add: go_exit_def Let_def)
  also have "wg_count ?s2 st x = wg_count s st x" by (rule wg_count_cong) simp_all
  ultimately show ?thesis by (auto simp: wg_count_done)
qed

lemma count_inv_step:
  assumes step: "sys_step s a s'" and inv: "count_inv s"
  shows "count_inv s'"
proof -
  note frame = count_inv_frame [OF inv] and mv = count_inv_moved [OF inv]
  from step show ?thesis
  proof (cases rule: sys_step.cases)
    case (st_begin j)
    then show ?thesis unfolding st_begin(2) by (intro mv [OF _ go_moved(1)]) (auto simp: begin_startWg not_begun_def wg_count_def)
  next
    case (st_check j)
    then show ?thesis unfolding st_check(2) by (intro mv [OF _ go_moved(2)]) (auto simp: not_begun_def wg_count_def)
  next
    case (st_mark j)
    then show ?thesis unfolding st_mark(2) by (intro mv [OF _ go_moved(3)]) (auto simp: not_begun_def wg_count_def)
  next
    case (st_call j)
    then show ?thesis unfolding st_call(2) by (intro mv [OF _ go_moved(4)]) (auto simp: not_begun_def wg_count_def)
  next
    case (st_return j err w)
    obtain e' where "moved j (GReturned e') s (go_return j err w s)"
      using go_moved(5) [where j = j and s = s and err = err and w = w] by blast
    with st_return show ?thesis unfolding st_return(2) by (intro mv) (auto simp: not_begun_def wg_count_def)
  next
    case (st_after j err)
    then show ?thesis unfolding st_after(2) by (intro mv [OF _ go_moved(6)]) (auto simp: not_begun_def wg_count_def)
  next
    case (st_finish j err)
    then show ?thesis unfolding st_finish(2) by (intro mv [OF _ go_moved(7)]) (auto simp: not_begun_def wg_count_def)
  next
    case (st_report j err)
    then show ?thesis unfolding st_report(2) by (intro mv [OF _ go_moved(8)]) (auto simp: not_begun_def wg_count_def)
  next
    case (st_exit j res)
    then show ?thesis unfolding st_exit(2) by (intro mv [OF _ go_moved(9)]) (auto simp: not_begun_def exit_wg)
  next
    case (st_loop st ss i b)
    then show ?thesis using count_inv_loop_task inv by blast
  qed (simp_all, (rule frame; simp)+)
qed

section \<open>Leaving a stage\<close>

text \<open>The program counter is in the loop of the stage or in one of its waits.\<close>

fun in_stage :: "pc \<Rightarrow> step \<Rightarrow> string \<Rightarrow> bool" where
  "in_stage (PRun st' ss at) st x = (st' = st \<and> hd ss = x \<and> at \<noteq> RAfter)"
| "in_stage _ st x = False"

lemma flow_leaves:
  "flow all pc pc' \<Longrightarrow> pc_ok all pc \<Longrightarrow> in_stage pc st x \<Longrightarrow> \<not> in_stage pc' st x \<Longrightarrow>
   \<exists>ss. pc' = PRun st ss RAfter \<and> hd ss = x \<and>
     (pc = PRun st ss RWait \<and> st \<noteq> StepStart \<or> pc = PRun st ss RWaitStart \<and> st = StepStart)"
  by (induction rule: flow.induct) auto

lemma step_leaves:
  assumes "sys_step s a s'" and "sched_inv s" and "in_stage (s_pc s) st x" and "\<not> in_stage (s_pc s') st x"
  shows "s_gos s' = s_gos s \<and>
    (st = StepStart \<and> s_startWg s = 0 \<or>
     st \<noteq> StepStart \<and> (wg_count s st x = 0 \<or> st = StepStop \<and> m_enforceShutdownTimeout (s_mgr s)))"
  using assms(1)
proof (cases rule: sys_step.cases)
  case (st_stage_end st' ss b)
  with assms(3) show ?thesis by simp
qed (use assms sched_invD(2) [OF assms(2)] in \<open>auto simp: wait_gives_up_def split: if_splits\<close>)

lemma in_stage_run: "in_stage pc st x \<Longrightarrow> \<exists>ss at. pc = PRun st ss at \<and> hd ss = x \<and> at \<noteq> RAfter"
  by (cases pc) auto

text \<open>The steps whose goroutines are waited for to the end.\<close>

definition waited :: "bool \<Rightarrow> step \<Rightarrow> bool" where
  "waited enforce st \<longleftrightarrow> st = StepSetup \<or> st = StepTeardown \<or> st = StepStop \<and> \<not> enforce"

fun after_tasks :: "pc \<Rightarrow> bool" where
  "after_tasks (PRun st _ _) = (st = StepTeardown)"
| "after_tasks (PReturned _ _) = True"
| "after_tasks _ = False"

definition barrier_inv :: "'w sys \<Rightarrow> bool" where
  "barrier_inv s \<longleftrightarrow> (\<forall>g\<in>set (s_gos s).
     (waited (m_enforceShutdownTimeout (s_mgr s)) (g_step g) \<longrightarrow> \<not> done_phase (g_phase g) \<longrightarrow>
        in_stage (s_pc s) (g_step g) (fst (g_tw g))) \<and>
     (not_begun g \<longrightarrow> in_stage (s_pc s) StepStart (fst (g_tw g))) \<and>
     (\<not> m_enforceShutdownTimeout (s_mgr s) \<longrightarrow> g_step g = StepStart \<longrightarrow> after_tasks (s_pc s) \<longrightarrow>
        done_phase (g_phase g)))"

text \<open>How many steps a goroutine has left, at most.\<close>

fun phase_rank :: "gphase \<Rightarrow> nat" where
  "phase_rank GNew = 9"
| "phase_rank GReady = 8"
| "phase_rank GBefore = 7"
| "phase_rank GMarked = 6"
| "phase_rank GRunning = 5"
| "phase_rank (GReturned _) = 4"
| "phase_rank (GAfter _) = 3"
| "phase_rank (GFinished _) = 2"
| "phase_rank (GExit _) = 1"
| "phase_rank (GDone _) = 0"

lemma step_shape:
  assumes "sys_step s a s'"
  obtains (same) "s_gos s' = s_gos s" "\<And>j. a \<noteq> AGo j" "\<And>j e w. a \<noteq> AReturn j e w"
  | (loop) st ss i where "s_pc s = PRun st ss (RSpawn i)" "s' = loop_task st ss i s"
      "i < length (stageTasks_get (s_tasks s) (hd ss))"
  | (move) j p where "j < length (s_gos s)" "moved j p s s'" "s_pc s' = s_pc s"
      "\<not> done_phase (g_phase (s_gos s ! j))" "p \<noteq> GNew" "phase_rank p < phase_rank (g_phase (s_gos s ! j))"
  using assms
proof (cases rule: sys_step.cases)
  case (st_begin j)
  then show ?thesis by (intro move [OF _ go_moved(1) [of j s, folded st_begin(2)]]) auto
next
  case (st_check j)
  then show ?thesis by (intro move [OF _ go_moved(2) [of j s, folded st_check(2)]]) auto
next
  case (st_mark j)
  then show ?thesis by (intro move [OF _ go_moved(3) [of j s, folded st_mark(2)]]) auto
next
  case (st_call j)
  then show ?thesis by (intro move [OF _ go_moved(4) [of j s, folded st_call(2)]]) auto
next
  case (st_return j err w)
  obtain e' where "moved j (GReturned e') s (go_return j err w s)"
    using go_moved(5) [where j = j and s = s and err = err and w = w] by blast
  with st_return show ?thesis by (intro move [of j "GReturned e'"]) auto
next
  case (st_after j err)
  then show ?thesis by (intro move [OF _ go_moved(6) [of j err s, folded st_after(2)]]) auto
next
  case (st_finish j err)
  then show ?thesis by (intro move [OF _ go_moved(7) [of j err s, folded st_finish(2)]]) auto
next
  case (st_report j err)
  then show ?thesis by (intro move [OF _ go_moved(8) [of j err s, folded st_report(2)]]) auto
next
  case (st_exit j res)
  then show ?thesis by (intro move [OF _ go_moved(9) [of j res s, folded st_exit(2)]]) auto
next
  case (st_loop st ss i b)
  then show ?thesis using loop by blast
qed (auto intro!: same)

lemma step_enforce:
  "sys_step s a s' \<Longrightarrow> m_enforceShutdownTimeout (s_mgr s') = m_enforceShutdownTimeout (s_mgr s)"
  by (induction rule: sys_step.induct) simp_all

lemma step_after_tasks:
  assumes "sys_step s a s'" and "sched_inv s" and "s_gos s \<noteq> []"
    and "after_tasks (s_pc s')" and "\<not> after_tasks (s_pc s)"
  shows "m_tasksRunning (s_mgr s) = 0 \<or> m_enforceShutdownTimeout (s_mgr s)"
proof -
  obtain g where g: "g \<in> set (s_gos s)" using assms(3) by (cases "s_gos s") auto
  have ps: "passed (s_stages s) (s_pc s) (g_step g) (g_tw g)" using sched_invD(8) [OF assms(2) g] .
  have no: "s_pc s \<noteq> PIdle" "s_pc s \<noteq> PEntered" "s_pc s \<noteq> PBeforeRun i co" for i co
    using ps by (auto simp: passed_def)
  from assms(1) show ?thesis
  proof (cases rule: sys_step.cases)
    case (st_stage_end st ss b)
    then have "flow (s_stages s) (PRun st ss RAfter) (s_pc s')"
      using sched_flow [OF assms(2,1)] assms(4,5) by auto
    with st_stage_end assms(4,5) show ?thesis by (auto elim: flow.cases)
  next
    case (st_pending p b)
    with assms(4) show ?thesis by (simp add: run_pending_def start_loop_pc split: if_splits option.splits)
  qed (use assms(4,5) no in \<open>auto simp: tasks_wait_gives_up_def\<close>)
qed

lemma barrier_inv_step:
  assumes step: "sys_step s a s'" and inv: "barrier_inv s" and sch: "sched_inv s" and cnt: "count_inv s"
  shows "barrier_inv s'"
  using step
proof (cases rule: step_shape)
  case same
  let ?e = "m_enforceShutdownTimeout (s_mgr s)"
  have "(waited ?e (g_step g) \<longrightarrow> \<not> done_phase (g_phase g) \<longrightarrow> in_stage (s_pc s') (g_step g) (fst (g_tw g))) \<and>
      (not_begun g \<longrightarrow> in_stage (s_pc s') StepStart (fst (g_tw g))) \<and>
      (\<not> ?e \<longrightarrow> g_step g = StepStart \<longrightarrow> after_tasks (s_pc s') \<longrightarrow> done_phase (g_phase g))"
    if g: "g \<in> set (s_gos s)" for g
  proof (intro conjI impI)
    note gi = bspec [OF inv [unfolded barrier_inv_def] g]
    have ne: "s_gos s \<noteq> []" using g by auto
    have busy: "wg_count s (g_step g) (fst (g_tw g)) \<noteq> 0" if "\<not> done_phase (g_phase g)"
      using cnt g that by (auto simp: count_inv_def waits_for_def filter_empty_conv)
    show "in_stage (s_pc s') (g_step g) (fst (g_tw g))" if "waited ?e (g_step g)" "\<not> done_phase (g_phase g)"
      using step_leaves [OF step sch, of "g_step g" "fst (g_tw g)"] gi busy that
      by (cases "in_stage (s_pc s') (g_step g) (fst (g_tw g))") (auto simp: waited_def)
    show "in_stage (s_pc s') StepStart (fst (g_tw g))" if "not_begun g"
      using step_leaves [OF step sch, of StepStart "fst (g_tw g)"] gi cnt g that
      by (cases "in_stage (s_pc s') StepStart (fst (g_tw g))") (auto simp: count_inv_def filter_empty_conv)
    show "done_phase (g_phase g)" if "\<not> ?e" "g_step g = StepStart" "after_tasks (s_pc s')"
      using step_after_tasks [OF step sch ne] gi busy that
      by (cases "done_phase (g_phase g)") (auto simp: wg_count_def)
  qed
  with same step_enforce [OF step] show ?thesis by (simp add: barrier_inv_def)
next
  case (loop st ss i)
  then have "in_stage (s_pc s') st' x = in_stage (s_pc s) st' x" "after_tasks (s_pc s') = after_tasks (s_pc s)" for st' x
    by auto
  with loop inv show ?thesis
    by (auto simp: barrier_inv_def loop_task_gos new_goroutine_def not_begun_def)
next
  case (move j p)
  have gj: "s_gos s ! j \<in> set (s_gos s)" using move(1) by simp
  obtain g' where g': "s_gos s' = (s_gos s)[j := g']" "g_key g' = g_key (s_gos s ! j)" "g_phase g' = p"
    using move(2) by (auto simp: moved_def)
  show ?thesis unfolding barrier_inv_def
  proof
    fix g assume "g \<in> set (s_gos s')"
    then consider "g = g'" | "g \<in> set (s_gos s)" using g'(1) list_update_mem_cases by metis
    then show "(waited (m_enforceShutdownTimeout (s_mgr s')) (g_step g) \<longrightarrow> \<not> done_phase (g_phase g) \<longrightarrow>
        in_stage (s_pc s') (g_step g) (fst (g_tw g))) \<and>
     (not_begun g \<longrightarrow> in_stage (s_pc s') StepStart (fst (g_tw g))) \<and>
     (\<not> m_enforceShutdownTimeout (s_mgr s') \<longrightarrow> g_step g = StepStart \<longrightarrow> after_tasks (s_pc s') \<longrightarrow>
        done_phase (g_phase g))"
      using bspec [OF inv [unfolded barrier_inv_def] gj] bspec [OF inv [unfolded barrier_inv_def], of g]
        g' move(3-5) step_enforce [OF step]
      by cases (auto simp: g_key_def not_begun_def)
  qed
qed

section \<open>Failed setups\<close>

text \<open>A setup goroutine that has reported an error.\<close>

definition failed :: "goroutine \<Rightarrow> bool" where
  "failed g \<longleftrightarrow> g_step g = StepSetup \<and>
     (case g_phase g of GExit (Some (Some _)) \<Rightarrow> True | GDone (Some (Some _)) \<Rightarrow> True | _ \<Rightarrow> False)"

text \<open>While setup and start steps are run, only the stage at hand can have a failed setup.\<close>

fun may_fail :: "pc \<Rightarrow> go_error list \<Rightarrow> string \<Rightarrow> bool" where
  "may_fail (PRun StepSetup ss _) eb x = (hd ss = x \<and> mb_hasErrors eb)"
| "may_fail (PRun StepStart _ _) eb x = False"
| "may_fail _ eb x = True"

definition setup_inv :: "'w sys \<Rightarrow> bool" where
  "setup_inv s \<longleftrightarrow> (\<forall>g\<in>set (s_gos s). failed g \<longrightarrow> may_fail (s_pc s) (s_setupErr s) (fst (g_tw g)))"

lemma mb_hasErrors_initialization [simp]:
  "mb_hasErrors (mb_add (Some (newInitializationError e)) eb)"
  by (simp add: newInitializationError_def mb_hasErrors_def)

lemma on_error_setup:
  "mb_hasErrors (s_setupErr (on_error st e s)) \<longleftrightarrow> (st = StepSetup \<and> e \<noteq> None) \<or> mb_hasErrors (s_setupErr s)"
  by (auto simp: on_error_def Let_def split: step.split option.split)

lemma may_fail_mono:
  "may_fail pc eb x \<Longrightarrow> (mb_hasErrors eb \<Longrightarrow> mb_hasErrors eb') \<Longrightarrow> may_fail pc eb' x"
  by (induction pc eb x rule: may_fail.induct) auto

lemma loop_task_setupErr: "mb_hasErrors (s_setupErr s) \<Longrightarrow> mb_hasErrors (s_setupErr (loop_task st ss i s))"
  by (auto simp: loop_task_def Let_def split_beta on_error_setup split: sum.split)

lemma may_fail_loop: "may_fail (PRun st ss at) eb x = may_fail (PRun st ss at') eb x"
  by (cases st) auto

lemma may_fail_at [simp]:
  "may_fail (PRun st ss (RSpawn i)) eb x = may_fail (PRun st ss RAfter) eb x"
  "may_fail (PRun st ss RWait) eb x = may_fail (PRun st ss RAfter) eb x"
  "may_fail (PRun st ss RWaitStart) eb x = may_fail (PRun st ss RAfter) eb x"
  using may_fail_loop by blast+

lemma may_fail_early [simp]:
  "s_pc s = PIdle \<Longrightarrow> may_fail (s_pc (run_enter c o1 s)) eb x"
  "may_fail (s_pc (run_checks s)) eb x"
  "may_fail (s_pc (run_beforeRun i co s)) eb x"
  by (simp_all add: run_enter_def run_checks_def run_beforeRun_def Let_def split_beta split: option.split)

lemma moved_failed:
  assumes "moved j p s s'" and "j < length (s_gos s)"
  shows "failed (s_gos s' ! j) \<longleftrightarrow> g_step (s_gos s ! j) = StepSetup \<and>
    (case p of GExit (Some (Some _)) \<Rightarrow> True | GDone (Some (Some _)) \<Rightarrow> True | _ \<Rightarrow> False)"
  using moved_at [OF assms] by (simp add: failed_def g_key_def)

lemma setup_inv_moved:
  assumes inv: "setup_inv s" and j: "j < length (s_gos s)" and mv: "moved j p s s'" and pc: "s_pc s' = s_pc s"
    and eb: "mb_hasErrors (s_setupErr s) \<Longrightarrow> mb_hasErrors (s_setupErr s')"
    and new: "failed (s_gos s' ! j) \<Longrightarrow> failed (s_gos s ! j) \<or>
      may_fail (s_pc s) (s_setupErr s') (fst (g_tw (s_gos s ! j)))"
  shows "setup_inv s'"
  unfolding setup_inv_def
proof (intro ballI impI)
  fix g assume "g \<in> set (s_gos s')" "failed g"
  then obtain i where i: "i < length (s_gos s)" "g = s_gos s' ! i"
    using moved_length [OF mv] by (metis in_set_conv_nth)
  have old: "may_fail (s_pc s) (s_setupErr s') (fst (g_tw h))" if "h \<in> set (s_gos s)" "failed h" for h
    using inv that eb may_fail_mono unfolding setup_inv_def by blast
  show "may_fail (s_pc s') (s_setupErr s') (fst (g_tw g))"
  proof (cases "i = j")
    case True
    have "g_tw g = g_tw (s_gos s ! j)" using moved_at [OF mv j] i True by (simp add: g_key_def)
    with True \<open>failed g\<close> i j old [of "s_gos s ! j"] new pc show ?thesis by auto
  next
    case False
    with moved_nth [OF mv i(1)] i \<open>failed g\<close> old [of g] pc show ?thesis by simp
  qed
qed

lemma setup_inv_same:
  assumes "setup_inv s" and "s_gos s' = s_gos s"
    and "\<And>g. g \<in> set (s_gos s) \<Longrightarrow> may_fail (s_pc s) (s_setupErr s) (fst (g_tw g)) \<Longrightarrow>
      may_fail (s_pc s') (s_setupErr s') (fst (g_tw g))"
  shows "setup_inv s'"
  using assms unfolding setup_inv_def by auto

lemma go_report_setupErr: "s_setupErr (go_report j e s) = s_setupErr (on_error (g_step (s_gos s ! j)) e s)"
  by (simp add: go_report_def)

lemma setup_inv_step:
  assumes step: "sys_step s a s'" and inv: "setup_inv s" and sch: "sched_inv s" and bar: "barrier_inv s"
  shows "setup_inv s'"
proof -
  note mv = setup_inv_moved [OF inv] and same = setup_inv_same [OF inv]
  from step show ?thesis
  proof (cases rule: sys_step.cases)
    case (st_begin j)
    then show ?thesis unfolding st_begin(2) by (intro mv [OF _ go_moved(1)]) (auto simp: moved_failed [OF go_moved(1)])
  next
    case (st_check j)
    then show ?thesis unfolding st_check(2)
      by (intro mv [OF _ go_moved(2)]) (auto simp: moved_failed [OF go_moved(2)] split: if_splits)
  next
    case (st_mark j)
    then show ?thesis unfolding st_mark(2) by (intro mv [OF _ go_moved(3)]) (auto simp: moved_failed [OF go_moved(3)])
  next
    case (st_call j)
    then show ?thesis unfolding st_call(2) by (intro mv [OF _ go_moved(4)]) (auto simp: moved_failed [OF go_moved(4)])
  next
    case (st_return j err w)
    obtain e' where m: "moved j (GReturned e') s (go_return j err w s)"
      using go_moved(5) [where j = j and s = s and err = err and w = w] by blast
    with st_return show ?thesis unfolding st_return(2) by (intro mv) (auto simp: moved_failed [OF m])
  next
    case (st_after j err)
    then show ?thesis unfolding st_after(2) by (intro mv [OF _ go_moved(6)]) (auto simp: moved_failed [OF go_moved(6)])
  next
    case (st_finish j err)
    then show ?thesis unfolding st_finish(2) by (intro mv [OF _ go_moved(7)]) (auto simp: moved_failed [OF go_moved(7)])
  next
    case (st_report j err)
    let ?g = "s_gos s ! j"
    have "in_stage (s_pc s) StepSetup (fst (g_tw ?g))" if "g_step ?g = StepSetup"
      using bar st_report that by (auto simp: barrier_inv_def waited_def dest: bspec [OF _ nth_mem])
    then have "may_fail (s_pc s) (s_setupErr (go_report j err s)) (fst (g_tw ?g))"
      if "failed (s_gos (go_report j err s) ! j)"
      using that st_report(3) in_stage_run [of "s_pc s" StepSetup "fst (g_tw ?g)"]
      by (auto simp: moved_failed [OF go_moved(8)] go_report_setupErr on_error_setup split: option.splits)
    then show ?thesis unfolding st_report(2)
      using st_report(3) by (intro mv [OF _ go_moved(8)]) (auto simp: go_report_setupErr on_error_setup)
  next
    case (st_exit j res)
    then show ?thesis unfolding st_exit(2)
      by (intro mv [OF _ go_moved(9)])
        (auto simp: moved_failed [OF go_moved(9)] failed_def [of "s_gos s ! j"] split: option.splits)
  next
    case (st_loop st ss i b)
    have "failed g \<longrightarrow> g \<in> set (s_gos s)" if "g \<in> set (s_gos s')" for g
      using that st_loop by (auto simp: loop_task_gos new_goroutine_def failed_def split: if_splits)
    with inv st_loop loop_task_setupErr [of s st ss i] show ?thesis
      unfolding setup_inv_def by (metis main_pcs(3) may_fail_loop may_fail_mono)
  next
    case (st_pending p b)
    then have "s_gos s = []"
      using sch by (auto simp: sched_inv_def passed_def neq_Nil_conv)
    then show ?thesis using st_pending by (simp add: setup_inv_def)
  next
    case (st_stage_end st ss b)
    have known: "step_known st" using sched_invD(2) [OF sch] st_stage_end by simp
    show ?thesis unfolding st_stage_end(2)
      using st_stage_end known by (intro same)
        (cases st; auto simp: stage_end_def next_stage_def start_loop_pc run_finish_def Let_def)+
  qed (simp_all, (rule same; auto)+)
qed

section \<open>The waits of a run\<close>

definition wait_inv :: "'w sys \<Rightarrow> bool" where
  "wait_inv s \<longleftrightarrow> core_inv s \<and> count_inv s \<and> barrier_inv s \<and> setup_inv s"

lemma wait_invD:
  assumes "wait_inv s"
  shows "sched_inv s" "link_inv s" "count_inv s" "barrier_inv s" "setup_inv s"
  using assms by (simp_all add: wait_inv_def core_inv_def)

lemma initial_wait_inv: "initial s \<Longrightarrow> wait_inv s"
  using initial_sched_inv initial_link_inv
  by (auto simp: wait_inv_def core_inv_def count_inv_def barrier_inv_def setup_inv_def wg_count_def
      initial_def idle_manager_def)

lemma wait_inv_step: "wait_inv s \<Longrightarrow> sys_step s a s' \<Longrightarrow> wait_inv s'"
  using sched_inv_step link_inv_step count_inv_step barrier_inv_step setup_inv_step
  unfolding wait_inv_def core_inv_def by blast

interpretation waits: invariant_machine sys_step initial wait_inv
  using initial_wait_inv wait_inv_step by unfold_locales

lemma reachable_wait_inv: "reachable s \<Longrightarrow> wait_inv s"
  unfolding reachable_def using waits.inv_run by blast

end
