(* ===== verification/RunOrder.thy ===== *)
theory RunOrder
  imports RunBarrier
begin

text \<open>
  The order between the goroutines of different stages and steps, as an invariant on every pair of
  goroutines of a reachable state: which ones are done (and did not fail) before others exist.
\<close>

section \<open>Stage order\<close>

definition earlier :: "string list \<Rightarrow> string \<Rightarrow> string \<Rightarrow> bool" where
  "earlier all x y \<longleftrightarrow> x \<in> set (takeWhile (\<lambda>z. z \<noteq> y) all)"

lemma earlier_split:
  assumes "distinct (pre @ y # post)"
  shows "earlier (pre @ y # post) x y \<longleftrightarrow> x \<in> set pre"
proof -
  have "y \<notin> set pre" using assms by auto
  then have "takeWhile (\<lambda>z. z \<noteq> y) (pre @ y # post) = pre" by (induction pre) auto
  then show ?thesis by (simp add: earlier_def)
qed

lemma not_earlier_self: "\<not> earlier all x x"
  by (auto simp: earlier_def dest: set_takeWhileD)

lemma earlier_mem: "earlier all x y \<Longrightarrow> x \<in> set all"
  by (auto simp: earlier_def dest: set_takeWhileD)

text \<open>What is left of the stages, in either direction, is not before what is done.\<close>

lemma rest_not_earlier:
  assumes "pre @ ss = all" and "distinct all" and "ss \<noteq> []" and "x \<in> set all" and "x \<notin> set (tl ss)"
  shows "\<not> earlier all (hd ss) x"
proof
  assume e: "earlier all (hd ss) x"
  obtain y rest where ss: "ss = y # rest" using assms(3) by (cases ss) auto
  consider "x = y" | "x \<in> set pre" using assms ss by auto
  then show False
  proof cases
    case 1
    with e ss not_earlier_self [of all x] show False by simp
  next
    case 2
    then obtain a b where "pre = a @ x # b" by (auto dest: split_list)
    then have "all = a @ x # (b @ ss)" using assms(1) by auto
    then have "y \<in> set a" using e earlier_split [of a x "b @ ss" y] assms(2) ss by simp
    then show False using \<open>all = a @ x # (b @ ss)\<close> assms(2) ss by auto
  qed
qed

lemma done_earlier:
  assumes "pre @ ss = all" and "distinct all" and "ss \<noteq> []" and "x \<in> set all" and "x \<notin> set ss"
  shows "earlier all x (hd ss)"
  using assms earlier_split [of pre "hd ss" "tl ss" x] by auto

lemma rest_rev_not_earlier:
  assumes "pre @ ss = rev all" and "distinct all" and "ss \<noteq> []" and "x \<in> set all" and "x \<notin> set (tl ss)"
  shows "\<not> earlier all x (hd ss)"
proof
  assume e: "earlier all x (hd ss)"
  obtain y rest where ss: "ss = y # rest" using assms(3) by (cases ss) auto
  have "rev (pre @ ss) = all" using assms(1) by simp
  then have all: "all = rev rest @ y # rev pre" using ss by simp
  then have "x \<in> set rest" using e earlier_split [of "rev rest" y "rev pre" x] assms(2) ss by simp
  then show False using assms(5) ss by simp
qed

section \<open>Who precedes whom\<close>

text \<open>
  \<open>must_precede enforce all h g\<close>: goroutine \<open>h\<close> is done before \<open>g\<close> is created. When the shutdown
  timeout is enforced, the waits of the stop steps may be given up.
\<close>

fun step_precedes :: "bool \<Rightarrow> string list \<Rightarrow> step \<Rightarrow> string \<Rightarrow> step \<Rightarrow> string \<Rightarrow> bool" where
  "step_precedes enforce all StepSetup x StepSetup y = earlier all x y"
| "step_precedes enforce all StepSetup x StepStart y = (\<not> earlier all y x)"
| "step_precedes enforce all StepSetup x StepStop y = True"
| "step_precedes enforce all StepSetup x StepTeardown y = True"
| "step_precedes enforce all StepStop x StepStop y = (\<not> enforce \<and> earlier all y x)"
| "step_precedes enforce all StepStop x StepTeardown y = (\<not> enforce)"
| "step_precedes enforce all StepStart x StepTeardown y = (\<not> enforce)"
| "step_precedes enforce all StepTeardown x StepTeardown y = earlier all y x"
| "step_precedes enforce all _ x _ y = False"

definition must_precede :: "bool \<Rightarrow> string list \<Rightarrow> goroutine \<Rightarrow> goroutine \<Rightarrow> bool" where
  "must_precede enforce all h g =
     step_precedes enforce all (g_step h) (fst (g_tw h)) (g_step g) (fst (g_tw g))"

definition order_inv :: "'w sys \<Rightarrow> bool" where
  "order_inv s \<longleftrightarrow> (\<forall>g\<in>set (s_gos s). \<forall>h\<in>set (s_gos s).
     must_precede (m_enforceShutdownTimeout (s_mgr s)) (s_stages s) h g \<longrightarrow>
     done_phase (g_phase h) \<and> (g_step g = StepSetup \<or> g_step g = StepStart \<longrightarrow> \<not> failed h))"

lemma must_precede_key:
  "g_key h' = g_key h \<Longrightarrow> g_key g' = g_key g \<Longrightarrow> must_precede e all h' g' = must_precede e all h g"
  by (simp add: must_precede_def g_key_def)

text \<open>A goroutine that exists when another one is created does not come after it.\<close>

lemma new_precedes_none:
  assumes ok: "pc_ok all (PRun st ss (RSpawn i))" and dist: "distinct all"
    and ps: "passed all (PRun st ss (RSpawn i)) (g_step g) (g_tw g)" and known: "step_known (g_step g)"
  shows "\<not> step_precedes e all st (hd ss) (g_step g) (fst (g_tw g))"
proof -
  obtain pre where pre: "pre @ ss = (if st = StepSetup \<or> st = StepStart then all else rev all)"
    and ss: "ss \<noteq> []" and "step_known st" using ok by auto
  have x: "fst (g_tw g) \<in> set all" and no: "\<not> ahead_run all st ss (g_step g) (fst (g_tw g))"
    using ps by (auto simp: passed_def)
  let ?x = "fst (g_tw g)"
  have fwd: "st = StepSetup \<or> st = StepStart \<Longrightarrow> ?x \<notin> set (tl ss) \<Longrightarrow> \<not> earlier all (hd ss) ?x"
    "st = StepSetup \<or> st = StepStart \<Longrightarrow> ?x \<notin> set ss \<Longrightarrow> earlier all ?x (hd ss)"
    using rest_not_earlier [of pre ss all ?x] done_earlier [of pre ss all ?x] pre ss dist x by auto
  have bwd: "st = StepStop \<or> st = StepTeardown \<Longrightarrow> ?x \<notin> set (tl ss) \<Longrightarrow> \<not> earlier all ?x (hd ss)"
    using rest_rev_not_earlier [of pre ss all ?x] pre ss dist x by auto
  show ?thesis
    using \<open>step_known st\<close> known no x fwd bwd by (cases st; cases "g_step g") simp_all
qed

text \<open>The goroutines that come before a new one are done, and none of their setups has failed.\<close>

lemma precedes_new_done:
  assumes w: "wait_inv s" and pc: "s_pc s = PRun st ss (RSpawn i)" and h: "h \<in> set (s_gos s)"
    and pre: "step_precedes (m_enforceShutdownTimeout (s_mgr s)) (s_stages s) (g_step h) (fst (g_tw h)) st (hd ss)"
  shows "done_phase (g_phase h) \<and> (st = StepSetup \<or> st = StepStart \<longrightarrow> \<not> failed h)"
proof -
  note inv = wait_invD [OF w]
  have b: "waited (m_enforceShutdownTimeout (s_mgr s)) (g_step h) \<Longrightarrow> \<not> done_phase (g_phase h) \<Longrightarrow>
        in_stage (s_pc s) (g_step h) (fst (g_tw h))"
    "\<not> m_enforceShutdownTimeout (s_mgr s) \<Longrightarrow> g_step h = StepStart \<Longrightarrow> after_tasks (s_pc s) \<Longrightarrow>
        done_phase (g_phase h)"
    using inv(4) h by (auto simp: barrier_inv_def)
  have f: "failed h \<Longrightarrow> may_fail (s_pc s) (s_setupErr s) (fst (g_tw h))"
    using inv(5) h by (simp add: setup_inv_def)
  show ?thesis
    using pre b f pc not_earlier_self [of "s_stages s" "hd ss"] sched_invD(7) [OF inv(1) h]
    by (cases "done_phase (g_phase h)"; cases st; cases "g_step h") (auto simp: waited_def failed_def)
qed

lemma order_inv_loop_task:
  assumes w: "wait_inv s" and inv: "order_inv s" and pc: "s_pc s = PRun st ss (RSpawn i)"
  shows "order_inv (loop_task st ss i s)"
proof -
  let ?s' = "loop_task st ss i s" and ?new = "new_goroutine (hd ss, i) st"
  let ?e = "m_enforceShutdownTimeout (s_mgr s)"
  note sch = wait_invD(1) [OF w]
  have ok: "pc_ok (s_stages s) (PRun st ss (RSpawn i))" using sched_invD(2) [OF sch] pc by simp
  have none: "\<not> must_precede ?e (s_stages s) ?new g" if "g \<in> set (s_gos s)" for g
    using new_precedes_none [OF ok sched_invD(13) [OF sch], of g] sched_invD(7,8) [OF sch that] pc
    by (simp add: must_precede_def new_goroutine_def)
  have self: "\<not> must_precede ?e (s_stages s) ?new ?new"
    by (cases st) (simp_all add: must_precede_def new_goroutine_def not_earlier_self)
  have new: "done_phase (g_phase h) \<and> (st = StepSetup \<or> st = StepStart \<longrightarrow> \<not> failed h)"
    if "h \<in> set (s_gos s)" "must_precede ?e (s_stages s) h ?new" for h
    using precedes_new_done [OF w pc that(1)] that(2) by (simp add: must_precede_def new_goroutine_def)
  have mem: "g = ?new \<or> g \<in> set (s_gos s)" if "g \<in> set (s_gos ?s')" for g
    using that by (auto simp: loop_task_gos split: if_splits)
  have "done_phase (g_phase h) \<and> (g_step g = StepSetup \<or> g_step g = StepStart \<longrightarrow> \<not> failed h)"
    if g: "g \<in> set (s_gos ?s')" and h: "h \<in> set (s_gos ?s')" and pre: "must_precede ?e (s_stages s) h g" for g h
  proof -
    have h_old: "h \<in> set (s_gos s)" using mem [OF g] mem [OF h] pre none self by blast
    show ?thesis
    proof (cases "g = ?new")
      case True
      then show ?thesis using new [OF h_old pre [unfolded True]] by (simp add: new_goroutine_def)
    next
      case False
      then show ?thesis using mem [OF g] h_old pre inv by (simp add: order_inv_def)
    qed
  qed
  then show ?thesis by (simp add: order_inv_def)
qed

lemma order_inv_step:
  assumes step: "sys_step s a s'" and inv: "order_inv s" and w: "wait_inv s"
  shows "order_inv s'"
  using step
proof (cases rule: step_shape)
  case same
  with inv step_enforce [OF step] step_stages [OF step] show ?thesis by (simp add: order_inv_def)
next
  case (loop st ss i)
  then show ?thesis using order_inv_loop_task w inv by blast
next
  case (move j p)
  obtain g' where g': "s_gos s' = (s_gos s)[j := g']" "g_key g' = g_key (s_gos s ! j)" "g_phase g' = p"
    using move(2) by (auto simp: moved_def)
  have mem: "s_gos s ! j \<in> set (s_gos s)" using move(1) by simp
  have rep: "\<exists>h\<in>set (s_gos s). g_key h = g_key k \<and> (done_phase (g_phase h) \<longrightarrow> h = k)"
    if "k \<in> set (s_gos s')" for k
    using that g' mem move(4) by (metis list_update_mem_cases)
  show ?thesis unfolding order_inv_def
  proof (intro ballI impI)
    fix g h assume gh: "g \<in> set (s_gos s')" "h \<in> set (s_gos s')"
      and pre: "must_precede (m_enforceShutdownTimeout (s_mgr s')) (s_stages s') h g"
    obtain g0 where g0: "g0 \<in> set (s_gos s)" "g_key g0 = g_key g" using rep gh(1) by blast
    obtain h0 where h0: "h0 \<in> set (s_gos s)" "g_key h0 = g_key h" "done_phase (g_phase h0) \<longrightarrow> h0 = h"
      using rep gh(2) by blast
    have "must_precede (m_enforceShutdownTimeout (s_mgr s)) (s_stages s) h0 g0"
      using pre must_precede_key [OF h0(2) g0(2)] step_enforce [OF step] step_stages [OF step] by simp
    with inv g0(1) h0(1) have "done_phase (g_phase h0) \<and>
        (g_step g0 = StepSetup \<or> g_step g0 = StepStart \<longrightarrow> \<not> failed h0)"
      by (simp add: order_inv_def)
    with h0(3) g0(2) show "done_phase (g_phase h) \<and>
        (g_step g = StepSetup \<or> g_step g = StepStart \<longrightarrow> \<not> failed h)"
      by (auto simp: g_key_def)
  qed
qed

end
