(* ===== verification/RunLegal.thy ===== *)
theory RunLegal
  imports RunOrder
begin

text \<open>
  The abstract specification of a run: a monitor that reads the trace of calls, returns and skip
  notifications and says which event may come next. Every trace of the run machine is legal.
\<close>

declare split_paired_All [simp del] split_paired_Ex [simp del]

section \<open>The monitor\<close>

text \<open>What the events so far (newest first) say of a step of a task.\<close>

definition was_called :: "event list \<Rightarrow> tref \<Rightarrow> step \<Rightarrow> bool" where
  "was_called t r st \<longleftrightarrow> EvCall r st \<in> set t"

fun returned_in :: "event list \<Rightarrow> tref \<Rightarrow> step \<Rightarrow> bool" where
  "returned_in [] r st = False"
| "returned_in (EvReturn r' st' e # t) r st = (r' = r \<and> st' = st \<or> returned_in t r st)"
| "returned_in (_ # t) r st = returned_in t r st"

fun skipped_in :: "event list \<Rightarrow> tref \<Rightarrow> bool" where
  "skipped_in [] r = False"
| "skipped_in (EvSkipped r' e # t) r = (r' = r \<or> skipped_in t r)"
| "skipped_in (_ # t) r = skipped_in t r"

definition setup_succeeded :: "event list \<Rightarrow> tref \<Rightarrow> bool" where
  "setup_succeeded t r \<longleftrightarrow> EvReturn r StepSetup None \<in> set t"

text \<open>
  A call of step \<open>st\<close> of \<open>r\<close> may come when it did not come before and the task was not skipped; when
  the steps that precede it in the order of the stages and were called have returned, with success if
  they are setups and \<open>st\<close> is a setup or a start; when no step it precedes was called; and when the
  task's own setup, if it was called, succeeded before its start or teardown.
\<close>

definition call_ok :: "bool \<Rightarrow> string list \<Rightarrow> event list \<Rightarrow> tref \<Rightarrow> step \<Rightarrow> bool" where
  "call_ok enforce all t r st \<longleftrightarrow>
     \<not> was_called t r st \<and> \<not> skipped_in t r \<and>
     (\<forall>ev\<in>set t. case ev of
        EvCall r' st' \<Rightarrow>
          step_precedes enforce all st' (fst r') st (fst r) \<longrightarrow>
            returned_in t r' st' \<and>
            (st' = StepSetup \<and> (st = StepSetup \<or> st = StepStart) \<longrightarrow> setup_succeeded t r')
      | _ \<Rightarrow> True) \<and>
     (\<forall>ev\<in>set t. case ev of
        EvCall r' st' \<Rightarrow> \<not> step_precedes enforce all st (fst r) st' (fst r')
      | _ \<Rightarrow> True) \<and>
     (st = StepStart \<or> st = StepTeardown \<longrightarrow> was_called t r StepSetup \<longrightarrow> setup_succeeded t r)"

fun event_ok :: "bool \<Rightarrow> string list \<Rightarrow> event list \<Rightarrow> event \<Rightarrow> bool" where
  "event_ok enforce all t (EvCall r st) = call_ok enforce all t r st"
| "event_ok enforce all t (EvReturn r st e) = (was_called t r st \<and> \<not> returned_in t r st)"
| "event_ok enforce all t (EvSkipped r e) =
     (\<not> skipped_in t r \<and> (\<forall>ev\<in>set t. case ev of EvCall r' st \<Rightarrow> r' \<noteq> r | _ \<Rightarrow> True))"
| "event_ok enforce all t _ = True"

fun legal :: "bool \<Rightarrow> string list \<Rightarrow> event list \<Rightarrow> bool" where
  "legal enforce all [] = True"
| "legal enforce all (e # t) = (event_ok enforce all t e \<and> legal enforce all t)"

lemma returned_in_iff: "returned_in t r st \<longleftrightarrow> (\<exists>e. EvReturn r st e \<in> set t)"
  by (induction t r st rule: returned_in.induct) auto

lemma skipped_in_iff: "skipped_in t r \<longleftrightarrow> (\<exists>e. EvSkipped r e \<in> set t)"
  by (induction t r rule: skipped_in.induct) auto

lemma skipped_in_append [simp]: "skipped_in (t @ t') r \<longleftrightarrow> skipped_in t r \<or> skipped_in t' r"
  by (auto simp: skipped_in_iff)

lemma legal_callbacks [simp]:
  "legal e all (replicate n (EvManagerCb x st cs) @ t) = legal e all t"
  "legal e all (replicate n (EvTaskCb r st cs er) @ t) = legal e all t"
  by (induction n) simp_all

lemma skipped_in_callbacks [simp]:
  "\<not> skipped_in (replicate n (EvManagerCb x st cs)) r" "\<not> skipped_in (replicate n (EvTaskCb r' st cs er)) r"
  by (induction n) simp_all

lemma legal_suffix: "legal b all (later @ ev # before) \<Longrightarrow> event_ok b all before ev"
  by (induction later) auto

lemma legal_was_called: "legal b all t \<Longrightarrow> returned_in t r st \<Longrightarrow> was_called t r st"
proof (induction t)
  case Nil
  then show ?case by simp
next
  case (Cons ev t)
  then show ?case by (cases ev) (auto simp: was_called_def)
qed

lemma legal_called_not_skipped: "legal b all t \<Longrightarrow> was_called t r st \<Longrightarrow> \<not> skipped_in t r"
proof (induction t)
  case Nil
  then show ?case by simp
next
  case (Cons ev t)
  show ?case
  proof (cases ev)
    case (EvCall r' st')
    show ?thesis
    proof (cases "was_called t r st")
      case True
      with Cons EvCall show ?thesis by simp
    next
      case False
      with Cons.prems EvCall have "r' = r" by (auto simp: was_called_def)
      with Cons.prems EvCall show ?thesis by (simp add: call_ok_def)
    qed
  next
    case (EvSkipped r' e)
    from Cons EvSkipped show ?thesis
      by (auto simp: was_called_def split: event.splits)
  qed (use Cons in \<open>auto simp: was_called_def\<close>)
qed

section \<open>The events of a goroutine\<close>

lemma in_log: "ev_key ev = Some k \<Longrightarrow> ev \<in> set t \<longleftrightarrow> ev \<in> set (calls_of k t)"
  by (simp add: calls_of_def)

lemma called_goroutine:
  assumes "link_inv s" and "EvCall r st \<in> set (s_trace s)"
  obtains h where "h \<in> set (s_gos s)" "g_tw h = r" "g_step h = st" "calls_at h \<noteq> []"
    "log_of s (st, r) = calls_at h"
proof -
  have ne: "log_of s (st, r) \<noteq> []" using assms(2) in_log [of "EvCall r st" "(st, r)" "s_trace s"] by auto
  then have "(st, r) \<in> set (keys s)" using assms(1) by (auto simp: link_inv_def)
  then obtain h where h: "h \<in> set (s_gos s)" "g_tw h = r" "g_step h = st" by (auto simp: g_key_def)
  then have "log_of s (st, r) = calls_at h"
    using assms(1) by (auto simp: link_inv_def g_linked_def g_key_def)
  with h ne show ?thesis by (intro that) auto
qed

lemma calls_at_done:
  "calls_at h \<noteq> [] \<Longrightarrow> done_phase (g_phase h) \<Longrightarrow> \<exists>e. calls_at h = [EvReturn (g_tw h) (g_step h) e, EvCall (g_tw h) (g_step h)] \<and>
     g_phase h = GDone (Some e)"
  by (cases "g_phase h") (auto simp: calls_at_def split: option.splits)

lemma done_returned:
  assumes "link_inv s" and "h \<in> set (s_gos s)" and "done_phase (g_phase h)" and "calls_at h \<noteq> []"
    and "log_of s (g_key h) = calls_at h"
  shows "returned_in (s_trace s) (g_tw h) (g_step h)"
    and "g_step h = StepSetup \<Longrightarrow> \<not> failed h \<Longrightarrow> setup_succeeded (s_trace s) (g_tw h)"
proof -
  obtain e where e: "calls_at h = [EvReturn (g_tw h) (g_step h) e, EvCall (g_tw h) (g_step h)]"
    and ph: "g_phase h = GDone (Some e)"
    using calls_at_done assms(3,4) by blast
  have mem: "EvReturn (g_tw h) (g_step h) e \<in> set (s_trace s)"
    using assms(5) e in_log [of "EvReturn (g_tw h) (g_step h) e" "g_key h" "s_trace s"] by (simp add: g_key_def)
  then show "returned_in (s_trace s) (g_tw h) (g_step h)" by (auto simp: returned_in_iff)
  show "setup_succeeded (s_trace s) (g_tw h)" if "g_step h = StepSetup" "\<not> failed h"
    using that ph mem by (cases e) (auto simp: failed_def setup_succeeded_def)
qed

section \<open>Skipped tasks\<close>

fun past_start :: "pc \<Rightarrow> bool" where
  "past_start (PRun st _ _) = (st = StepStop \<or> st = StepTeardown)"
| "past_start PSelect = True"
| "past_start PWaitTasks = True"
| "past_start (PReturned _ _) = True"
| "past_start _ = False"

lemma past_start_flow: "flow all pc pc' \<Longrightarrow> past_start pc \<Longrightarrow> past_start pc'"
  by (induction rule: flow.induct) auto

definition untouched :: "'w sys \<Rightarrow> tref \<Rightarrow> bool" where
  "untouched s r \<longleftrightarrow> marks s r = {} \<and> (\<forall>g\<in>set (s_gos s). g_tw g \<noteq> r)"

definition skip_inv :: "'w sys \<Rightarrow> bool" where
  "skip_inv s \<longleftrightarrow> (\<forall>r. skipped_in (s_trace s) r \<longrightarrow> valid s r \<and> untouched s r \<and> past_start (s_pc s))"

definition legal_inv :: "'w sys \<Rightarrow> bool" where
  "legal_inv s \<longleftrightarrow> legal (m_enforceShutdownTimeout (s_mgr s)) (s_stages s) (s_trace s)"

lemma skip_log [simp]:
  "skipped_in (s_trace (runManagerCallbacks x st cs s)) r = skipped_in (s_trace s) r"
  "skipped_in (s_trace (task_callbacks g cs e s)) r = skipped_in (s_trace s) r"
  "legal b all (s_trace (runManagerCallbacks x st cs s)) = legal b all (s_trace s)"
  "legal b all (s_trace (task_callbacks g cs e s)) = legal b all (s_trace s)"
  by (simp_all add: runManagerCallbacks_def task_callbacks_def Let_def split_beta)

text \<open>A loop of \<open>notifyTasksSkipped\<close> over tasks that were neither called nor skipped.\<close>

lemma fold_notify_skips:
  "skipped_in (s_trace (fold (notify_one c e) rs s)) r \<Longrightarrow> skipped_in (s_trace s) r \<or> r \<in> set rs"
proof (induction rs arbitrary: s)
  case Nil
  then show ?case by simp
next
  case (Cons r' rs)
  from Cons.IH [of "notify_one c e r' s"] Cons.prems show ?case
    by (auto simp: notify_one_def split: option.splits)
qed

lemma fold_notify_legal:
  assumes "distinct rs" and "legal b all (s_trace s)"
    and "\<forall>r\<in>set rs. \<not> skipped_in (s_trace s) r \<and> (\<forall>st. log_of s (st, r) = [])"
  shows "legal b all (s_trace (fold (notify_one c e) rs s))"
  using assms
proof (induction rs arbitrary: s)
  case Nil
  then show ?case by simp
next
  case (Cons r rs)
  have no_call: "EvCall r st \<notin> set (s_trace s)" for st
    using Cons.prems(3) in_log [of "EvCall r st" "(st, r)" "s_trace s"] by simp
  have "legal b all (s_trace (notify_one c e r s))"
    using Cons.prems(2,3) no_call by (auto simp: notify_one_def split: option.split event.split)
  moreover have "\<forall>r'\<in>set rs. \<not> skipped_in (s_trace (notify_one c e r s)) r' \<and>
      (\<forall>st. log_of (notify_one c e r s) (st, r') = [])"
    using Cons.prems(1,3) by (auto simp: notify_one_def split: option.split)
  ultimately show ?case using Cons.IH Cons.prems(1) by simp
qed

lemma set_stage_refs: "set (stage_refs ts ss) = {r. fst r \<in> set ss \<and> tw_valid ts r}"
  by (auto simp: stage_refs_def tw_valid_def)

lemma distinct_stage_refs: "distinct ss \<Longrightarrow> distinct (stage_refs ts ss)"
  by (induction ss) (auto simp: stage_refs_def distinct_map inj_on_def)

section \<open>Preservation\<close>

text \<open>The stages that \<open>notifyTasksSkipped\<close> gets hold no task that was touched.\<close>

lemma unpassed_untouched:
  assumes sch: "sched_inv s" and v: "valid s r"
    and no: "\<And>st. step_known st \<Longrightarrow> \<not> passed (s_stages s) (s_pc s) st r"
  shows "untouched s r"
  unfolding untouched_def
proof
  show "marks s r = {}" using sched_invD(9,10) [OF sch v] no by blast
  show "\<forall>g\<in>set (s_gos s). g_tw g \<noteq> r" using sched_invD(7,8) [OF sch] no by blast
qed

lemma untouched_log: "link_inv s \<Longrightarrow> untouched s r \<Longrightarrow> log_of s (st, r) = []"
proof -
  assume lnk: "link_inv s" and un: "untouched s r"
  have "(st, r) \<notin> set (keys s)" using un by (auto simp: untouched_def g_key_def)
  with lnk show "log_of s (st, r) = []" by (simp add: link_inv_def)
qed

lemma notify_skip_inv:
  assumes inv: "skip_inv s" and sch: "sched_inv s" and lnk: "link_inv s" and leg: "legal_inv s"
    and dist: "distinct ss" and now: "\<not> past_start (s_pc s)"
    and no: "\<And>r st. fst r \<in> set ss \<Longrightarrow> step_known st \<Longrightarrow> \<not> passed (s_stages s) (s_pc s) st r"
  shows "legal (m_enforceShutdownTimeout (s_mgr s)) (s_stages s) (s_trace (notifyTasksSkipped c ss e s))"
    and "skipped_in (s_trace (notifyTasksSkipped c ss e s)) r \<Longrightarrow> valid s r \<and> untouched s r"
proof -
  have none: "\<not> skipped_in (s_trace s) r" for r using inv now by (auto simp: skip_inv_def)
  have fresh: "valid s r \<and> untouched s r" if "r \<in> set (stage_refs (s_tasks s) ss)" for r
    using that unpassed_untouched [OF sch _ no] by (simp add: set_stage_refs)
  show "legal (m_enforceShutdownTimeout (s_mgr s)) (s_stages s) (s_trace (notifyTasksSkipped c ss e s))"
    unfolding notifyTasksSkipped_def Let_def split_beta
    by (rule fold_notify_legal)
      (use leg none fresh untouched_log [OF lnk] distinct_stage_refs [OF dist] in
        \<open>auto simp: legal_inv_def\<close>)
  show "skipped_in (s_trace (notifyTasksSkipped c ss e s)) r \<Longrightarrow> valid s r \<and> untouched s r"
    using fold_notify_skips none fresh
    by (fastforce simp: notifyTasksSkipped_def Let_def split_beta)
qed

text \<open>Steps that add no call, return or skip to the trace.\<close>

definition quiet :: "'w sys \<Rightarrow> 'w sys \<Rightarrow> bool" where
  "quiet s s' \<longleftrightarrow> (\<forall>r. skipped_in (s_trace s') r = skipped_in (s_trace s) r) \<and>
     (\<forall>b all. legal b all (s_trace s') = legal b all (s_trace s))"

lemma quiet_same [simp]: "s_trace s' = s_trace s \<Longrightarrow> quiet s s'"
  by (simp add: quiet_def)

lemma quiet_loop_task: "quiet s (loop_task st ss i s)"
  by (simp add: quiet_def loop_task_def Let_def split_beta spawn_def step_callback_once_def wg_add_def
      split: sum.split)

lemma untouched_loop_task:
  assumes "untouched s r" and "valid s (hd ss, i)" and "st = StepStop \<or> st = StepTeardown"
  shows "untouched (loop_task st ss i s) r"
proof (cases "r = (hd ss, i)")
  case True
  have "checkStartStep (tw_at (s_tasks s) r) (s_world s) st = (tw_at (s_tasks s) r, Inr False)"
    using assms(1,3) by (auto simp: untouched_def marks_def checkStartStep_def Let_def)
  with assms(1,2) True show ?thesis
    by (auto simp: untouched_def marks_def loop_task_tasks loop_task_gos tw_at_update)
next
  case False
  with assms loop_task_marks(1) [OF assms(2), of st r] show ?thesis
    by (auto simp: untouched_def loop_task_gos new_goroutine_def)
qed

lemma untouched_moved:
  assumes "untouched s r" and "moved j p s s'" and "j < length (s_gos s)"
    and "\<And>r. marks s' r \<subseteq> (if r = g_tw (s_gos s ! j) then insert (g_step (s_gos s ! j)) (marks s r) else marks s r)"
  shows "untouched s' r"
proof -
  obtain g' where g': "s_gos s' = (s_gos s)[j := g']" "g_key g' = g_key (s_gos s ! j)"
    using assms(2) by (auto simp: moved_def)
  have "s_gos s ! j \<in> set (s_gos s)" using assms(3) by simp
  then have ne: "g_tw (s_gos s ! j) \<noteq> r" using assms(1) by (auto simp: untouched_def)
  then have "g_tw g \<noteq> r" if "g \<in> set (s_gos s')" for g
    using that g' list_update_mem_cases assms(1) unfolding untouched_def g_key_def by (metis prod.inject)
  moreover have "marks s' r = {}" using assms(1,4) ne by (fastforce simp: untouched_def)
  ultimately show ?thesis by (simp add: untouched_def)
qed

lemma step_untouched:
  assumes "sys_step s a s'" and sch: "sched_inv s" and ps: "past_start (s_pc s)" and un: "untouched s r"
  shows "untouched s' r \<and> valid s' r = valid s r"
proof -
  have running: "m_isRunning (s_mgr s)" using sched_invD(4) [OF sch] ps by force
  have gv: "j < length (s_gos s) \<Longrightarrow> valid s (g_tw (s_gos s ! j))" for j
    using sched_invD(6) [OF sch] by simp
  note mv = untouched_moved [OF un]
  from assms(1) show ?thesis
  proof (cases rule: sys_step.cases)
    case (st_loop st ss i b)
    then have v: "valid s (hd ss, i)" by (simp add: tw_valid_def)
    then show ?thesis
      using untouched_loop_task [OF un v] loop_task_marks(3) [OF v] st_loop ps by simp
  next
    case (st_begin j)
    then show ?thesis using mv [OF go_moved(1)] by (simp add: go_begin_marks(1) [OF gv] subset_iff)
  next
    case (st_check j)
    then show ?thesis using mv [OF go_moved(2)] by (simp add: marks_def subset_iff)
  next
    case (st_mark j)
    then show ?thesis using mv [OF go_moved(3)] by (simp add: go_mark_marks(1) [OF gv] subset_iff)
  next
    case (st_call j)
    then show ?thesis using mv [OF go_moved(4)] by (simp add: marks_def subset_iff)
  next
    case (st_return j err w)
    obtain e' where m: "moved j (GReturned e') s (go_return j err w s)"
      using go_moved(5) [where j = j and s = s and err = err and w = w] by blast
    from st_return show ?thesis using mv [OF m] by (simp add: marks_def subset_iff)
  next
    case (st_after j err)
    then show ?thesis using mv [OF go_moved(6)] by (simp add: go_after_marks(1) [OF gv] subset_iff)
  next
    case (st_finish j err)
    then show ?thesis using mv [OF go_moved(7)] by (simp add: marks_def subset_iff)
  next
    case (st_report j err)
    then show ?thesis using mv [OF go_moved(8)] by (simp add: marks_def subset_iff)
  next
    case (st_exit j res)
    then show ?thesis using mv [OF go_moved(9)] by (simp add: marks_def subset_iff)
  qed (use un ps in \<open>simp_all add: untouched_def marks_def set_mgr_ctxs_running [OF running]\<close>)
qed

text \<open>What a step adds to the trace.\<close>

definition same_run :: "'w sys \<Rightarrow> 'w sys \<Rightarrow> bool" where
  "same_run s s0 \<longleftrightarrow> s_mgr s0 = s_mgr s \<and> s_gos s0 = s_gos s \<and> s_pc s0 = s_pc s \<and> quiet s s0 \<and>
     (\<forall>k. log_of s0 k = log_of s k)"

lemma same_run_inv:
  assumes "same_run s s0"
  shows "sched_inv s0 = sched_inv s" "link_inv s0 = link_inv s" "skip_inv s0 = skip_inv s"
    "legal_inv s0 = legal_inv s" "untouched s0 r = untouched s r"
  using assms by (simp_all add: same_run_def sched_inv_def link_inv_def g_linked_def skip_inv_def
      legal_inv_def untouched_def marks_def quiet_def)

lemma start_loop_trace: "ss \<noteq> [] \<Longrightarrow> s_trace (start_loop ss s) = s_trace s"
  "s_trace (start_loop [] s) = s_trace s"
  by (simp_all add: start_loop_def start_returns_def notifyTasksSkipped_def Let_def split_beta stage_refs_def)

lemma stage_after_same_run: "same_run s (stage_callbacks_after st x s)"
  by (simp add: same_run_def quiet_def stage_callbacks_after_def)

lemma step_trace:
  assumes step: "sys_step s a s'" and sch: "sched_inv s"
  obtains (quiet) "quiet s s'"
  | (call) j where "j < length (s_gos s)" "g_phase (s_gos s ! j) = GMarked"
      "s_trace s' = EvCall (g_tw (s_gos s ! j)) (g_step (s_gos s ! j)) # s_trace s"
  | (return) j e where "j < length (s_gos s)" "g_phase (s_gos s ! j) = GRunning"
      "s_trace s' = EvReturn (g_tw (s_gos s ! j)) (g_step (s_gos s ! j)) e # s_trace s"
  | (skip) c ss e s0 where "same_run s s0" "s_trace s' = s_trace (notifyTasksSkipped c ss e s0)"
      "distinct ss" "\<not> past_start (s_pc s)" "past_start (s_pc s')" "s_gos s' = s_gos s" "s_tasks s' = s_tasks s"
      "\<And>r st. fst r \<in> set ss \<Longrightarrow> step_known st \<Longrightarrow> \<not> passed (s_stages s) (s_pc s) st r"
  using step
proof (cases rule: sys_step.cases)
  case (st_checks b)
  have "\<not> passed (s_stages s) PEntered st r" for st r by (simp add: passed_def)
  with st_checks quiet skip [of s "s_ctx s" "s_stages s"] sched_invD(13) [OF sch] show ?thesis
    by (auto simp: run_checks_def early_return_def Let_def split_beta same_run_def quiet_def split: if_splits)
next
  case (st_before i co b)
  have no: "\<not> passed (s_stages s) (PBeforeRun i co) st r" for st r by (simp add: passed_def)
  obtain st' co' er where f: "(m_beforeRun (s_mgr s) ! i) co (s_ctxs s) = (st', co', er)" by (metis prod_cases3)
  show ?thesis
  proof (cases "er \<noteq> None \<and> co' \<noteq> None")
    case True
    then obtain e c where "er = Some e" "co' = Some c" by blast
    with st_before f no sched_invD(13) [OF sch] show ?thesis
      by (intro skip [of "s\<lparr>s_ctxs := st', s_ctx := c\<rparr>" c "s_stages s" "Some e"])
        (simp_all add: run_beforeRun_def early_return_def same_run_def quiet_def)
  next
    case False
    with st_before f show ?thesis
      by (intro quiet) (auto simp: run_beforeRun_def quiet_def split: option.split)
  qed
next
  case (st_stage_end st ss b)
  let ?s1 = "stage_callbacks_after st (hd ss) s"
  have ok: "pc_ok (s_stages s) (PRun st ss RAfter)" using sched_invD(2) [OF sch] st_stage_end by simp
  show ?thesis
  proof (cases "st = StepSetup \<and> mb_hasErrors (s_setupErr s)")
    case True
    obtain pre where pre: "pre @ ss = s_stages s" using ok True by auto
    have dist: "distinct (tl ss)" "distinct ss" using sched_invD(13) [OF sch] pre by (metis distinct_append distinct_tl)+
    have "\<not> passed (s_stages s) (PRun StepSetup ss RAfter) st' r"
      if "fst r \<in> set (tl ss)" "step_known st'" for st' r
      using that pre by (cases st'; cases ss) (auto simp: passed_def)
    with True st_stage_end dist show ?thesis
      by (intro skip [of ?s1 "s_ctx s" "tl ss" "mb_build (s_setupErr s)"])
        (simp_all add: stage_after_same_run stage_end_def next_stage_def start_returns_def)
  next
    case False
    have "s_trace (stage_end st ss s) = s_trace ?s1"
      using False ok by (cases st; cases "tl ss")
        (auto simp: stage_end_def next_stage_def start_loop_trace)
    with st_stage_end stage_after_same_run [of s st "hd ss"] show ?thesis
      by (intro quiet) (simp add: quiet_def same_run_def)
  qed
next
  case (st_call j)
  then show ?thesis by (intro call [of j]) (simp_all add: go_call_def Let_def)
next
  case (st_return j err w)
  obtain e where "s_trace (go_return j err w s) = EvReturn (g_tw (s_gos s ! j)) (g_step (s_gos s ! j)) e # s_trace s"
    using go_moved(5) [where j = j and s = s and err = err and w = w] by blast
  with st_return show ?thesis by (intro return [of j]) simp_all
next
  case (st_pending p b)
  have "s_trace (run_pending p s) = s_trace s"
    by (cases "s_stages s") (simp_all add: run_pending_def start_loop_trace split: option.split)
  with st_pending show ?thesis by (intro quiet) simp
next
  case (st_loop st ss i b)
  then show ?thesis using quiet quiet_loop_task by blast
next
  case (st_check j)
  then show ?thesis by (intro quiet) (simp add: quiet_def go_check_def Let_def)
next
  case (st_after j err)
  then show ?thesis by (intro quiet) (simp add: quiet_def go_after_def Let_def)
qed (intro quiet; simp)+

lemma skip_inv_step:
  assumes step: "sys_step s a s'" and inv: "skip_inv s" and sch: "sched_inv s" and lnk: "link_inv s"
    and leg: "legal_inv s"
  shows "skip_inv s'"
proof -
  have keep: "skip_inv s'" if "\<And>r. skipped_in (s_trace s') r \<Longrightarrow> skipped_in (s_trace s) r"
    unfolding skip_inv_def
  proof (intro allI impI)
    fix r assume "skipped_in (s_trace s') r"
    then have "skipped_in (s_trace s) r" by (rule that)
    with inv have "valid s r" "untouched s r" "past_start (s_pc s)" by (auto simp: skip_inv_def)
    then show "valid s' r \<and> untouched s' r \<and> past_start (s_pc s')"
      using step_untouched [OF step sch] past_start_flow sched_flow [OF sch step] by metis
  qed
  from step sch show ?thesis
  proof (cases rule: step_trace)
    case (skip c ss e s0)
    note same = same_run_inv [OF skip(1)]
    have "valid s0 r \<and> untouched s0 r" if "skipped_in (s_trace s') r" for r
      using that skip notify_skip_inv(2) [of s0 ss c e r] inv sch lnk leg same
      by (simp add: same_run_def)
    with skip same show ?thesis by (simp add: skip_inv_def same_run_def untouched_def marks_def)
  qed (auto intro!: keep simp: quiet_def)
qed

text \<open>A goroutine calls its task: what precedes it has returned.\<close>

lemma call_legal:
  assumes lnk: "link_inv s" and ord: "order_inv s" and skp: "skip_inv s"
    and g: "g \<in> set (s_gos s)" and ph: "g_phase g = GMarked"
  shows "call_ok (m_enforceShutdownTimeout (s_mgr s)) (s_stages s) (s_trace s) (g_tw g) (g_step g)"
proof -
  let ?t = "s_trace s" and ?e = "m_enforceShutdownTimeout (s_mgr s)"
  have gl: "log_of s (g_key g) = calls_at g" "\<forall>p. prev_step (g_step g) = Some p \<longrightarrow> p \<in> marks s (g_tw g)"
    using lnk g by (auto simp: link_inv_def g_linked_def)
  have "EvCall (g_tw g) (g_step g) \<notin> set ?t"
    using in_log [of "EvCall (g_tw g) (g_step g)" "g_key g" ?t] gl(1) ph
    by (simp add: g_key_def calls_at_def)
  then have new: "\<not> was_called ?t (g_tw g) (g_step g)" by (simp add: was_called_def)
  have unskipped: "\<not> skipped_in ?t (g_tw g)" using skp g by (auto simp: skip_inv_def untouched_def)
  have before: "returned_in ?t r st \<and>
      (st = StepSetup \<and> (g_step g = StepSetup \<or> g_step g = StepStart) \<longrightarrow> setup_succeeded ?t r)"
    if c: "EvCall r st \<in> set ?t" and p: "step_precedes ?e (s_stages s) st (fst r) (g_step g) (fst (g_tw g))" for r st
  proof -
    obtain h where h: "h \<in> set (s_gos s)" "g_tw h = r" "g_step h = st" "calls_at h \<noteq> []"
      "log_of s (st, r) = calls_at h" using called_goroutine [OF lnk c] by blast
    have "must_precede ?e (s_stages s) h g" using p h by (simp add: must_precede_def)
    with ord g h(1) have "done_phase (g_phase h) \<and> (g_step g = StepSetup \<or> g_step g = StepStart \<longrightarrow> \<not> failed h)"
      by (simp add: order_inv_def)
    with done_returned [OF lnk h(1) _ h(4)] h show ?thesis by (auto simp: g_key_def)
  qed
  have first: "\<not> step_precedes ?e (s_stages s) (g_step g) (fst (g_tw g)) st (fst r)" if c: "EvCall r st \<in> set ?t" for r st
  proof
    assume p: "step_precedes ?e (s_stages s) (g_step g) (fst (g_tw g)) st (fst r)"
    obtain h where h: "h \<in> set (s_gos s)" "g_tw h = r" "g_step h = st"
      using called_goroutine [OF lnk c] by blast
    with p have "must_precede ?e (s_stages s) g h" by (simp add: must_precede_def)
    with ord g h(1) have "done_phase (g_phase g)" by (simp add: order_inv_def)
    with ph show False by simp
  qed
  have own: "setup_succeeded ?t (g_tw g)"
    if st: "g_step g = StepStart \<or> g_step g = StepTeardown" and c: "was_called ?t (g_tw g) StepSetup"
  proof -
    obtain h where h: "h \<in> set (s_gos s)" "g_tw h = g_tw g" "g_step h = StepSetup"
      "log_of s (StepSetup, g_tw g) = calls_at h"
      using called_goroutine [OF lnk c [unfolded was_called_def]] by blast
    have "StepSetup \<in> marks s (g_tw g)" using gl(2) st by auto
    then have "settled h" using lnk h by (auto simp: link_inv_def g_linked_def)
    then have "calls_at h = [EvReturn (g_tw h) StepSetup None, EvCall (g_tw h) StepSetup]"
      using h(3) by (simp add: settled_def calls_at_def)
    then show ?thesis
      using h(2,4) in_log [of "EvReturn (g_tw g) StepSetup None" "(StepSetup, g_tw g)" ?t]
      by (simp add: setup_succeeded_def)
  qed
  show ?thesis
    using new unskipped before first own by (auto simp: call_ok_def split: event.split)
qed

lemma return_legal:
  assumes lnk: "link_inv s" and g: "g \<in> set (s_gos s)" and ph: "g_phase g = GRunning"
  shows "was_called (s_trace s) (g_tw g) (g_step g) \<and> \<not> returned_in (s_trace s) (g_tw g) (g_step g)"
proof -
  have log: "log_of s (g_key g) = [EvCall (g_tw g) (g_step g)]"
    using lnk g ph by (auto simp: link_inv_def g_linked_def calls_at_def)
  then show ?thesis
    using in_log [of "EvCall (g_tw g) (g_step g)" "g_key g" "s_trace s"]
      in_log [of "EvReturn (g_tw g) (g_step g) e" "g_key g" "s_trace s" for e]
    by (auto simp: was_called_def returned_in_iff g_key_def)
qed

lemma legal_inv_step:
  assumes step: "sys_step s a s'" and w: "wait_inv s" and ord: "order_inv s" and skp: "skip_inv s"
    and leg: "legal_inv s"
  shows "legal_inv s'"
proof -
  note sch = wait_invD(1) [OF w] and lnk = wait_invD(2) [OF w]
  note const = step_enforce [OF step] step_stages [OF step]
  from step sch show ?thesis
  proof (cases rule: step_trace)
    case quiet
    with leg const show ?thesis by (simp add: legal_inv_def quiet_def)
  next
    case (call j)
    with leg const call_legal [OF lnk ord skp, of "s_gos s ! j"] show ?thesis
      by (simp add: legal_inv_def)
  next
    case (return j e)
    with leg const return_legal [OF lnk, of "s_gos s ! j"] show ?thesis by (simp add: legal_inv_def)
  next
    case (skip c ss e s0)
    note same = same_run_inv [OF skip(1)]
    have "legal (m_enforceShutdownTimeout (s_mgr s0)) (s_stages s0) (s_trace (notifyTasksSkipped c ss e s0))"
      using skip by (intro notify_skip_inv(1)) (simp_all add: same sch lnk leg skp same_run_def)
    with skip const show ?thesis by (simp add: legal_inv_def same_run_def)
  qed
qed

section \<open>Every run is legal\<close>

definition run_inv :: "'w sys \<Rightarrow> bool" where
  "run_inv s \<longleftrightarrow> wait_inv s \<and> order_inv s \<and> skip_inv s \<and> legal_inv s"

lemma run_invD:
  assumes "run_inv s"
  shows "wait_inv s" "order_inv s" "skip_inv s" "legal_inv s" "sched_inv s" "link_inv s"
    "count_inv s" "barrier_inv s" "setup_inv s"
  using assms wait_invD [of s] by (simp_all add: run_inv_def)

lemma initial_run_inv: "initial s \<Longrightarrow> run_inv s"
  using initial_wait_inv
  by (auto simp: run_inv_def order_inv_def skip_inv_def legal_inv_def initial_def)

lemma run_inv_step: "run_inv s \<Longrightarrow> sys_step s a s' \<Longrightarrow> run_inv s'"
  using wait_inv_step order_inv_step skip_inv_step legal_inv_step run_invD unfolding run_inv_def by metis

interpretation run: invariant_machine sys_step initial run_inv
  using initial_run_inv run_inv_step by unfold_locales

lemma reachable_run_inv: "reachable s \<Longrightarrow> run_inv s"
  unfolding reachable_def using run.inv_run by blast

end
