(* ===== verification/RunContexts.thy ===== *)
theory RunContexts
  imports RunLegal
begin

text \<open>
  The contexts of a run. The store only grows and cancellations only add to it; the startup context
  and the task done context exist from their publication on; a request to stop that came before is
  applied; a failed setup cancels the startup context, so the \<open>select\<close> never blocks after one.
\<close>

section \<open>Growth of the store\<close>

definition grows :: "'w sys \<Rightarrow> 'w sys \<Rightarrow> bool" where
  "grows s s' \<longleftrightarrow> ctxs_le (s_ctxs s) (s_ctxs s') \<and> (ctxs_wf (s_ctxs s) \<longrightarrow> ctxs_wf (s_ctxs s'))"

lemma grows_same [simp]: "s_ctxs s' = s_ctxs s \<Longrightarrow> grows s s'"
  by (simp add: grows_def)

lemma grows_trans: "grows s t \<Longrightarrow> grows t u \<Longrightarrow> grows s u"
  by (auto simp: grows_def intro: ctxs_le_trans)

lemma grows_length: "grows s s' \<Longrightarrow> c < length (s_ctxs s) \<Longrightarrow> c < length (s_ctxs s')"
  using ctxs_le_length by (fastforce simp: grows_def)

lemma grows_Done: "grows s s' \<Longrightarrow> c < length (s_ctxs s) \<Longrightarrow> ctx_Done (s_ctxs s) c \<Longrightarrow> ctx_Done (s_ctxs s') c"
  using ctxs_le_Done by (auto simp: grows_def)

lemma new_grows: "c < length st \<Longrightarrow> ctxs_wf st \<Longrightarrow> ctxs_wf (fst (ctx_new k (Some c) st))"
  by (rule ctx_new_wf) simp_all

lemma ctx_new_pair:
  assumes "ctx_new k (Some c) st = (st', d)" and "ctxs_wf st" and "c < length st"
  shows "ctxs_le st st' \<and> ctxs_wf st' \<and> d < length st' \<and> c < length st'"
  using new_grows [OF assms(3,2), of k] ctx_new_le [of st k "Some c"] ctx_new_length [of k "Some c" st] assms(1,3)
  by simp

lemma grows_cancel [simp]: "grows s t \<Longrightarrow> grows s (cancel_opt co e t)"
  by (auto simp: grows_def cancel_opt_def intro: ctxs_le_trans split: option.split)

lemma grows_cancel_opt: "grows s (cancel_opt co e s)"
  by simp

lemma grows_on_error [simp]: "grows s t \<Longrightarrow> grows s (on_error st e t)"
  by (auto simp: on_error_def Let_def grows_def cancel_opt_def intro: ctxs_le_trans
      split: step.split option.split)

lemma grows_update [simp]:
  "grows s (s'\<lparr>s_pc := p\<rparr>) = grows s s'" "grows s (s'\<lparr>s_startErr := e\<rparr>) = grows s s'"
  "grows s (s'\<lparr>s_setupErr := eb\<rparr>) = grows s s'" "grows s (s'\<lparr>s_stepCb := b\<rparr>) = grows s s'"
  "grows s (begin_stage st ss s') = grows s s'" "grows s (set_tw r tw s') = grows s s'"
  "grows s (set_phase j ph s') = grows s s'" "grows s (set_go j g s') = grows s s'"
  "grows (s\<lparr>s_setupErr := eb\<rparr>) s' = grows s s'" "grows (s\<lparr>s_stepCb := b\<rparr>) s' = grows s s'"
  "grows (set_tw r tw s) s' = grows s s'"
  by (simp_all add: grows_def)

lemma grows_runManagerCallbacks:
  "stage_doneCtx s st < length (s_ctxs s) \<Longrightarrow> grows s (runManagerCallbacks x st cs s)"
  by (simp add: grows_def runManagerCallbacks_def Let_def split_beta new_grows)

lemma grows_notifyTasksSkipped: "c < length (s_ctxs s) \<Longrightarrow> grows s (notifyTasksSkipped c ss e s)"
  by (simp add: grows_def notifyTasksSkipped_def Let_def split_beta new_grows)

section \<open>References\<close>

definition in_store :: "'w sys \<Rightarrow> ctx option \<Rightarrow> bool" where
  "in_store s co = (case co of None \<Rightarrow> True | Some c \<Rightarrow> c < length (s_ctxs s))"

lemma in_store_simps [simp]: "in_store s None" "in_store s (Some c) = (c < length (s_ctxs s))"
  by (simp_all add: in_store_def)

lemma in_store_grows: "grows s s' \<Longrightarrow> in_store s co \<Longrightarrow> in_store s' co"
  by (cases co) (auto intro: grows_length)

fun before_ctx :: "pc \<Rightarrow> ctx option" where
  "before_ctx (PBeforeRun i co) = co"
| "before_ctx _ = None"

text \<open>The contexts of \<open>runWithStopErrors\<close> exist.\<close>

fun published :: "pc \<Rightarrow> bool" where
  "published (PPending _) = True"
| "published (PRun _ _ _) = True"
| "published PSelect = True"
| "published PWaitTasks = True"
| "published _ = False"

fun unpublished :: "pc \<Rightarrow> bool" where
  "unpublished PIdle = True"
| "unpublished PEntered = True"
| "unpublished (PBeforeRun _ _) = True"
| "unpublished _ = False"

definition refs_inv :: "'w sys \<Rightarrow> bool" where
  "refs_inv s \<longleftrightarrow>
     ctxs_wf (s_ctxs s) \<and> (\<forall>f\<in>set (m_beforeRun (s_mgr s)). before_run_ok f) \<and>
     (s_pc s \<noteq> PIdle \<longrightarrow> s_ctx s < length (s_ctxs s) \<and> s_shutArg s < length (s_ctxs s) \<and>
        s_shutdownCtx s < length (s_ctxs s) \<and> s_teardownCtx s < length (s_ctxs s)) \<and>
     in_store s (s_shutdownOpt s) \<and> in_store s (before_ctx (s_pc s)) \<and>
     in_store s (m_startupCtx (s_mgr s)) \<and> in_store s (m_taskDoneCtx (s_mgr s)) \<and>
     m_startupCancel (s_mgr s) = m_startupCtx (s_mgr s) \<and>
     m_taskDoneCancel (s_mgr s) = m_taskDoneCtx (s_mgr s) \<and>
     (published (s_pc s) \<or> s_gos s \<noteq> [] \<longrightarrow> m_startupCtx (s_mgr s) \<noteq> None \<and> m_taskDoneCtx (s_mgr s) \<noteq> None) \<and>
     (unpublished (s_pc s) \<longrightarrow> m_startupCtx (s_mgr s) = None \<and> m_taskDoneCtx (s_mgr s) = None) \<and>
     (s_pc s = PIdle \<longrightarrow> s_shutArg s = 0 \<and> s_shutdownCtx s = 0 \<and> s_teardownCtx s = 0)"

text \<open>The fields that no action but \<open>Run\<close>'s own steps before the stages changes.\<close>

definition same_refs :: "'w sys \<Rightarrow> 'w sys \<Rightarrow> bool" where
  "same_refs s s' \<longleftrightarrow>
     m_beforeRun (s_mgr s') = m_beforeRun (s_mgr s) \<and> m_startupCtx (s_mgr s') = m_startupCtx (s_mgr s) \<and>
     m_startupCancel (s_mgr s') = m_startupCancel (s_mgr s) \<and> m_taskDoneCtx (s_mgr s') = m_taskDoneCtx (s_mgr s) \<and>
     m_taskDoneCancel (s_mgr s') = m_taskDoneCancel (s_mgr s) \<and> s_ctx s' = s_ctx s \<and>
     s_shutdownOpt s' = s_shutdownOpt s"

lemma refs_invD:
  assumes "refs_inv s"
  shows "ctxs_wf (s_ctxs s)" "f \<in> set (m_beforeRun (s_mgr s)) \<Longrightarrow> before_run_ok f"
    "s_pc s \<noteq> PIdle \<Longrightarrow> s_ctx s < length (s_ctxs s)" "s_pc s \<noteq> PIdle \<Longrightarrow> s_shutArg s < length (s_ctxs s)"
    "s_pc s \<noteq> PIdle \<Longrightarrow> s_shutdownCtx s < length (s_ctxs s)"
    "s_pc s \<noteq> PIdle \<Longrightarrow> s_teardownCtx s < length (s_ctxs s)"
    "in_store s (s_shutdownOpt s)" "in_store s (before_ctx (s_pc s))"
    "in_store s (m_startupCtx (s_mgr s))" "in_store s (m_taskDoneCtx (s_mgr s))"
    "m_startupCancel (s_mgr s) = m_startupCtx (s_mgr s)" "m_taskDoneCancel (s_mgr s) = m_taskDoneCtx (s_mgr s)"
    "published (s_pc s) \<or> s_gos s \<noteq> [] \<Longrightarrow> \<exists>sc. m_startupCtx (s_mgr s) = Some sc"
    "published (s_pc s) \<or> s_gos s \<noteq> [] \<Longrightarrow> \<exists>td. m_taskDoneCtx (s_mgr s) = Some td"
    "unpublished (s_pc s) \<Longrightarrow> m_startupCtx (s_mgr s) = None \<and> m_taskDoneCtx (s_mgr s) = None"
    "s_pc s = PIdle \<Longrightarrow> s_shutArg s = 0 \<and> s_shutdownCtx s = 0 \<and> s_teardownCtx s = 0"
  using assms by (auto simp: refs_inv_def)

lemma stage_ctxs_in_store:
  assumes "refs_inv s" and "s_pc s \<noteq> PIdle"
  shows "stage_ctx s st < length (s_ctxs s)" "stage_doneCtx s st < length (s_ctxs s)"
  using refs_invD(3-6,10) [OF assms(1)] assms(2)
  by (auto simp: stage_ctx_def stage_doneCtx_def split: step.split option.split)

lemma refs_inv_frame:
  assumes inv: "refs_inv s" and same: "same_refs s s'" and gr: "grows s s'"
    and idle: "s_pc s' \<noteq> PIdle \<Longrightarrow> s_pc s \<noteq> PIdle"
    and sd: "s_pc s' \<noteq> PIdle \<Longrightarrow> s_shutArg s' < length (s_ctxs s') \<and> s_shutdownCtx s' < length (s_ctxs s') \<and>
        s_teardownCtx s' < length (s_ctxs s')"
    and bc: "in_store s' (before_ctx (s_pc s'))"
    and pub: "published (s_pc s') \<or> s_gos s' \<noteq> [] \<Longrightarrow> published (s_pc s) \<or> s_gos s \<noteq> []"
    and unpub: "unpublished (s_pc s') \<Longrightarrow> unpublished (s_pc s)"
    and idle0: "s_pc s' = PIdle \<Longrightarrow> s_shutArg s' = 0 \<and> s_shutdownCtx s' = 0 \<and> s_teardownCtx s' = 0"
  shows "refs_inv s'"
proof -
  note d = refs_invD [OF inv]
  have "ctxs_wf (s_ctxs s')" using d(1) gr by (simp add: grows_def)
  then show ?thesis
    using same d idle sd bc pub unpub idle0 grows_length [OF gr] in_store_grows [OF gr] assms(1)
    unfolding refs_inv_def same_refs_def by auto
qed

section \<open>Every step grows the store\<close>

lemma stage_doneCtx_cong:
  "s_shutdownCtx s' = s_shutdownCtx s \<Longrightarrow> s_teardownCtx s' = s_teardownCtx s \<Longrightarrow> s_ctx s' = s_ctx s \<Longrightarrow>
   m_taskDoneCtx (s_mgr s') = m_taskDoneCtx (s_mgr s) \<Longrightarrow> stage_doneCtx s' st = stage_doneCtx s st"
  by (simp add: stage_doneCtx_def split: step.split option.split)

lemma grows_step_callback:
  assumes "stage_doneCtx s st < length (s_ctxs s)"
  shows "grows s (step_callback_once st x s)"
proof -
  have "stage_doneCtx (s\<lparr>s_stepCb := True\<rparr>) st = stage_doneCtx s st" by (rule stage_doneCtx_cong) simp_all
  with assms show ?thesis
    using grows_runManagerCallbacks [of "s\<lparr>s_stepCb := True\<rparr>" st x CallbackStepBefore]
    by (simp add: step_callback_once_def)
qed

lemma wg_add_ctxs [simp]: "s_ctxs (wg_add st x s) = s_ctxs s"
  by (simp add: wg_add_def)

lemma wg_done_ctxs [simp]: "s_ctxs (wg_done st x s) = s_ctxs s" "grows t (wg_done st x s) = grows t s"
  by (simp_all add: wg_done_def grows_def)

lemma grows_spawn:
  "stage_doneCtx s st < length (s_ctxs s) \<Longrightarrow> grows s (spawn r st s)"
  using grows_step_callback [of s st "fst r"] by (auto simp: grows_def spawn_def Let_def)

lemma grows_loop_task:
  assumes "stage_doneCtx s st < length (s_ctxs s)"
  shows "grows s (loop_task st ss i s)"
proof -
  let ?r = "(hd ss, i)"
  obtain tw' res where chk: "checkStartStep (tw_at (s_tasks s) ?r) (s_world s) st = (tw', res)"
    by (meson surj_pair)
  have "stage_doneCtx (set_tw ?r tw' s) st = stage_doneCtx s st" by (rule stage_doneCtx_cong) simp_all
  with assms have "grows (set_tw ?r tw' s) (spawn ?r st (set_tw ?r tw' s))" by (intro grows_spawn) simp
  moreover have "grows (set_tw ?r tw' s) (on_error st e (set_tw ?r tw' s))" for e by simp
  ultimately show ?thesis by (auto simp: loop_task_def chk Let_def split: sum.split)
qed

lemma grows_stage_callbacks_after:
  "stage_doneCtx s st < length (s_ctxs s) \<Longrightarrow> grows s (stage_callbacks_after st x s)"
  by (auto simp: stage_callbacks_after_def intro: grows_runManagerCallbacks)

lemma grows_start_returns: "s_ctx s < length (s_ctxs s) \<Longrightarrow> grows s (start_returns ss e s)"
  using grows_notifyTasksSkipped by (simp add: start_returns_def)

lemma grows_start_loop: "s_ctx s < length (s_ctxs s) \<Longrightarrow> grows s (start_loop ss s)"
  by (auto simp: start_loop_def intro: grows_start_returns)

lemma grows_run_finish: "grows s (run_finish s)"
proof -
  have "grows s (t\<lparr>s_cause := c\<rparr>) = grows s t" for t c by (simp add: grows_def)
  then show ?thesis by (simp add: run_finish_def Let_def)
qed

lemma grows_next_stage: "s_ctx s < length (s_ctxs s) \<Longrightarrow> grows s (next_stage st ss s)"
  using grows_start_returns grows_start_loop grows_run_finish
  by (auto simp: next_stage_def split: step.split)

lemma grows_stage_end:
  assumes "s_ctx s < length (s_ctxs s)" and "stage_doneCtx s st < length (s_ctxs s)"
  shows "grows s (stage_end st ss s)"
proof -
  have a: "grows s (stage_callbacks_after st (hd ss) s)" by (rule grows_stage_callbacks_after [OF assms(2)])
  have "s_ctx (stage_callbacks_after st (hd ss) s) < length (s_ctxs (stage_callbacks_after st (hd ss) s))"
    using grows_length [OF a assms(1)] by simp
  then show ?thesis unfolding stage_end_def by (intro grows_trans [OF a] grows_next_stage)
qed

lemma grows_run_pending:
  assumes "s_ctx s < length (s_ctxs s)"
  shows "grows s (run_pending p s)"
proof (cases p)
  case None
  then show ?thesis using grows_start_loop [OF assms] by (simp add: run_pending_def)
next
  case (Some e)
  let ?s1 = "cancel_opt (m_startupCancel (s_mgr s)) (Some e) s"
  have "s_ctx ?s1 < length (s_ctxs ?s1)" using grows_length [OF grows_cancel_opt assms] by simp
  then show ?thesis
    using Some grows_trans [OF grows_cancel_opt grows_start_loop] by (simp add: run_pending_def)
qed

lemma grows_begin_shutdown:
  assumes wf: "ctxs_wf (s_ctxs s)" and c: "s_ctx s < length (s_ctxs s)" and o: "in_store s (s_shutdownOpt s)"
  shows "grows s (begin_shutdown e s)"
    and "s_shutArg (begin_shutdown e s) < length (s_ctxs (begin_shutdown e s))"
    and "s_shutdownCtx (begin_shutdown e s) < length (s_ctxs (begin_shutdown e s))"
proof -
  define cause where "cause = (if s_startErr s \<noteq> None then s_startErr s else e)"
  define s1 where "s1 = cancel_opt (m_taskDoneCancel (s_mgr s)) cause s"
  have g1: "grows s s1" by (simp add: s1_def)
  have l1: "length (s_ctxs s1) = length (s_ctxs s)" by (simp add: s1_def cancel_opt_def split: option.split)
  have w1: "ctxs_wf (s_ctxs s1)" using g1 wf by (simp add: grows_def)
  obtain c1 base where b: "(case s_shutdownOpt s of
      None \<Rightarrow> ctx_WithoutCancel (s_ctx s) (s_ctxs s1)
    | Some c \<Rightarrow> loggerToContext c (m_logger (s_mgr s)) (s_ctxs s1)) = (c1, base)" by (meson surj_pair)
  have b1: "ctxs_le (s_ctxs s1) c1" "ctxs_wf c1" "base < length c1"
    using b o c l1 ctx_new_pair [OF _ w1, of _ _ c1 base] by (auto simp: loggerToContext_def split: option.splits)
  obtain c2 arg where a: "contextWithCause base cause c1 = (c2, arg)" by (meson surj_pair)
  have a1: "ctxs_le c1 c2" "ctxs_wf c2" "arg < length c2"
    using ctx_new_pair [OF a [unfolded contextWithCause_def] b1(2,3)] by blast+
  obtain c3 sd where d: "(if m_shutdownTimeout (s_mgr s) > 0 then ctx_WithTimeout arg c2 else (c2, arg)) = (c3, sd)"
    by (meson surj_pair)
  have d1: "ctxs_le c2 c3" "ctxs_wf c3" "sd < length c3" "arg < length c3"
    using d a1 ctx_new_pair [OF _ a1(2,3), of KTimeout c3 sd] by (auto split: if_splits)
  have eq: "s_ctxs (begin_shutdown e s) = c3" "s_shutArg (begin_shutdown e s) = arg"
    "s_shutdownCtx (begin_shutdown e s) = sd"
    using b a d unfolding begin_shutdown_def Let_def cause_def [symmetric] s1_def [symmetric] by simp_all
  have "ctxs_le (s_ctxs s) c3" using g1 b1(1) a1(1) d1(1) ctxs_le_trans unfolding grows_def by blast
  with d1 show "grows s (begin_shutdown e s)"
    and "s_shutArg (begin_shutdown e s) < length (s_ctxs (begin_shutdown e s))"
    and "s_shutdownCtx (begin_shutdown e s) < length (s_ctxs (begin_shutdown e s))"
    unfolding grows_def eq by blast+
qed

lemma grows_begin_teardown:
  assumes wf: "ctxs_wf (s_ctxs s)" and "s_shutArg s < length (s_ctxs s)"
    and "s_shutdownCtx s < length (s_ctxs s)"
  shows "grows s (begin_teardown s)"
    and "s_teardownCtx (begin_teardown s) < length (s_ctxs (begin_teardown s))"
  using assms by (auto simp: begin_teardown_def Let_def split_beta grows_def intro!: new_grows)

lemma grows_begin_start_step:
  assumes "ctxs_wf (s_ctxs s)" and "stage_ctx s StepStart < length (s_ctxs s)"
    and "stage_doneCtx s StepStart < length (s_ctxs s)"
  shows "grows s (snd (begin_start_step g s))"
proof -
  let ?opts = "currentOptions (tw_at (s_tasks s) (g_tw g)) (s_world s)"
  define base where "base = (if \<not> cancelContext ?opts then stage_ctx s StepStart else stage_doneCtx s StepStart)"
  have b: "base < length (s_ctxs s)" using assms by (simp add: base_def)
  obtain c1 tc where n1: "ctx_WithCancelCause base (s_ctxs s) = (c1, tc)" by (meson surj_pair)
  obtain c2 wc where n2: "ctx_WithoutCancel tc c1 = (c2, wc)" by (meson surj_pair)
  obtain c3 fc where n3: "ctx_WithCancelCause wc c2 = (c3, fc)" by (meson surj_pair)
  note p1 = ctx_new_pair [OF n1 assms(1) b]
  then have p2: "ctxs_le c1 c2 \<and> ctxs_wf c2 \<and> wc < length c2" using ctx_new_pair [OF n2] by blast
  then have p3: "ctxs_le c2 c3 \<and> ctxs_wf c3" using ctx_new_pair [OF n3] by blast
  have "ctxs_le (s_ctxs s) c3" using p1 p2 p3 ctxs_le_trans by blast
  with p3 n1 n2 n3 show ?thesis
    by (simp add: begin_start_step_def Let_def base_def [symmetric] grows_def)
qed

lemma grows_begin_stop_step:
  assumes "ctxs_wf (s_ctxs s)" and "stage_doneCtx s StepStop < length (s_ctxs s)"
  shows "grows s (snd (begin_stop_step g s))"
  using assms
  by (auto simp: begin_stop_step_def Let_def split_beta grows_def contextWithStartStepManager_def
      intro!: new_grows)

lemma go_begin_ctxs:
  "s_ctxs (go_begin j s) =
     (case g_step (s_gos s ! j) of
        StepStart \<Rightarrow> s_ctxs (snd (begin_start_step (s_gos s ! j) s))
      | StepStop \<Rightarrow> s_ctxs (snd (begin_stop_step (s_gos s ! j) s))
      | _ \<Rightarrow> s_ctxs s)"
  by (simp add: go_begin_def Let_def split_beta split: step.split)

lemma grows_go_begin:
  assumes "refs_inv s" and "s_pc s \<noteq> PIdle"
  shows "grows s (go_begin j s)"
  using grows_begin_start_step [of s "s_gos s ! j"] grows_begin_stop_step [of s "s_gos s ! j"]
    refs_invD(1) [OF assms(1)] stage_ctxs_in_store [OF assms]
  by (simp add: grows_def go_begin_ctxs split: step.split)

lemma grows_request [simp]:
  "grows s (set_mgr_ctxs (Shutdown (s_mgr s, s_ctxs s)) s)"
  "grows s (set_mgr_ctxs (AddTask x t opts w (s_mgr s, s_ctxs s)) s)"
  "grows s (set_mgr_ctxs (AddInitError e (s_mgr s, s_ctxs s)) s)"
  by (auto simp: grows_def set_mgr_ctxs_def Shutdown_def AddTask_def AddInitError_def addInitError_def
      requestStartupCancel_def split: option.split)

lemma grows_run_beforeRun:
  assumes "refs_inv s" and "s_pc s = PBeforeRun i co" and "i < length (m_beforeRun (s_mgr s))"
  shows "grows s (run_beforeRun i co s)" and "in_store (run_beforeRun i co s) (before_ctx (s_pc (run_beforeRun i co s)))"
    and "s_ctx (run_beforeRun i co s) < length (s_ctxs (run_beforeRun i co s))"
proof -
  obtain st' co' er where f: "(m_beforeRun (s_mgr s) ! i) co (s_ctxs s) = (st', co', er)" by (metis prod_cases3)
  have "before_run_ok (m_beforeRun (s_mgr s) ! i)" using refs_invD(2) [OF assms(1)] assms(3) by simp
  then have ok: "ctxs_le (s_ctxs s) st'" "ctxs_wf st'" "\<And>c. co' = Some c \<Longrightarrow> c < length st'"
    using f refs_invD(1,8) [OF assms(1)] assms(2) unfolding before_run_ok_def by (fastforce simp: in_store_def)+
  have c: "s_ctx s < length st'"
    using refs_invD(3) [OF assms(1)] assms(2) ctxs_le_length [OF ok(1)] by simp
  have er: "grows s0 (early_return d e s0) \<and> d < length (s_ctxs (early_return d e s0))"
    if "d < length (s_ctxs s0)" for d e and s0 :: "'a sys"
    using grows_notifyTasksSkipped [OF that, of "s_stages s0" e] grows_length [OF grows_notifyTasksSkipped [OF that] that]
    by (simp add: early_return_def)
  have "grows s (s\<lparr>s_ctxs := st', s_ctx := d\<rparr>)" for d using ok by (simp add: grows_def)
  then have "grows s (early_return d e (s\<lparr>s_ctxs := st', s_ctx := d\<rparr>))" if "d < length st'" for d e
    using er [of d "s\<lparr>s_ctxs := st', s_ctx := d\<rparr>" e] that by (auto intro: grows_trans)
  then show "grows s (run_beforeRun i co s)"
    using f ok
    by (auto simp: run_beforeRun_def grows_def [of s "s\<lparr>s_ctxs := st'\<rparr>"] split: option.split)
  show "in_store (run_beforeRun i co s) (before_ctx (s_pc (run_beforeRun i co s)))"
    using f ok by (auto simp: run_beforeRun_def in_store_def split: option.split)
  show "s_ctx (run_beforeRun i co s) < length (s_ctxs (run_beforeRun i co s))"
    using f ok c er by (auto simp: run_beforeRun_def split: option.split)
qed

lemma grows_run_checks:
  assumes "ctxs_wf (s_ctxs s)" and "s_ctx s < length (s_ctxs s)"
  shows "grows s (run_checks s)" and "s_ctx (run_checks s) < length (s_ctxs (run_checks s))"
    and "in_store (run_checks s) (before_ctx (s_pc (run_checks s)))"
proof -
  have er: "grows s (early_return (s_ctx s) e s)" for e
    using grows_notifyTasksSkipped [OF assms(2)] by (simp add: early_return_def)
  have log: "grows s (s\<lparr>s_ctxs := fst (loggerToContext (s_ctx s) l (s_ctxs s)), s_ctx := d, s_pc := p\<rparr>)" for l d p
    using assms by (simp add: grows_def loggerToContext_def new_grows)
  show "grows s (run_checks s)"
    using er log by (simp add: run_checks_def Let_def split_beta grows_def)
  show "s_ctx (run_checks s) < length (s_ctxs (run_checks s))"
    and "in_store (run_checks s) (before_ctx (s_pc (run_checks s)))"
    using assms(2) grows_length [OF er assms(2)]
    by (simp_all add: run_checks_def Let_def split_beta loggerToContext_def)
qed

section \<open>The invariant\<close>

lemma set_mgr_ctxs_refs [simp]:
  "same_refs s (set_mgr_ctxs (Shutdown (s_mgr s, c)) s)"
  "same_refs s (set_mgr_ctxs (AddTask x t opts w (s_mgr s, c)) s)"
  "same_refs s (set_mgr_ctxs (AddInitError e (s_mgr s, c)) s)"
  by (auto simp: same_refs_def set_mgr_ctxs_def Shutdown_def AddTask_def AddInitError_def
      addInitError_def requestStartupCancel_def split: option.split)

lemma request_ctx_fields [simp]:
  "s_shutArg (set_mgr_ctxs ms s) = s_shutArg s" "s_shutdownCtx (set_mgr_ctxs ms s) = s_shutdownCtx s"
  "s_teardownCtx (set_mgr_ctxs ms s) = s_teardownCtx s"
  "s_shutArg (ssm_user_cancel j e s) = s_shutArg s" "s_shutdownCtx (ssm_user_cancel j e s) = s_shutdownCtx s"
  "s_teardownCtx (ssm_user_cancel j e s) = s_teardownCtx s" "s_ctx (ssm_user_cancel j e s) = s_ctx s"
  "s_shutdownOpt (ssm_user_cancel j e s) = s_shutdownOpt s"
  "s_startErr (set_mgr_ctxs ms s) = s_startErr s" "s_startErr (ssm_user_cancel j e s) = s_startErr s"
  "s_cause (set_mgr_ctxs ms s) = s_cause s" "s_cause (ssm_user_cancel j e s) = s_cause s"
  "s_ctx (set_mgr_ctxs ms s) = s_ctx s" "s_eb (set_mgr_ctxs ms s) = s_eb s"
  by (simp_all add: set_mgr_ctxs_def ssm_user_cancel_def Let_def)

lemma grows_ssm [simp]: "grows s (ssm_user_cancel j e s)"
  by (simp add: grows_def ssm_user_cancel_def ssm_ContextCancel_def Let_def split: option.split)

lemma refs_inv_publish:
  assumes inv: "refs_inv s" and pc: "s_pc s = PBeforeRun i (Some c)"
  shows "refs_inv (run_publish c s)" and "grows s (run_publish c s)"
proof -
  note d = refs_invD [OF inv]
  have c: "c < length (s_ctxs s)" using d(8) pc by simp
  obtain c1 sc where n1: "ctx_WithCancelCause c (s_ctxs s) = (c1, sc)" by (meson surj_pair)
  obtain c2 td where n2: "ctx_WithCancelCause c c1 = (c2, td)" by (meson surj_pair)
  note p1 = ctx_new_pair [OF n1 d(1) c]
  then have p2: "ctxs_le c1 c2 \<and> ctxs_wf c2 \<and> td < length c2 \<and> c < length c2" using ctx_new_pair [OF n2] by blast
  have le: "ctxs_le (s_ctxs s) c2" "length (s_ctxs s) \<le> length c2" "sc < length c2"
    using p1 p2 ctxs_le_trans ctxs_le_length by (blast, blast intro: ctxs_le_trans, fastforce dest: ctxs_le_length)
  show "grows s (run_publish c s)" using le p2 n1 n2 by (simp add: run_publish_def grows_def)
  have "in_store s (s_shutdownOpt s) \<Longrightarrow> in_store (run_publish c s) (s_shutdownOpt s)"
    using le(2) n1 n2 by (auto simp: in_store_def run_publish_def split: option.split)
  then show "refs_inv (run_publish c s)"
    using d(2-7) pc le p2 n1 n2 by (auto simp: refs_inv_def run_publish_def)
qed

text \<open>Every step grows the store.\<close>

lemma step_grows:
  assumes step: "sys_step s a s'" and inv: "refs_inv s" and sch: "sched_inv s"
  shows "grows s s'"
proof -
  note d = refs_invD [OF inv]
  have gi: "s_pc s \<noteq> PIdle" if "j < length (s_gos s)" for j
    using sched_inv_gos_idle [OF sch] that by auto
  from step show ?thesis
  proof (cases rule: sys_step.cases)
    case (st_checks b)
    then show ?thesis using grows_run_checks(1) [OF d(1)] d(3) by simp
  next
    case (st_before i co b)
    then show ?thesis using grows_run_beforeRun(1) [OF inv] by simp
  next
    case (st_publish i c b)
    then show ?thesis using refs_inv_publish(2) [OF inv] by simp
  next
    case (st_pending p b)
    then show ?thesis using d(3) by (simp add: grows_run_pending)
  next
    case (st_loop st ss i b)
    then show ?thesis using stage_ctxs_in_store(2) [OF inv] by (simp add: grows_loop_task)
  next
    case (st_stage_end st ss b)
    then show ?thesis using d(3) stage_ctxs_in_store(2) [OF inv] by (simp add: grows_stage_end)
  next
    case st_select_ctx
    then show ?thesis using grows_begin_shutdown(1) [OF d(1) _ d(7)] d(3) by simp
  next
    case st_select_startup
    then show ?thesis using grows_begin_shutdown(1) [OF d(1) _ d(7)] d(3) by simp
  next
    case st_tasks_done
    then show ?thesis using grows_begin_teardown(1) [OF d(1)] d(4,5) by simp
  next
    case st_tasks_gave_up
    then show ?thesis using grows_begin_teardown(1) [OF d(1)] d(4,5) by simp
  next
    case (st_begin j)
    then show ?thesis using grows_go_begin [OF inv] gi by simp
  next
    case (st_finish j err)
    then show ?thesis by (simp add: go_finish_def)
  next
    case (st_report j err)
    then show ?thesis by (simp add: go_report_def)
  next
    case (st_exit j res)
    then show ?thesis
      by (simp add: go_exit_def Let_def)
  next
    case (st_cancel c ec)
    then show ?thesis using d(1) by (simp add: grows_def ctx_cancel_with_wf)
  next
    case (st_timeout c)
    then show ?thesis by (simp add: grows_def)
  qed (simp_all add: run_enter_def)
qed

lemma same_refs_main [simp]:
  "same_refs s (run_pending p s)" "same_refs s (loop_task st ss i s)" "same_refs s (loop_end st ss s)"
  "same_refs s (stage_waited st ss s)" "same_refs s (stage_end st ss s)" "same_refs s (begin_shutdown e s)"
  "same_refs s (begin_teardown s)" "same_refs s (go_begin j s)" "same_refs s (go_check j s)"
  "same_refs s (go_mark j s)" "same_refs s (go_call j s)" "same_refs s (go_return j e w s)"
  "same_refs s (go_after j e s)" "same_refs s (go_finish j e s)" "same_refs s (go_report j e s)"
  "same_refs s (go_exit j r s)" "same_refs s (ssm_user_cancel j e s)"
  "same_refs s (s\<lparr>s_ctxs := st'\<rparr>)" "same_refs s (s\<lparr>s_world := w\<rparr>)" "same_refs s (s\<lparr>s_pc := p'\<rparr>)"
  by (simp_all add: same_refs_def)

lemma flow_published:
  "flow all pc pc' \<Longrightarrow> published pc \<Longrightarrow> \<not> unpublished pc' \<and> before_ctx pc' = None \<and> pc' \<noteq> PIdle"
  by (induction rule: flow.induct) auto

lemma refs_inv_step:
  assumes step: "sys_step s a s'" and inv: "refs_inv s" and sch: "sched_inv s"
  shows "refs_inv s'"
proof -
  note d = refs_invD [OF inv] and gr = step_grows [OF step inv sch]
  note fr = refs_inv_frame [OF inv _ gr]
  have old: "c < length (s_ctxs s) \<Longrightarrow> c < length (s_ctxs s')" for c using grows_length [OF gr] .
  note keep = old [OF d(4)] old [OF d(5)] old [OF d(6)]
  have gi: "s_pc s \<noteq> PIdle" if "j < length (s_gos s)" for j
    using sched_inv_gos_idle [OF sch] that by auto
  have busy: "s_pc s \<noteq> PIdle" "s_gos s = []" if "s_pc s = PEntered \<or> s_pc s = PBeforeRun i co" for i co
    using sch that by (auto simp: sched_inv_def passed_def neq_Nil_conv)
  from step show ?thesis
  proof (cases rule: sys_step.cases)
    case (st_enter c opt)
    have "s_gos s = []" using sched_inv_gos_idle [OF sch] st_enter by simp
    have "\<not> m_isRunning (s_mgr s)" using sched_invD(3) [OF sch] st_enter by (simp add: idle_manager_def)
    with st_enter d inv \<open>s_gos s = []\<close> show ?thesis
      by (auto simp: refs_inv_def run_enter_def in_store_def split: option.splits)
  next
    case (st_checks b)
    note g = grows_run_checks [OF d(1)]
    have pcs: "\<not> published (s_pc (run_checks s))" "s_pc (run_checks s) \<noteq> PIdle" by (simp_all add: run_checks_def Let_def split_beta)
    from st_checks busy [of 0 None] show ?thesis
      using d inv gr keep g pcs in_store_grows [OF gr]
      by (auto simp: refs_inv_def grows_def)
  next
    case (st_before i co b)
    note g = grows_run_beforeRun [OF inv, of i co]
    have pcs: "\<not> published (s_pc (run_beforeRun i co s))" "s_pc (run_beforeRun i co s) \<noteq> PIdle"
      by (simp_all add: run_beforeRun_def split_beta split: option.split)
    from st_before busy [of i co] show ?thesis
      using d inv gr keep g pcs in_store_grows [OF gr]
      by (auto simp: refs_inv_def grows_def)
  next
    case (st_publish i c b)
    then show ?thesis using refs_inv_publish(1) [OF inv] by simp
  next
    case (st_pending p b)
    with keep sched_flow [OF sch step] flow_published [of "s_stages s" "s_pc s" "s_pc s'"] show ?thesis
      by (intro fr) auto
  next
    case (st_loop st ss i b)
    then show ?thesis using keep by (intro fr) auto
  next
    case (st_stage_end st ss b)
    with keep sched_flow [OF sch step] flow_published [of "s_stages s" "s_pc s" "s_pc s'"] show ?thesis
      by (intro fr) auto
  next
    case st_select_ctx
    then show ?thesis using grows_begin_shutdown [OF d(1) _ d(7)] d(3) keep by (intro fr) auto
  next
    case st_select_startup
    then show ?thesis using grows_begin_shutdown [OF d(1) _ d(7)] d(3) keep by (intro fr) auto
  next
    case st_tasks_done
    then show ?thesis using grows_begin_teardown [OF d(1)] d(4,5) keep by (intro fr) auto
  next
    case st_tasks_gave_up
    then show ?thesis using grows_begin_teardown [OF d(1)] d(4,5) keep by (intro fr) auto
  qed (use keep gi in_store_grows [OF gr d(8)] d(16) in \<open>(intro fr; auto)+\<close>)
qed

section \<open>Cancellation of the startup\<close>

fun shutting :: "pc \<Rightarrow> bool" where
  "shutting (PRun st _ _) = (st = StepStop \<or> st = StepTeardown)"
| "shutting PWaitTasks = True"
| "shutting _ = False"

fun pending_now :: "pc \<Rightarrow> bool" where
  "pending_now (PPending (Some _)) = True"
| "pending_now _ = False"

definition cancel_inv :: "'w sys \<Rightarrow> bool" where
  "cancel_inv s \<longleftrightarrow>
     (m_startupCtx (s_mgr s) \<noteq> None \<and> m_pendingStartupCancel (s_mgr s) \<noteq> None \<longrightarrow>
        startup_done s \<or> pending_now (s_pc s)) \<and>
     (mb_hasErrors (s_setupErr s) \<longrightarrow> startup_done s) \<and> (s_startErr s \<noteq> None \<longrightarrow> startup_done s) \<and>
     (shutting (s_pc s) \<longrightarrow> s_cause s \<noteq> None)"

lemma step_startupCtx:
  assumes "sys_step s a s'" and "refs_inv s" and "m_startupCtx (s_mgr s) = Some c"
  shows "m_startupCtx (s_mgr s') = Some c"
  using assms(1)
proof (cases rule: sys_step.cases)
  case (st_publish i c' b)
  with refs_invD(15) [OF assms(2)] assms(3) show ?thesis by simp
qed (use assms(3) in \<open>auto simp: run_enter_def set_mgr_ctxs_refs [unfolded same_refs_def]\<close>)

lemma startup_done_step:
  assumes "sys_step s a s'" and "refs_inv s" and "sched_inv s" and "startup_done s"
  shows "startup_done s'"
proof -
  obtain c where c: "m_startupCtx (s_mgr s) = Some c" "ctx_Done (s_ctxs s) c"
    using assms(4) by (auto simp: startup_done_def split: option.splits)
  then have "c < length (s_ctxs s)" using refs_invD(9) [OF assms(2)] by simp
  then have "ctx_Done (s_ctxs s') c" using grows_Done [OF step_grows [OF assms(1-3)]] c by blast
  with step_startupCtx [OF assms(1,2) c(1)] show ?thesis by (simp add: startup_done_def)
qed

text \<open>Cancelling the startup context, as the \<open>onError\<close> closures and the requests do.\<close>

lemma startup_done_cancel:
  assumes "m_startupCtx (s_mgr s) = Some c" and "c < length (s_ctxs s)"
    and "m_startupCtx (s_mgr s') = Some c" and "s_ctxs s' = ctx_cancel c e (s_ctxs s)"
  shows "startup_done s'"
  using assms cc.cancel_done [of c "s_ctxs s" e] by (simp add: startup_done_def)

lemma on_error_setup_done:
  assumes "refs_inv s" and "m_startupCtx (s_mgr s) \<noteq> None" and "st = StepSetup" and "e \<noteq> None"
  shows "startup_done (on_error st e s)"
proof -
  obtain c y where "m_startupCtx (s_mgr s) = Some c" "e = Some y" using assms(2,4) by blast
  then show ?thesis
    using assms(3) refs_invD(9,11) [OF assms(1)]
    by (intro startup_done_cancel [of s c _ "Some (newInitializationError y)"])
      (auto simp: on_error_def Let_def cancel_opt_def)
qed

lemma startup_done_cong:
  "m_startupCtx (s_mgr s') = m_startupCtx (s_mgr s) \<Longrightarrow> s_ctxs s' = s_ctxs s \<Longrightarrow> startup_done s' = startup_done s"
  by (simp add: startup_done_def split: option.split)

lemma pending_step:
  assumes "sys_step s a s'" and "refs_inv s" and "m_startupCtx (s_mgr s) = Some c"
  shows "m_pendingStartupCancel (s_mgr s') = m_pendingStartupCancel (s_mgr s)"
  using assms(1)
  by (cases rule: sys_step.cases)
    (use assms(3) refs_invD(11,15) [OF assms(2)] in \<open>auto simp: run_enter_def set_mgr_ctxs_def Shutdown_def AddTask_def
      AddInitError_def addInitError_def requestStartupCancel_def split: option.split\<close>)

lemma loop_task_setup_done:
  assumes "refs_inv s" and "published (s_pc s)" and "mb_hasErrors (s_setupErr (loop_task st ss i s))"
    and "\<not> mb_hasErrors (s_setupErr s)"
  shows "startup_done (loop_task st ss i s)"
proof -
  let ?r = "(hd ss, i)"
  obtain tw' res where chk: "checkStartStep (tw_at (s_tasks s) ?r) (s_world s) st = (tw', res)"
    by (meson surj_pair)
  let ?s1 = "set_tw ?r tw' s"
  obtain e where e: "res = Inl e" "st = StepSetup"
    using assms(3,4) chk by (cases res) (auto simp: loop_task_def Let_def on_error_setup split: if_splits)
  obtain c where c: "m_startupCtx (s_mgr s) = Some c" using refs_invD(13) [OF assms(1)] assms(2) by blast
  have "s_ctxs (loop_task st ss i s) = ctx_cancel c (Some (newInitializationError (FatalError e))) (s_ctxs s)"
    using e c chk refs_invD(11) [OF assms(1)]
    by (simp add: loop_task_def Let_def on_error_def cancel_opt_def)
  with c refs_invD(9) [OF assms(1)] show ?thesis by (intro startup_done_cancel [of s c]) simp_all
qed

lemma run_pending_done:
  assumes "refs_inv s" and "s_pc s = PPending (Some e)" and "s_stages s \<noteq> []"
  shows "startup_done (run_pending (Some e) s)"
proof -
  obtain c where c: "m_startupCtx (s_mgr s) = Some c" using refs_invD(13) [OF assms(1)] assms(2) by auto
  then have "s_ctxs (run_pending (Some e) s) = ctx_cancel c (Some e) (s_ctxs s)"
    using assms(3) refs_invD(11) [OF assms(1)] by (simp add: run_pending_def start_loop_def cancel_opt_def)
  with c refs_invD(9) [OF assms(1)] show ?thesis by (intro startup_done_cancel [of s c]) simp_all
qed

lemma step_setupErr:
  assumes step: "sys_step s a s'" and inv: "refs_inv s" and err: "mb_hasErrors (s_setupErr s')"
    and no: "\<not> mb_hasErrors (s_setupErr s)"
  shows "startup_done s'"
  using step
proof (cases rule: sys_step.cases)
  case (st_pending p b)
  with err no show ?thesis
    by (simp add: run_pending_def start_loop_def mb_hasErrors_def split: if_splits option.splits)
next
  case (st_stage_end st ss b)
  with err no show ?thesis
    by (auto simp: stage_end_def next_stage_def start_loop_def mb_hasErrors_def
        split: if_splits step.splits)
next
  case (st_loop st ss i b)
  then show ?thesis using loop_task_setup_done [OF inv] err no by simp
next
  case (st_report j e)
  have "m_startupCtx (s_mgr s) \<noteq> None" using refs_invD(13) [OF inv] st_report by fastforce
  then have "startup_done (on_error (g_step (s_gos s ! j)) e s)"
    using st_report err no by (intro on_error_setup_done [OF inv]) (auto simp: go_report_setupErr on_error_setup)
  then show ?thesis using st_report by (subst startup_done_cong) (simp_all add: go_report_def)
qed (use err no in simp_all)

lemma startErr_simps [simp]:
  "s_startErr (start_returns ss e s) = e"
  "s_startErr (start_loop ss s) = (if ss = [] then None else s_startErr s)"
  by (simp_all add: start_returns_def start_loop_def)

lemma next_stage_startErr:
  "s_startErr (next_stage st ss s) = s_startErr s \<or> s_startErr (next_stage st ss s) = None \<or> mb_hasErrors (s_setupErr s)"
  by (simp add: next_stage_def split: step.split)

lemma step_startErr:
  assumes "sys_step s a s'" and "s_startErr s' \<noteq> None"
  shows "s_startErr s \<noteq> None \<or> mb_hasErrors (s_setupErr s)"
  using assms(1)
proof (cases rule: sys_step.cases)
  case (st_pending p b)
  with assms(2) show ?thesis
    by (simp add: run_pending_def split: if_splits option.splits)
next
  case (st_stage_end st ss b)
  with assms(2) next_stage_startErr [of st ss "stage_callbacks_after st (hd ss) s"] show ?thesis
    by (auto simp: stage_end_def)
qed (use assms(2) in \<open>simp_all add: run_enter_def split: if_splits\<close>)

lemma shutting_stage_end:
  assumes "shutting (s_pc (next_stage st ss s))" and "step_known st"
  shows "(st = StepStop \<or> st = StepTeardown) \<and> s_cause (next_stage st ss s) = s_cause s"
  using assms by (cases st) (auto simp: next_stage_def start_loop_pc run_finish_def Let_def split: if_splits)

lemma Done_Cause: "ctx_Done st c \<Longrightarrow> \<exists>e. ctx_Cause st c = Some e"
  using ctx_Cause_None [of st c] by (cases "ctx_Cause st c") auto

lemma begin_shutdown_cause:
  "s_cause (begin_shutdown e s) = (if s_startErr s \<noteq> None then s_startErr s else e)"
  by (simp add: begin_shutdown_def Let_def split_beta)

lemma step_cause:
  assumes step: "sys_step s a s'" and sch: "sched_inv s" and sh: "shutting (s_pc s')"
    and old: "shutting (s_pc s) \<longrightarrow> s_cause s \<noteq> None"
  shows "s_cause s' \<noteq> None"
  using step
proof (cases rule: sys_step.cases)
  case (st_stage_end st ss b)
  then show ?thesis
    using shutting_stage_end [of st ss "stage_callbacks_after st (hd ss) s"] sh old sched_invD(2) [OF sch]
    by (auto simp: stage_end_def)
next
  case st_select_ctx
  then show ?thesis by (auto simp: begin_shutdown_cause dest: Done_Cause)
next
  case st_select_startup
  then show ?thesis
    by (auto simp: begin_shutdown_cause startup_done_def startup_cause_def dest: Done_Cause
        split: option.splits)
next
  case (st_pending p b)
  with sh show ?thesis by (simp add: run_pending_def start_loop_pc split: option.splits if_splits)
next
  case (st_checks b)
  with sh show ?thesis by (simp add: run_checks_def Let_def split_beta split: if_splits)
next
  case (st_before i co b)
  with sh show ?thesis by (auto simp: run_beforeRun_def split_beta split: option.splits)
next
  case (st_enter c o1)
  with sh show ?thesis by (simp add: run_enter_def split: if_splits)
next
  case (st_started st ss b)
  with sh old show ?thesis by simp
qed (use sh old in \<open>auto simp: set_mgr_ctxs_def ssm_user_cancel_def Let_def begin_teardown_def split_beta\<close>)

lemma cancel_inv_step:
  assumes step: "sys_step s a s'" and inv: "cancel_inv s" and refs: "refs_inv s" and sch: "sched_inv s"
  shows "cancel_inv s'"
proof -
  note keep = startup_done_step [OF step refs sch]
  have a: "startup_done s' \<or> pending_now (s_pc s')"
    if m: "m_startupCtx (s_mgr s') \<noteq> None" and p: "m_pendingStartupCancel (s_mgr s') \<noteq> None"
  proof (cases "m_startupCtx (s_mgr s)")
    case None
    from step show ?thesis
    proof (cases rule: sys_step.cases)
      case (st_publish i c b)
      then show ?thesis using p by (cases "m_pendingStartupCancel (s_mgr s)") auto
    qed (use None m in \<open>auto simp: run_enter_def set_mgr_ctxs_refs [unfolded same_refs_def]\<close>)
  next
    case (Some c)
    with p pending_step [OF step refs] inv have "startup_done s \<or> pending_now (s_pc s)"
      by (simp add: cancel_inv_def)
    then show ?thesis
    proof
      assume "pending_now (s_pc s)"
      then obtain e where pc: "s_pc s = PPending (Some e)" by (auto elim: pending_now.elims)
      from step show ?thesis
        by (cases rule: sys_step.cases)
          (use pc run_pending_done [OF refs pc sched_invD(12) [OF sch]] in
            \<open>auto simp: set_mgr_ctxs_def ssm_user_cancel_def Let_def\<close>)
    qed (use keep in blast)
  qed
  have b: "startup_done s'" if "mb_hasErrors (s_setupErr s')"
    using step_setupErr [OF step refs that] keep inv by (auto simp: cancel_inv_def)
  have c: "startup_done s'" if "s_startErr s' \<noteq> None"
    using step_startErr [OF step that] keep inv by (auto simp: cancel_inv_def)
  have d: "s_cause s' \<noteq> None" if "shutting (s_pc s')"
    using step_cause [OF step sch that] inv by (simp add: cancel_inv_def)
  from a b c d show ?thesis by (simp add: cancel_inv_def)
qed

section \<open>The contexts of a run\<close>

definition ctx_inv :: "'w sys \<Rightarrow> bool" where
  "ctx_inv s \<longleftrightarrow> run_inv s \<and> refs_inv s \<and> cancel_inv s"

lemma initial_ctx_inv: "initial s \<Longrightarrow> ctx_inv s"
  using initial_run_inv
  by (auto simp: ctx_inv_def refs_inv_def cancel_inv_def initial_def idle_manager_def mb_hasErrors_def)

lemma ctx_inv_step: "ctx_inv s \<Longrightarrow> sys_step s a s' \<Longrightarrow> ctx_inv s'"
  using run_inv_step refs_inv_step cancel_inv_step run_invD(5) unfolding ctx_inv_def by blast

interpretation ctxinv: invariant_machine sys_step initial ctx_inv
  using initial_ctx_inv ctx_inv_step by unfold_locales

lemma reachable_ctx_inv: "reachable s \<Longrightarrow> ctx_inv s"
  unfolding reachable_def using ctxinv.inv_run by blast

lemma ctx_invD:
  assumes "ctx_inv s"
  shows "run_inv s" "refs_inv s" "cancel_inv s" "sched_inv s" "wait_inv s"
  using assms run_invD by (auto simp: ctx_inv_def)

text \<open>A request to stop has been made: it is recorded, or the startup context is cancelled.\<close>

definition stop_requested :: "'w sys \<Rightarrow> bool" where
  "stop_requested s \<longleftrightarrow> m_pendingStartupCancel (s_mgr s) \<noteq> None \<or> startup_done s"

lemma stop_requested_step:
  assumes step: "sys_step s a s'" and inv: "ctx_inv s" and req: "stop_requested s"
  shows "stop_requested s'"
proof (cases "startup_done s")
  case True
  then show ?thesis
    using startup_done_step [OF step] ctx_invD [OF inv] by (simp add: stop_requested_def)
next
  case False
  with req have p: "m_pendingStartupCancel (s_mgr s) \<noteq> None" by (simp add: stop_requested_def)
  have "m_pendingStartupCancel (s_mgr s') \<noteq> None"
    using step
    by (cases rule: sys_step.cases)
      (use p in \<open>auto simp: run_enter_def set_mgr_ctxs_def Shutdown_def AddTask_def
        AddInitError_def addInitError_def requestStartupCancel_def split: option.split\<close>)
  then show ?thesis by (simp add: stop_requested_def)
qed

lemma stop_requested_runs:
  "runs_to sys_step s as s' \<Longrightarrow> ctx_inv s \<Longrightarrow> stop_requested s \<Longrightarrow> ctx_inv s' \<and> stop_requested s'"
  by (induction rule: runs_to.induct) (auto intro: ctx_inv_step stop_requested_step)

lemma stop_requested_select:
  assumes "ctx_inv s" and "stop_requested s" and "s_pc s = PSelect"
  shows "startup_done s"
proof -
  have "m_startupCtx (s_mgr s) \<noteq> None" using refs_invD(13) [OF ctx_invD(2) [OF assms(1)]] assms(3) by auto
  with assms ctx_invD(3) [OF assms(1)] show ?thesis by (auto simp: stop_requested_def cancel_inv_def)
qed

text \<open>\<open>Shutdown\<close>, and a registration that comes too late, are requests.\<close>

lemma request_requests:
  assumes "refs_inv s"
  shows "stop_requested (set_mgr_ctxs (requestStartupCancel e (s_mgr s, s_ctxs s)) s)"
proof (cases "m_startupCtx (s_mgr s)")
  case None
  with refs_invD(11) [OF assms] show ?thesis
    by (simp add: requestStartupCancel_def stop_requested_def set_mgr_ctxs_def)
next
  case (Some c)
  with refs_invD(9,11) [OF assms] have "startup_done (set_mgr_ctxs (requestStartupCancel e (s_mgr s, s_ctxs s)) s)"
    by (intro startup_done_cancel [of s c _ "Some e"]) (simp_all add: requestStartupCancel_def set_mgr_ctxs_def)
  then show ?thesis by (simp add: stop_requested_def)
qed

end
