(* ===== verification/RunProgress.thy ===== *)
theory RunProgress
  imports RunContexts
begin

text \<open>
  Progress and termination. A rank of the state falls with every step of the manager and of its
  goroutines, so they take finitely many between two actions of the outside; and while \<open>Run\<close> has not
  returned, one of them can be taken (a task that is running may return), unless \<open>Run\<close> waits at the
  \<open>select\<close> for a reason to stop.
\<close>

section \<open>The rank\<close>

fun internal :: "'w action \<Rightarrow> bool" where
  "internal (AMain _) = True"
| "internal (AGo _) = True"
| "internal (AReturn _ _ _) = True"
| "internal _ = False"

text \<open>The cost of one step of one stage with \<open>n x\<close> tasks, and of a list of stages.\<close>

definition stage_cost :: "(string \<Rightarrow> nat) \<Rightarrow> string \<Rightarrow> nat" where
  "stage_cost n x = 10 * n x + 3"

definition stages_cost :: "(string \<Rightarrow> nat) \<Rightarrow> string list \<Rightarrow> nat" where
  "stages_cost n xs = sum_list (map (stage_cost n) xs)"

fun at_rank :: "nat \<Rightarrow> run_at \<Rightarrow> nat" where
  "at_rank k (RSpawn i) = 10 * (k - i) + 3"
| "at_rank k RWaitStart = 2"
| "at_rank k RWait = 2"
| "at_rank k RAfter = 1"

definition tasks_rank :: "(string \<Rightarrow> nat) \<Rightarrow> string list \<Rightarrow> nat" where
  "tasks_rank n all = Suc (stages_cost n all)"

definition select_rank :: "(string \<Rightarrow> nat) \<Rightarrow> string list \<Rightarrow> nat" where
  "select_rank n all = Suc (stages_cost n all + tasks_rank n all)"

fun step_rank :: "(string \<Rightarrow> nat) \<Rightarrow> string list \<Rightarrow> step \<Rightarrow> string list \<Rightarrow> nat" where
  "step_rank n all StepSetup ss = stage_cost n (hd ss) + 2 * stages_cost n (tl ss) + select_rank n all"
| "step_rank n all StepStart ss = 2 * stages_cost n (tl ss) + select_rank n all"
| "step_rank n all StepStop ss = stages_cost n (tl ss) + tasks_rank n all"
| "step_rank n all _ ss = stages_cost n (tl ss)"

fun pc_rank :: "(string \<Rightarrow> nat) \<Rightarrow> string list \<Rightarrow> nat \<Rightarrow> pc \<Rightarrow> nat" where
  "pc_rank n all b (PRun st ss at) = at_rank (n (hd ss)) at + step_rank n all st ss"
| "pc_rank n all b PSelect = select_rank n all"
| "pc_rank n all b PWaitTasks = tasks_rank n all"
| "pc_rank n all b (PPending p) = Suc (2 * stages_cost n all + select_rank n all)"
| "pc_rank n all b (PBeforeRun i co) = Suc (Suc (b - i + 2 * stages_cost n all + select_rank n all))"
| "pc_rank n all b PEntered = Suc (Suc (Suc (b + 2 * stages_cost n all + select_rank n all)))"
| "pc_rank n all b PIdle = Suc (Suc (Suc (Suc (b + 2 * stages_cost n all + select_rank n all))))"
| "pc_rank n all b _ = 0"

definition task_count :: "'w sys \<Rightarrow> string \<Rightarrow> nat" where
  "task_count s x = length (stageTasks_get (s_tasks s) x)"

definition gos_rank :: "goroutine list \<Rightarrow> nat" where
  "gos_rank gs = sum_list (map (\<lambda>g. phase_rank (g_phase g)) gs)"

definition main_rank :: "'w sys \<Rightarrow> nat" where
  "main_rank s = pc_rank (task_count s) (s_stages s) (length (m_beforeRun (s_mgr s))) (s_pc s)"

definition sys_rank :: "'w sys \<Rightarrow> nat" where
  "sys_rank s = main_rank s + gos_rank (s_gos s)"

lemma stages_cost_simps [simp]:
  "stages_cost n [] = 0" "stages_cost n (x # xs) = stage_cost n x + stages_cost n xs"
  "stages_cost n (xs @ ys) = stages_cost n xs + stages_cost n ys" "stages_cost n (rev xs) = stages_cost n xs"
  by (simp_all add: stages_cost_def rev_map [symmetric])

lemma stages_cost_tl: "ss \<noteq> [] \<Longrightarrow> stages_cost n (tl ss) + stage_cost n (hd ss) = stages_cost n ss"
  by (cases ss) simp_all

lemma gos_rank_append [simp]: "gos_rank (gs @ [new_goroutine r st]) = gos_rank gs + 9"
  by (simp add: gos_rank_def new_goroutine_def)

lemma sum_list_update:
  fixes f :: "'a \<Rightarrow> nat"
  shows "i < length xs \<Longrightarrow> sum_list (map f (xs[i := x])) + f (xs ! i) = sum_list (map f xs) + f x"
proof (induction xs arbitrary: i)
  case Nil
  then show ?case by simp
next
  case (Cons y ys)
  show ?case
  proof (cases i)
    case 0
    then show ?thesis by simp
  next
    case (Suc k)
    with Cons.IH [of k] Cons.prems show ?thesis by simp
  qed
qed

lemma gos_rank_moved:
  assumes "moved j p s s'" and "j < length (s_gos s)"
  shows "gos_rank (s_gos s') + phase_rank (g_phase (s_gos s ! j)) = gos_rank (s_gos s) + phase_rank p"
proof -
  obtain g' where "s_gos s' = (s_gos s)[j := g']" "g_phase g' = p" using assms(1) by (auto simp: moved_def)
  then show ?thesis
    using sum_list_update [OF assms(2), of "\<lambda>g. phase_rank (g_phase g)" g'] by (simp add: gos_rank_def)
qed

text \<open>The number of tasks of a stage does not change once \<open>Run\<close> has begun.\<close>

lemma step_task_count:
  assumes "sys_step s a s'" and "m_isRunning (s_mgr s)"
  shows "task_count s' x = task_count s x"
  using assms(1)
  by (cases rule: sys_step.cases)
    (simp_all add: task_count_def set_mgr_ctxs_running [OF assms(2)] loop_task_tasks,
     simp_all add: go_begin_def begin_start_step_def begin_stop_step_def go_mark_def go_after_def
       Let_def split_beta split: step.split)

lemma step_beforeRun:
  "sys_step s a s' \<Longrightarrow> m_beforeRun (s_mgr s') = m_beforeRun (s_mgr s)"
  by (induction rule: sys_step.induct)
    (simp_all add: run_enter_def set_mgr_ctxs_refs [unfolded same_refs_def])

section \<open>Every step of the run lowers the rank\<close>

lemma flow_rank:
  assumes "flow all pc pc'" and "pc_ok all pc" and "all \<noteq> []"
    and "\<And>st ss i. pc = PRun st ss (RSpawn i) \<Longrightarrow> pc' = PRun st ss (RSpawn (Suc i)) \<Longrightarrow> i < n (hd ss)"
    and "\<And>i co co'. pc = PBeforeRun i co \<Longrightarrow> pc' = PBeforeRun (Suc i) co' \<Longrightarrow> i < b"
  shows "pc_rank n all b pc' < pc_rank n all b pc"
  using assms
proof (induction rule: flow.induct)
  case (fl_start p)
  then show ?case
    using stages_cost_tl [of all n] by (simp add: stage_cost_def)
next
  case (fl_shutdown)
  then show ?case
    using stages_cost_tl [of "rev all" n] by (simp add: stage_cost_def select_rank_def)
next
  case (fl_teardown)
  then show ?case
    using stages_cost_tl [of "rev all" n] by (simp add: stage_cost_def tasks_rank_def)
next
  case (fl_task st ss i)
  then have "i < n (hd ss)" by blast
  then show ?case by simp
next
  case (fl_before i co co')
  then have "i < b" by blast
  then show ?case by simp
qed (auto simp: stage_cost_def select_rank_def tasks_rank_def)

lemma spawn_drop: "i < n (hd ss) \<Longrightarrow> pc_rank n all b (PRun st ss (RSpawn (Suc i))) + 10 = pc_rank n all b (PRun st ss (RSpawn i))"
  by simp

lemma main_rank_cong:
  assumes "sys_step s a s'" and "m_isRunning (s_mgr s)"
  shows "main_rank s' = pc_rank (task_count s) (s_stages s) (length (m_beforeRun (s_mgr s))) (s_pc s')"
proof -
  have "task_count s' = task_count s" using step_task_count [OF assms] by blast
  then show ?thesis
    using step_beforeRun [OF assms(1)] step_stages [OF assms(1)] by (simp add: main_rank_def)
qed

lemma flow_loop: "flow all (PRun st ss (RSpawn i)) (PRun st' ss' (RSpawn k)) \<Longrightarrow> st' = st \<and> ss' = ss \<and> k = Suc i"
  by (auto elim: flow.cases)

lemma flow_neq: "flow all pc pc' \<Longrightarrow> pc_ok all pc \<Longrightarrow> pc' \<noteq> pc"
  by (induction rule: flow.induct) auto

lemma main_lowers:
  assumes step: "sys_step s (AMain b) s'" and sch: "sched_inv s"
  shows "s_pc s' \<noteq> s_pc s"
  using step
proof (cases rule: sys_step.cases)
  case (st_stage_end st stages)
  have "flow (s_stages s) (PRun st stages RAfter) (s_pc (next_stage st stages (stage_callbacks_after st (hd stages) s)))"
    using next_stage_flow sched_invD(2) [OF sch] st_stage_end by simp
  then show ?thesis
    using st_stage_end flow_neq sched_invD(2) [OF sch] by (metis stage_end_def)
qed (auto simp: run_checks_def run_beforeRun_def run_pending_def start_loop_pc Let_def split_beta
      split: option.split)

lemma step_lowers_rank:
  assumes step: "sys_step s a s'" and int: "internal a" and sch: "sched_inv s"
  shows "sys_rank s' < sys_rank s"
proof -
  have busy: "s_pc s \<noteq> PIdle"
  proof
    assume idle: "s_pc s = PIdle"
    then have "s_gos s = []" using sched_inv_gos_idle [OF sch] by blast
    with step idle int show False by (cases rule: sys_step.cases) auto
  qed
  then have run: "m_isRunning (s_mgr s)" using sched_invD(4) [OF sch] by blast
  note main = main_rank_cong [OF step run]
  have lower: "main_rank s' < main_rank s" if neq: "s_pc s' \<noteq> s_pc s"
    and l: "\<And>st ss i. s_pc s = PRun st ss (RSpawn i) \<Longrightarrow> s_pc s' = PRun st ss (RSpawn (Suc i)) \<Longrightarrow> i < task_count s (hd ss)"
    and bf: "\<And>i co co'. s_pc s = PBeforeRun i co \<Longrightarrow> s_pc s' = PBeforeRun (Suc i) co' \<Longrightarrow> i < length (m_beforeRun (s_mgr s))"
    unfolding main
    using flow_rank [OF _ sched_invD(2,12) [OF sch], of "s_pc s'" "task_count s" "length (m_beforeRun (s_mgr s))"]
      sched_flow [OF sch step] neq l bf by (simp add: main_rank_def)
  from step show ?thesis
  proof (cases rule: step_shape)
    case (move j p)
    then have m: "main_rank s' = main_rank s" using main by (simp add: main_rank_def)
    show ?thesis using gos_rank_moved [OF move(2,1)] move(6) m by (simp add: sys_rank_def)
  next
    case (loop st ss i)
    then have "main_rank s' + 10 = main_rank s"
      using main spawn_drop [of i "task_count s" ss] by (simp add: main_rank_def task_count_def)
    moreover have "gos_rank (s_gos s') \<le> gos_rank (s_gos s) + 9"
      using loop by (simp add: loop_task_gos)
    ultimately show ?thesis by (simp add: sys_rank_def)
  next
    case same
    then obtain b where a: "a = AMain b" using int by (cases a) auto
    have "main_rank s' < main_rank s"
    proof (rule lower)
      show "s_pc s' \<noteq> s_pc s" using main_lowers step a sch by blast
    next
      fix st ss i assume "s_pc s = PRun st ss (RSpawn i)" "s_pc s' = PRun st ss (RSpawn (Suc i))"
      with step a show "i < task_count s (hd ss)"
        by (cases rule: sys_step.cases) (auto simp: task_count_def split: if_splits)
    next
      fix i co co' assume "s_pc s = PBeforeRun i co" "s_pc s' = PBeforeRun (Suc i) co'"
      with step a show "i < length (m_beforeRun (s_mgr s))"
        by (cases rule: sys_step.cases) auto
    qed
    with same(1) show ?thesis by (simp add: sys_rank_def)
  qed
qed

text \<open>So the manager and its goroutines take at most \<open>sys_rank\<close> steps between two outside actions.\<close>

lemma internal_bounded:
  "runs_to sys_step s as s' \<Longrightarrow> sched_inv s \<Longrightarrow> list_all internal as \<Longrightarrow>
   sched_inv s' \<and> length as + sys_rank s' \<le> sys_rank s"
proof (induction rule: runs_to.induct)
  case (runs_nil s)
  then show ?case by simp
next
  case (runs_snoc s as t a u)
  then have "sched_inv t" "length as + sys_rank t \<le> sys_rank s" "internal a" by auto
  with step_lowers_rank [OF runs_snoc.hyps(2)] sched_inv_step [OF _ runs_snoc.hyps(2)] show ?case
    by fastforce
qed

section \<open>Something can happen\<close>

lemma goroutine_enabled:
  assumes "j < length (s_gos s)" and "\<not> done_phase (g_phase (s_gos s ! j))"
  shows "\<exists>a s'. internal a \<and> sys_step s a s'"
proof (cases "g_phase (s_gos s ! j)")
  case GRunning
  have "internal (AReturn j None (s_world s))" by simp
  with st_return [OF assms(1) GRunning] show ?thesis by blast
next
  case (GDone r)
  with assms(2) show ?thesis by simp
qed (use assms(1) internal.simps(2) in \<open>blast intro: st_begin st_check st_mark st_call st_after st_finish st_report st_exit\<close>)+

lemma unfinished_enabled:
  assumes "g \<in> set (s_gos s)" and "\<not> done_phase (g_phase g)"
  shows "\<exists>a s'. internal a \<and> sys_step s a s'"
  using goroutine_enabled assms by (metis in_set_conv_nth)

text \<open>A wait that does not end has a goroutine to wait for.\<close>

lemma waits_enabled:
  assumes "count_inv s" and "wg_count s st x \<noteq> 0"
  shows "\<exists>a s'. internal a \<and> sys_step s a s'"
proof -
  have "filter (waits_for st x) (s_gos s) \<noteq> []" using assms by (auto simp: count_inv_def)
  then obtain g where "g \<in> set (s_gos s)" "waits_for st x g" by (metis filter_empty_conv)
  then show ?thesis using unfinished_enabled by (auto simp: waits_for_def)
qed

lemma start_wait_enabled:
  assumes "count_inv s" and "s_startWg s \<noteq> 0"
  shows "\<exists>a s'. internal a \<and> sys_step s a s'"
proof -
  have "filter not_begun (s_gos s) \<noteq> []" using assms by (auto simp: count_inv_def)
  then obtain g where "g \<in> set (s_gos s)" "not_begun g" by (metis filter_empty_conv)
  then show ?thesis using unfinished_enabled by (fastforce simp: not_begun_def)
qed

fun terminal :: "pc \<Rightarrow> bool" where
  "terminal (PReturned _ _) = True"
| "terminal PPanicked = True"
| "terminal _ = False"

lemma run_enabled:
  assumes at: "pc_ok all (PRun st ss at)" and pc: "s_pc s = PRun st ss at" and cnt: "count_inv s"
  shows "\<exists>a s'. internal a \<and> sys_step s a s'"
proof (cases at)
  case (RSpawn i)
  then show ?thesis using pc st_loop [of s st ss i] st_loop_end [of s st ss i] internal.simps(1) by blast
next
  case RWaitStart
  then show ?thesis
    using pc start_wait_enabled [OF cnt] st_started [of s st ss] internal.simps(1) by blast
next
  case RWait
  then show ?thesis
    using pc waits_enabled [OF cnt] st_waited [of s st ss] internal.simps(1) by blast
next
  case RAfter
  then show ?thesis using pc st_stage_end [of s st ss] internal.simps(1) by blast
qed

lemma progress:
  assumes sch: "sched_inv s" and cnt: "count_inv s" and busy: "s_pc s \<noteq> PIdle" "\<not> terminal (s_pc s)"
    and sel: "s_pc s = PSelect \<Longrightarrow> startup_done s \<or> ctx_Done (s_ctxs s) (s_ctx s)"
  shows "\<exists>a s'. internal a \<and> sys_step s a s'"
proof (cases "s_pc s")
  case PEntered
  then show ?thesis using st_checks internal.simps(1) by blast
next
  case (PBeforeRun i co)
  then show ?thesis
    using st_before [OF PBeforeRun] st_publish [of s i] st_publish_nil [of s i] internal.simps(1)
    by (cases co) blast+
next
  case (PPending p)
  then show ?thesis using st_pending internal.simps(1) by blast
next
  case (PRun st ss at)
  then show ?thesis using run_enabled [OF _ PRun cnt] sched_invD(2) [OF sch] by metis
next
  case PSelect
  then show ?thesis using sel st_select_ctx st_select_startup internal.simps(1) by blast
next
  case PWaitTasks
  show ?thesis
  proof (cases "m_tasksRunning (s_mgr s) = 0")
    case True
    then show ?thesis using PWaitTasks st_tasks_done internal.simps(1) by blast
  next
    case False
    then show ?thesis using waits_enabled [OF cnt, of StepStart] by (simp add: wg_count_def)
  qed
qed (use busy in simp_all)

section \<open>Run returns\<close>

lemma runs_stop:
  assumes "ctx_inv s" and "stop_requested s" and "s_pc s \<noteq> PIdle"
  shows "\<exists>as s'. list_all internal as \<and> runs_to sys_step s as s' \<and> terminal (s_pc s')"
  using assms
proof (induction "sys_rank s" arbitrary: s rule: less_induct)
  case less
  show ?case
  proof (cases "terminal (s_pc s)")
    case True
    moreover have "list_all internal ([] :: 'a action list)" by simp
    ultimately show ?thesis using runs_nil [of sys_step s] by blast
  next
    case False
    note inv = ctx_invD [OF less.prems(1)]
    have "count_inv s" using wait_invD(3) [OF inv(5)] .
    then obtain a t where a: "internal a" "sys_step s a t"
      using progress [OF inv(4) _ less.prems(3) False] stop_requested_select [OF less.prems(1,2)] by blast
    have t: "ctx_inv t" "stop_requested t"
      using ctx_inv_step [OF less.prems(1) a(2)] stop_requested_step [OF a(2) less.prems(1,2)] by auto
    have "s_pc t \<noteq> PIdle"
      using sched_flow [OF inv(4) a(2)] less.prems(3) flow_not_idle by metis
    moreover have "sys_rank t < sys_rank s" using step_lowers_rank [OF a(2,1) inv(4)] .
    ultimately obtain as s' where "list_all internal as" "runs_to sys_step t as s'" "terminal (s_pc s')"
      using less.hyps [of t] t by blast
    then show ?thesis using a runs_to_cons [of sys_step, OF a(2)] by (intro exI [of _ "a # as"]) auto
  qed
qed

text \<open>A nil context from a \<open>beforeRun\<close> callback is the only way into a panic.\<close>

definition keeps_ctx :: "before_run \<Rightarrow> bool" where
  "keeps_ctx f \<longleftrightarrow> (\<forall>c st st' co' err. f (Some c) st = (st', co', err) \<longrightarrow> co' \<noteq> None)"

fun no_panic :: "pc \<Rightarrow> bool" where
  "no_panic PPanicked = False"
| "no_panic (PBeforeRun i co) = (co \<noteq> None)"
| "no_panic _ = True"

definition safe_inv :: "'w sys \<Rightarrow> bool" where
  "safe_inv s \<longleftrightarrow> (\<forall>f\<in>set (m_beforeRun (s_mgr s)). keeps_ctx f) \<and> no_panic (s_pc s)"

lemma safe_inv_step:
  assumes step: "sys_step s a s'" and inv: "safe_inv s"
  shows "safe_inv s'"
proof -
  have np: "no_panic (s_pc s)" and kc: "f \<in> set (m_beforeRun (s_mgr s)) \<Longrightarrow> keeps_ctx f" for f
    using inv by (auto simp: safe_inv_def)
  have "no_panic (s_pc s')"
    using step
  proof (cases rule: sys_step.cases)
    case (st_before i co b)
    then have "keeps_ctx (m_beforeRun (s_mgr s) ! i)" using kc by simp
    moreover obtain c where "co = Some c" using np st_before by auto
    moreover obtain st' co' er where f: "(m_beforeRun (s_mgr s) ! i) co (s_ctxs s) = (st', co', er)" by (metis prod_cases3)
    ultimately obtain d where "co' = Some d" unfolding keeps_ctx_def by (metis not_Some_eq)
    then show ?thesis
      using st_before f by (simp add: run_beforeRun_def split: option.split)
  next
    case (st_stage_end st ss b)
    have "no_panic (s_pc (next_stage st ss t))" for t :: "'a sys"
      using run_finish_pc [of t]
      by (auto simp: next_stage_def start_loop_pc split: step.split)
    with st_stage_end show ?thesis by (simp add: stage_end_def)
  qed (use np in \<open>auto simp: run_enter_def run_checks_def run_pending_def start_loop_pc Let_def split_beta split: option.split\<close>)
  then show ?thesis using inv step_beforeRun [OF step] by (simp add: safe_inv_def)
qed

end
