(* ===== verification/RunResult.thy ===== *)
theory RunResult
  imports RunProgress
begin

text \<open>
  What \<open>Run\<close> returns. The order errors of \<open>checkStartStep\<close> never occur; the errors of the setup
  steps, and only they, make up the setup error, which becomes the cause; no error of a stop or
  teardown step that was waited for is lost.
\<close>

section \<open>The ledger never refuses a step of a run\<close>

lemma run_marks_before:
  assumes sch: "sched_inv s" and pc: "s_pc s = PRun st ss (RSpawn i)" and v: "valid s (hd ss, i)"
    and d: "d \<in> marks s (hd ss, i)"
  shows "step_known d \<and> d < st"
proof -
  note ok = sched_invD [OF sch]
  have known: "step_known d" and ps: "passed (s_stages s) (s_pc s) d (hd ss, i)" using ok(9,10) [OF v d] by auto
  have "pc_ok (s_stages s) (PRun st ss (RSpawn i))" using ok(2) pc by simp
  then have "d \<noteq> st" "\<not> st < d"
    using ps pc not_passed_here [OF _ ok(13)] not_passed_later [of "s_stages s" st ss "RSpawn i" d] known by auto
  with known show ?thesis by auto
qed

lemma run_check_total:
  assumes sch: "sched_inv s" and pc: "s_pc s = PRun st ss (RSpawn i)" and v: "valid s (hd ss, i)"
  shows "\<exists>b. snd (checkStartStep (tw_at (s_tasks s) (hd ss, i)) (s_world s) st) = Inr b"
proof (rule ledger.check_total)
  show "step_known st" using sched_invD(2) [OF sch] pc by simp
  show "\<forall>d\<in>set (tw_executeSteps (tw_at (s_tasks s) (hd ss, i))). d < st"
    using run_marks_before [OF sch pc v] by (auto simp: marks_def)
qed

lemma loop_task_errs:
  assumes sch: "sched_inv s" and pc: "s_pc s = PRun st ss (RSpawn i)"
    and i: "i < length (stageTasks_get (s_tasks s) (hd ss))"
  shows "s_setupErr (loop_task st ss i s) = s_setupErr s" "s_eb (loop_task st ss i s) = s_eb s"
proof -
  have "valid s (hd ss, i)" using i by (simp add: tw_valid_def)
  then obtain tw' b where "checkStartStep (tw_at (s_tasks s) (hd ss, i)) (s_world s) st = (tw', Inr b)"
    using run_check_total [OF sch pc] by (metis prod.collapse)
  then show "s_setupErr (loop_task st ss i s) = s_setupErr s" "s_eb (loop_task st ss i s) = s_eb s"
    by (simp_all add: loop_task_def Let_def)
qed

section \<open>Errors that were reported\<close>

definition reported :: "goroutine \<Rightarrow> go_error option" where
  "reported g = (case g_phase g of GExit (Some e) \<Rightarrow> e | GDone (Some e) \<Rightarrow> e | _ \<Rightarrow> None)"

lemma failed_reported: "failed g \<longleftrightarrow> g_step g = StepSetup \<and> reported g \<noteq> None"
  by (auto simp: failed_def reported_def split: gphase.split option.split)

lemma moved_reported:
  "moved j p s s' \<Longrightarrow> j < length (s_gos s) \<Longrightarrow>
   reported (s_gos s' ! j) = (case p of GExit (Some e) \<Rightarrow> e | GDone (Some e) \<Rightarrow> e | _ \<Rightarrow> None)"
  using moved_at [of j p s s'] by (simp add: reported_def)

definition errs_of :: "(step \<Rightarrow> bool) \<Rightarrow> goroutine list \<Rightarrow> go_error set" where
  "errs_of P gs = {e. \<exists>g\<in>set gs. P (g_step g) \<and> reported g = Some e}"

text \<open>A step of a goroutine reports at most the error it reports.\<close>

lemma errs_of_moved:
  assumes mv: "moved j p s s'" and j: "j < length (s_gos s)" and no: "reported (s_gos s ! j) = None \<or> reported (s_gos s' ! j) = reported (s_gos s ! j)"
  shows "errs_of P (s_gos s') = errs_of P (s_gos s) \<union>
    (if P (g_step (s_gos s ! j)) then set_option (reported (s_gos s' ! j)) else {})"
proof -
  have st: "g_step (s_gos s' ! j) = g_step (s_gos s ! j)" using moved_at [OF mv j] by (simp add: g_key_def)
  have len: "length (s_gos s') = length (s_gos s)" using moved_length [OF mv] .
  have nth: "s_gos s' ! i = s_gos s ! i" if "i < length (s_gos s)" "i \<noteq> j" for i using moved_nth [OF mv that] .
  show ?thesis
  proof (intro equalityI subsetI)
    fix e assume "e \<in> errs_of P (s_gos s')"
    then obtain i where i: "i < length (s_gos s')" "P (g_step (s_gos s' ! i))" "reported (s_gos s' ! i) = Some e"
      by (auto simp: errs_of_def in_set_conv_nth)
    show "e \<in> errs_of P (s_gos s) \<union> (if P (g_step (s_gos s ! j)) then set_option (reported (s_gos s' ! j)) else {})"
    proof (cases "i = j")
      case True
      with i st show ?thesis by simp
    next
      case False
      with i nth len have "i < length (s_gos s)" "P (g_step (s_gos s ! i))" "reported (s_gos s ! i) = Some e" by auto
      then show ?thesis by (auto simp: errs_of_def)
    qed
  next
    fix e assume "e \<in> errs_of P (s_gos s) \<union> (if P (g_step (s_gos s ! j)) then set_option (reported (s_gos s' ! j)) else {})"
    then consider "e \<in> errs_of P (s_gos s)" | "P (g_step (s_gos s ! j))" "reported (s_gos s' ! j) = Some e"
      by (auto split: if_splits)
    then show "e \<in> errs_of P (s_gos s')"
    proof cases
      case 1
      then obtain i where i: "i < length (s_gos s)" "P (g_step (s_gos s ! i))" "reported (s_gos s ! i) = Some e"
        by (auto simp: errs_of_def in_set_conv_nth)
      have "P (g_step (s_gos s' ! i)) \<and> reported (s_gos s' ! i) = Some e"
        using i no nth st by (cases "i = j") auto
      moreover have "s_gos s' ! i \<in> set (s_gos s')" using i(1) len by simp
      ultimately show ?thesis unfolding errs_of_def by blast
    next
      case 2
      moreover have "s_gos s' ! j \<in> set (s_gos s')" using j len by simp
      moreover have "P (g_step (s_gos s' ! j))" using 2 st by simp
      ultimately show ?thesis unfolding errs_of_def by blast
    qed
  qed
qed

definition phase_report :: "gphase \<Rightarrow> go_error option" where
  "phase_report p = (case p of GExit (Some e) \<Rightarrow> e | GDone (Some e) \<Rightarrow> e | _ \<Rightarrow> None)"

lemma reported_phase: "reported g = phase_report (g_phase g)"
  by (simp add: reported_def phase_report_def)

lemma errs_of_quiet:
  assumes "moved j p s s'" and "j < length (s_gos s)" and "phase_report p = phase_report (g_phase (s_gos s ! j))"
  shows "errs_of P (s_gos s') = errs_of P (s_gos s)"
proof -
  have r: "reported (s_gos s' ! j) = reported (s_gos s ! j)"
    using moved_at [OF assms(1,2)] assms(3) by (simp add: reported_phase)
  have "e \<in> errs_of P (s_gos s)" if "P (g_step (s_gos s ! j))" "reported (s_gos s ! j) = Some e" for e
    using that nth_mem [OF assms(2)] unfolding errs_of_def by blast
  then show ?thesis using errs_of_moved [OF assms(1,2), of P] r by auto
qed

lemma go_errs:
  assumes "j < length (s_gos s)"
  shows "g_phase (s_gos s ! j) = GNew \<Longrightarrow> errs_of P (s_gos (go_begin j s)) = errs_of P (s_gos s)"
    and "g_phase (s_gos s ! j) = GReady \<Longrightarrow> errs_of P (s_gos (go_check j s)) = errs_of P (s_gos s)"
    and "g_phase (s_gos s ! j) = GBefore \<Longrightarrow> errs_of P (s_gos (go_mark j s)) = errs_of P (s_gos s)"
    and "g_phase (s_gos s ! j) = GMarked \<Longrightarrow> errs_of P (s_gos (go_call j s)) = errs_of P (s_gos s)"
    and "g_phase (s_gos s ! j) = GRunning \<Longrightarrow> errs_of P (s_gos (go_return j e w s)) = errs_of P (s_gos s)"
    and "g_phase (s_gos s ! j) = GReturned e \<Longrightarrow> errs_of P (s_gos (go_after j e s)) = errs_of P (s_gos s)"
    and "g_phase (s_gos s ! j) = GAfter e \<Longrightarrow> errs_of P (s_gos (go_finish j e s)) = errs_of P (s_gos s)"
    and "g_phase (s_gos s ! j) = GFinished e \<Longrightarrow> errs_of P (s_gos (go_report j e s)) =
      errs_of P (s_gos s) \<union> (if P (g_step (s_gos s ! j)) then set_option e else {})"
    and "g_phase (s_gos s ! j) = GExit res \<Longrightarrow> errs_of P (s_gos (go_exit j res s)) = errs_of P (s_gos s)"
proof -
  note q = errs_of_quiet [OF _ assms]
  obtain e' where m: "moved j (GReturned e') s (go_return j e w s)"
    using go_moved(5) [where j = j and s = s and err = e and w = w] by blast
  show "g_phase (s_gos s ! j) = GNew \<Longrightarrow> errs_of P (s_gos (go_begin j s)) = errs_of P (s_gos s)"
    "g_phase (s_gos s ! j) = GReady \<Longrightarrow> errs_of P (s_gos (go_check j s)) = errs_of P (s_gos s)"
    "g_phase (s_gos s ! j) = GBefore \<Longrightarrow> errs_of P (s_gos (go_mark j s)) = errs_of P (s_gos s)"
    "g_phase (s_gos s ! j) = GMarked \<Longrightarrow> errs_of P (s_gos (go_call j s)) = errs_of P (s_gos s)"
    "g_phase (s_gos s ! j) = GRunning \<Longrightarrow> errs_of P (s_gos (go_return j e w s)) = errs_of P (s_gos s)"
    "g_phase (s_gos s ! j) = GReturned e \<Longrightarrow> errs_of P (s_gos (go_after j e s)) = errs_of P (s_gos s)"
    "g_phase (s_gos s ! j) = GAfter e \<Longrightarrow> errs_of P (s_gos (go_finish j e s)) = errs_of P (s_gos s)"
    "g_phase (s_gos s ! j) = GExit res \<Longrightarrow> errs_of P (s_gos (go_exit j res s)) = errs_of P (s_gos s)"
    using q [OF go_moved(1)] q [OF go_moved(2)] q [OF go_moved(3)] q [OF go_moved(4)] q [OF m]
      q [OF go_moved(6)] q [OF go_moved(7)] q [OF go_moved(9)]
    by (simp_all add: phase_report_def split: option.split)
  show "g_phase (s_gos s ! j) = GFinished e \<Longrightarrow> errs_of P (s_gos (go_report j e s)) =
      errs_of P (s_gos s) \<union> (if P (g_step (s_gos s ! j)) then set_option e else {})"
    using errs_of_moved [OF go_moved(8) assms, of e P] moved_at [OF go_moved(8) assms, of e]
    by (simp add: reported_phase phase_report_def)
qed

text \<open>What a step does to the set of reported errors.\<close>

lemma step_errs:
  assumes "sys_step s a s'"
  obtains (same) "\<And>P. errs_of P (s_gos s') = errs_of P (s_gos s)"
  | (report) j e where "j < length (s_gos s)" "g_phase (s_gos s ! j) = GFinished e" "s' = go_report j e s"
      "\<And>P. errs_of P (s_gos s') = errs_of P (s_gos s) \<union> (if P (g_step (s_gos s ! j)) then set_option e else {})"
proof -
  have "(\<forall>P. errs_of P (s_gos s') = errs_of P (s_gos s)) \<or>
    (\<exists>j e. j < length (s_gos s) \<and> g_phase (s_gos s ! j) = GFinished e \<and> s' = go_report j e s)"
    using assms
  proof (cases rule: sys_step.cases)
    case (st_loop st ss i b)
    then show ?thesis by (auto simp: errs_of_def loop_task_gos reported_def new_goroutine_def)
  qed (simp_all add: go_errs, blast)
  then show ?thesis using same report go_errs(8) by metis
qed

section \<open>The setup error\<close>

abbreviation setup_errs :: "'w sys \<Rightarrow> go_error set" where
  "setup_errs s \<equiv> errs_of (\<lambda>st. st = StepSetup) (s_gos s)"

text \<open>\<open>start\<close> returned a nil error exactly when no setup failed, else one made of the failures.\<close>

definition start_err_ok :: "'w sys \<Rightarrow> bool" where
  "start_err_ok s \<longleftrightarrow>
     (if setup_errs s = {} then s_startErr s = None
      else \<exists>eb. set eb = newInitializationError ` setup_errs s \<and> s_startErr s = mb_build eb)"

definition returned_cause :: "'w sys \<Rightarrow> go_error option \<Rightarrow> go_error option \<Rightarrow> go_error option" where
  "returned_cause s cause stopErr =
     fold (\<lambda>f c. f (s_ctx s) c stopErr) (m_afterRun (s_mgr s)) (run_cause cause stopErr)"

definition result_inv :: "'w sys \<Rightarrow> bool" where
  "result_inv s \<longleftrightarrow>
     (case s_pc s of
        PRun st ss at \<Rightarrow>
          if st = StepSetup then set (s_setupErr s) = newInitializationError ` setup_errs s
          else if st = StepStart then setup_errs s = {}
          else start_err_ok s \<and> (s_startErr s \<noteq> None \<longrightarrow> s_cause s = s_startErr s)
      | PSelect \<Rightarrow> start_err_ok s
      | PWaitTasks \<Rightarrow> start_err_ok s \<and> (s_startErr s \<noteq> None \<longrightarrow> s_cause s = s_startErr s)
      | PReturned c se \<Rightarrow>
          m_startupCtx (s_mgr s) \<noteq> None \<longrightarrow>
          start_err_ok s \<and> (s_startErr s \<noteq> None \<longrightarrow> c = returned_cause s (s_startErr s) se)
      | _ \<Rightarrow> True)"

lemma result_inv_frame:
  assumes "result_inv s" and "s_pc s' = s_pc s" and "s_startErr s' = s_startErr s" and "s_cause s' = s_cause s"
    and "s_setupErr s' = s_setupErr s" and "s_ctx s' = s_ctx s" and "m_afterRun (s_mgr s') = m_afterRun (s_mgr s)"
    and "m_startupCtx (s_mgr s') = m_startupCtx (s_mgr s)" and "setup_errs s' = setup_errs s"
  shows "result_inv s'"
proof -
  have "start_err_ok s' = start_err_ok s" using assms by (simp add: start_err_ok_def)
  moreover have "returned_cause s' c se = returned_cause s c se" for c se
    using assms by (simp add: returned_cause_def)
  ultimately show ?thesis using assms by (cases "s_pc s") (simp_all add: result_inv_def)
qed

lemma result_inv_at:
  assumes "result_inv s" and "s_pc s = PRun st ss at" and "s_pc s' = PRun st ss at'"
    and "s_startErr s' = s_startErr s" and "s_cause s' = s_cause s" and "s_setupErr s' = s_setupErr s"
    and "setup_errs s' = setup_errs s"
  shows "result_inv s'"
proof -
  have "start_err_ok s' = start_err_ok s" using assms by (simp add: start_err_ok_def)
  then show ?thesis using assms by (simp add: result_inv_def)
qed

text \<open>A setup goroutine reports inside its stage.\<close>

lemma setup_report_pc:
  assumes bar: "barrier_inv s" and j: "j < length (s_gos s)" and ph: "g_phase (s_gos s ! j) = GFinished e"
    and st: "g_step (s_gos s ! j) = StepSetup"
  obtains ss at where "s_pc s = PRun StepSetup ss at"
proof -
  have "in_stage (s_pc s) StepSetup (fst (g_tw (s_gos s ! j)))"
    using bar j ph st by (auto simp: barrier_inv_def waited_def dest: bspec [OF _ nth_mem])
  then show ?thesis using in_stage_run that by blast
qed

lemma mb_add_initialization: "mb_add (Some (newInitializationError e)) eb = eb @ [newInitializationError e]"
  by (simp add: newInitializationError_def)

lemma result_inv_report:
  assumes inv: "result_inv s" and bar: "barrier_inv s" and j: "j < length (s_gos s)"
    and ph: "g_phase (s_gos s ! j) = GFinished e"
  shows "result_inv (go_report j e s)"
proof (cases "g_step (s_gos s ! j) = StepSetup")
  case True
  then obtain ss at where pc: "s_pc s = PRun StepSetup ss at" using setup_report_pc [OF bar j ph] by blast
  have "set (s_setupErr (go_report j e s)) = newInitializationError ` setup_errs (go_report j e s)"
    using inv pc True go_errs(8) [OF j ph, of "\<lambda>st. st = StepSetup"]
    by (cases e) (auto simp: result_inv_def go_report_setupErr on_error_def Let_def mb_add_initialization)
  with pc show ?thesis by (simp add: result_inv_def)
next
  case False
  have "setup_errs (go_report j e s) = setup_errs s" using go_errs(8) [OF j ph] False by simp
  moreover have "s_setupErr (on_error st e s) = s_setupErr s" if "st \<noteq> StepSetup" for st
    using that by (simp add: on_error_def split: step.split option.split)
  ultimately show ?thesis
    by (intro result_inv_frame [OF inv]) (simp_all add: go_report_setupErr False)
qed

text \<open>The end of a stage.\<close>

lemma start_loop_setupErr [simp]: "s_setupErr (start_loop ss s) = (if ss = [] then s_setupErr s else [])"
  by (simp add: start_loop_def)

lemma result_inv_next_stage:
  assumes inv: "result_inv s" and pc: "s_pc s = PRun st ss RAfter" and known: "step_known st"
  shows "result_inv (next_stage st ss s)"
proof (cases st)
  case StepSetup
  then show ?thesis
    using inv pc
    by (auto simp: result_inv_def next_stage_def start_err_ok_def mb_hasErrors_def
        intro!: exI [of _ "s_setupErr s"])
next
  case StepStart
  then show ?thesis
    using inv pc by (auto simp: result_inv_def next_stage_def start_err_ok_def start_loop_pc)
next
  case StepStop
  then show ?thesis using inv pc
    by (auto simp: result_inv_def next_stage_def start_err_ok_def begin_stage_def)
next
  case StepTeardown
  have fin: "s_pc (run_finish s) = PReturned (returned_cause s (s_cause s) (shutdown_errors s)) (shutdown_errors s)"
    by (simp add: run_finish_def Let_def returned_cause_def)
  show ?thesis using inv pc StepTeardown
    by (auto simp: result_inv_def next_stage_def start_err_ok_def begin_stage_def fin returned_cause_def)
next
  case (StepOther x)
  with known show ?thesis by simp
qed

lemma request_fields:
  "m_afterRun (s_mgr (set_mgr_ctxs (Shutdown (s_mgr s, c)) s)) = m_afterRun (s_mgr s)"
  "m_startupCtx (s_mgr (set_mgr_ctxs (Shutdown (s_mgr s, c)) s)) = m_startupCtx (s_mgr s)"
  "m_afterRun (s_mgr (set_mgr_ctxs (AddTask x t opts w (s_mgr s, c)) s)) = m_afterRun (s_mgr s)"
  "m_startupCtx (s_mgr (set_mgr_ctxs (AddTask x t opts w (s_mgr s, c)) s)) = m_startupCtx (s_mgr s)"
  "m_afterRun (s_mgr (set_mgr_ctxs (AddInitError e (s_mgr s, c)) s)) = m_afterRun (s_mgr s)"
  "m_startupCtx (s_mgr (set_mgr_ctxs (AddInitError e (s_mgr s, c)) s)) = m_startupCtx (s_mgr s)"
  by (auto simp: set_mgr_ctxs_def Shutdown_def AddTask_def AddInitError_def addInitError_def
      requestStartupCancel_def split: option.split)

lemma result_inv_step:
  assumes step: "sys_step s a s'" and inv: "result_inv s" and ctx: "ctx_inv s"
  shows "result_inv s'"
proof -
  note sch = ctx_invD(4) [OF ctx] and refs = ctx_invD(2) [OF ctx]
  have bar: "barrier_inv s" using wait_invD(4) [OF ctx_invD(5) [OF ctx]] .
  have none: "m_startupCtx (s_mgr s) = None" if "unpublished (s_pc s)" using refs_invD(15) [OF refs that] by blast
  note fr = result_inv_frame [OF inv]
  from step show ?thesis
  proof (cases rule: sys_step.cases)
    case (st_enter c opt)
    then show ?thesis using none by (auto simp: result_inv_def run_enter_def)
  next
    case (st_checks b)
    then show ?thesis using none by (auto simp: result_inv_def run_checks_def early_return_def Let_def split_beta)
  next
    case (st_before i co b)
    then show ?thesis using none
      by (auto simp: result_inv_def run_beforeRun_def early_return_def split_beta split: option.split)
  next
    case (st_pending p b)
    have "s_gos s = []" using sch st_pending by (auto simp: sched_inv_def passed_def neq_Nil_conv)
    then have "setup_errs s = {}" by (simp add: errs_of_def)
    with st_pending sched_invD(12) [OF sch] show ?thesis
      by (auto simp: result_inv_def run_pending_def start_loop_pc split: option.split)
  next
    case (st_loop st ss i b)
    have "setup_errs (loop_task st ss i s) = setup_errs s"
      by (auto simp: errs_of_def loop_task_gos reported_def new_goroutine_def)
    then show ?thesis
      using st_loop loop_task_errs [OF sch] by (intro result_inv_at [OF inv st_loop(3)]) simp_all
  next
    case (st_stage_end st ss b)
    let ?s1 = "stage_callbacks_after st (hd ss) s"
    have "result_inv ?s1" by (rule fr) simp_all
    moreover have "step_known st" using sched_invD(2) [OF sch] st_stage_end by simp
    ultimately show ?thesis using result_inv_next_stage [of ?s1 st ss] st_stage_end by (simp add: stage_end_def)
  next
    case st_select_ctx
    then show ?thesis using inv by (auto simp: result_inv_def start_err_ok_def begin_shutdown_cause)
  next
    case st_select_startup
    then show ?thesis using inv by (auto simp: result_inv_def start_err_ok_def begin_shutdown_cause)
  next
    case st_tasks_done
    then show ?thesis using inv
      by (auto simp: result_inv_def start_err_ok_def begin_teardown_def Let_def split_beta)
  next
    case st_tasks_gave_up
    then show ?thesis using inv
      by (auto simp: result_inv_def start_err_ok_def begin_teardown_def Let_def split_beta)
  next
    case (st_report j err)
    then show ?thesis using result_inv_report [OF inv bar] by simp
  next
    case (st_shutdown)
    then show ?thesis by (intro fr) (simp_all add: request_fields)
  next
    case (st_add_task)
    then show ?thesis by (intro fr) (simp_all add: request_fields)
  next
    case (st_add_error)
    then show ?thesis by (intro fr) (simp_all add: request_fields)
  next
    case (st_publish i c b)
    then show ?thesis by (simp add: result_inv_def)
  next
    case (st_publish_nil i b)
    then show ?thesis by (simp add: result_inv_def)
  next
    case (st_loop_end st ss i b)
    then show ?thesis by (intro result_inv_at [OF inv st_loop_end(3)]) simp_all
  next
    case (st_started st ss b)
    then show ?thesis by (intro result_inv_at [OF inv st_started(3)]) simp_all
  next
    case (st_waited st ss)
    then show ?thesis by (intro result_inv_at [OF inv st_waited(3)]) simp_all
  next
    case (st_gave_up st ss)
    then show ?thesis by (intro result_inv_at [OF inv st_gave_up(3)]) simp_all
  qed (simp_all, (rule fr; simp add: go_errs)+)
qed

section \<open>The cause \<open>Run\<close> returns\<close>

lemma unwrap_is [simp]: "errors_Is (unwrapInternalErrors eo) t \<longleftrightarrow> errors_Is eo t"
  by (cases eo rule: unwrapInternalErrors.cases) simp_all

lemma run_cause_keeps:
  "\<not> errors_Is cause (Defs ErrExit) \<Longrightarrow> errors_Is cause t \<Longrightarrow> errors_Is (run_cause cause stopErr) t"
  by (cases cause) (auto simp: run_cause_def Let_def errors_Join_def split: option.split)

lemma run_cause_fatal:
  "errors_As_fatal stopErr = Some f \<Longrightarrow> err_is t f \<Longrightarrow> errors_Is (run_cause cause stopErr) t"
  by (auto simp: run_cause_def Let_def errors_Join_def split: option.split)

lemma run_cause_exit:
  "errors_Is cause (Defs ErrExit) \<Longrightarrow> errors_As_fatal stopErr = None \<Longrightarrow> run_cause cause stopErr = None"
  by (simp add: run_cause_def)

lemma run_cause_plain:
  "\<not> errors_Is cause (Defs ErrExit) \<Longrightarrow> errors_As_fatal stopErr = None \<Longrightarrow>
   run_cause cause stopErr = unwrapInternalErrors cause"
  by (simp add: run_cause_def)

lemma err_is_initialization [simp]:
  "err_is t (newInitializationError e) \<longleftrightarrow> t = Defs ErrInitialization \<or> err_is t e"
  by (auto simp: newInitializationError_def)

lemma start_err_is:
  assumes "start_err_ok s" and "setup_errs s \<noteq> {}"
  shows "errors_Is (s_startErr s) t \<longleftrightarrow> t = Defs ErrInitialization \<or> (\<exists>e\<in>setup_errs s. err_is t e)"
    and "s_startErr s \<noteq> None"
  using assms by (auto simp: start_err_ok_def mb_build_def list_ex_iff)

section \<open>Errors of the stop and teardown steps\<close>

definition stop_step :: "step \<Rightarrow> bool" where
  "stop_step st \<longleftrightarrow> st = StepStop \<or> st = StepTeardown"

definition waited_stop :: "bool \<Rightarrow> step \<Rightarrow> bool" where
  "waited_stop enforce st \<longleftrightarrow> st = StepTeardown \<or> st = StepStop \<and> \<not> enforce"

definition covers :: "go_error option \<Rightarrow> go_error set \<Rightarrow> bool" where
  "covers eo E \<longleftrightarrow> (\<forall>e\<in>E. \<forall>t. err_is t e \<longrightarrow> errors_Is eo t)"

definition eb_inv :: "'w sys \<Rightarrow> bool" where
  "eb_inv s \<longleftrightarrow>
     (case s_pc s of
        PReturned c se \<Rightarrow> covers se (errs_of (waited_stop (m_enforceShutdownTimeout (s_mgr s))) (s_gos s))
      | _ \<Rightarrow> covers (mb_build (s_eb s)) (errs_of stop_step (s_gos s)))"

lemma covers_mono: "covers eo E \<Longrightarrow> (\<And>t. errors_Is eo t \<Longrightarrow> errors_Is eo' t) \<Longrightarrow> E' \<subseteq> E \<Longrightarrow> covers eo' E'"
  by (auto simp: covers_def)

lemma covers_add: "errors_Is (mb_build eb) t \<Longrightarrow> errors_Is (mb_build (mb_add eo eb)) t"
  using mb.is_add by (cases eo) (auto simp: mb.add_nil)

lemma waited_stop_subset: "errs_of (waited_stop b) gs \<subseteq> errs_of stop_step gs"
  by (auto simp: errs_of_def waited_stop_def stop_step_def)

lemma eb_inv_frame:
  assumes "eb_inv s" and "s_pc s' = s_pc s"
    and "m_enforceShutdownTimeout (s_mgr s') = m_enforceShutdownTimeout (s_mgr s)"
    and "\<And>P. errs_of P (s_gos s') = errs_of P (s_gos s)"
    and "\<And>t. errors_Is (mb_build (s_eb s)) t \<Longrightarrow> errors_Is (mb_build (s_eb s')) t"
  shows "eb_inv s'"
  using assms covers_mono [of "mb_build (s_eb s)" _ "mb_build (s_eb s')"]
  by (cases "s_pc s") (auto simp: eb_inv_def)

lemma errs_of_empty: "errs_of P [] = {}"
  by (simp add: errs_of_def)

lemma covers_empty [simp]: "covers eo {}"
  by (simp add: covers_def)

lemma no_stop_errs:
  assumes sch: "sched_inv s" and pc: "s_pc s = PSelect"
  shows "errs_of stop_step (s_gos s) = {}"
proof -
  have "\<not> stop_step (g_step g)" if "g \<in> set (s_gos s)" for g
    using sched_invD(8) [OF sch that] pc by (auto simp: passed_def stop_step_def)
  then show ?thesis by (auto simp: errs_of_def)
qed

lemma run_finish_covers:
  assumes "covers (mb_build (s_eb s)) (errs_of stop_step (s_gos s))"
  shows "eb_inv (run_finish s)"
proof -
  have pc: "\<exists>c. s_pc (run_finish s) = PReturned c (shutdown_errors s)"
    by (simp add: run_finish_def Let_def)
  have "errors_Is (mb_build (s_eb s)) t \<Longrightarrow> errors_Is (shutdown_errors s) t" for t
    by (simp add: shutdown_errors_def covers_add)
  then have "covers (shutdown_errors s) (errs_of (waited_stop b) (s_gos s))" for b
    using covers_mono [OF assms _ waited_stop_subset] by blast
  with pc show ?thesis by (auto simp: eb_inv_def)
qed

lemma on_error_eb:
  "s_eb (on_error st e s) = (if st = StepSetup \<or> st = StepStart then s_eb s else mb_add e (s_eb s))"
  by (simp add: on_error_def Let_def split: step.split option.split)

lemma eb_inv_report:
  assumes inv: "eb_inv s" and bar: "barrier_inv s" and j: "j < length (s_gos s)"
    and ph: "g_phase (s_gos s ! j) = GFinished e"
  shows "eb_inv (go_report j e s)"
proof -
  let ?st = "g_step (s_gos s ! j)" and ?s' = "go_report j e s"
  have eb: "s_eb ?s' = s_eb (on_error ?st e s)" by (simp add: go_report_def)
  have late: "\<not> waited_stop (m_enforceShutdownTimeout (s_mgr s)) ?st" if "s_pc s = PReturned c se" for c se
    using bar j ph that
    by (auto simp: barrier_inv_def waited_def waited_stop_def dest: bspec [OF _ nth_mem])
  have add: "covers (mb_build (s_eb ?s')) (errs_of stop_step (s_gos ?s'))"
    if c: "covers (mb_build (s_eb s)) (errs_of stop_step (s_gos s))"
  proof (cases "stop_step ?st")
    case True
    then have "s_eb ?s' = mb_add e (s_eb s)" unfolding eb by (auto simp: stop_step_def on_error_eb)
    with c True go_errs(8) [OF j ph, of stop_step] show ?thesis
      using mb.is_add [of _ "s_eb s"] by (cases e) (auto simp: covers_def)
  next
    case False
    then have "errs_of stop_step (s_gos ?s') = errs_of stop_step (s_gos s)"
      using go_errs(8) [OF j ph, of stop_step] by simp
    with c show ?thesis
      by (auto simp: eb on_error_eb intro: covers_mono covers_add)
  qed
  show ?thesis
    using inv add late go_errs(8) [OF j ph] by (cases "s_pc s") (auto simp: eb_inv_def)
qed

lemma eb_inv_step:
  assumes step: "sys_step s a s'" and inv: "eb_inv s" and ctx: "ctx_inv s"
  shows "eb_inv s'"
proof -
  note sch = ctx_invD(4) [OF ctx]
  have bar: "barrier_inv s" using wait_invD(4) [OF ctx_invD(5) [OF ctx]] .
  have early: "s_gos s = []" if "s_pc s = PIdle \<or> s_pc s = PEntered \<or> s_pc s = PBeforeRun i co" for i co
    using sch that by (auto simp: sched_inv_def passed_def neq_Nil_conv)
  have none: "eb_inv t" if "s_gos t = []" for t :: "'a sys"
    using that by (simp add: eb_inv_def errs_of_empty split: pc.split)
  note fr = eb_inv_frame [OF inv]
  have keep: "eb_inv t" if t: "s_gos t = s_gos s" "s_eb t = s_eb s"
    and pcs: "\<And>c e. s_pc s \<noteq> PReturned c e" "\<And>c e. s_pc t \<noteq> PReturned c e" for t :: "'a sys"
    using inv t pcs by (auto simp: eb_inv_def split: pc.splits)
  from step show ?thesis
  proof (cases rule: sys_step.cases)
    case (st_enter c opt)
    then show ?thesis using none early by simp
  next
    case (st_checks b)
    then show ?thesis using none early by simp
  next
    case (st_before i co b)
    then show ?thesis using none early by simp
  next
    case (st_publish i c b)
    then show ?thesis using none early by simp
  next
    case (st_publish_nil i b)
    then show ?thesis using none early by simp
  next
    case (st_pending p b)
    then show ?thesis by (intro keep) (auto simp: run_pending_def start_loop_pc split: option.split)
  next
    case (st_loop st ss i b)
    have "errs_of stop_step (s_gos (loop_task st ss i s)) = errs_of stop_step (s_gos s)"
      by (auto simp: errs_of_def loop_task_gos reported_def new_goroutine_def)
    with st_loop loop_task_errs(2) [OF sch] inv show ?thesis by (simp add: eb_inv_def)
  next
    case (st_stage_end st ss b)
    let ?s1 = "stage_callbacks_after st (hd ss) s"
    have c: "covers (mb_build (s_eb ?s1)) (errs_of stop_step (s_gos ?s1))"
      using inv st_stage_end by (simp add: eb_inv_def)
    show ?thesis
    proof (cases "st = StepTeardown \<and> tl ss = []")
      case True
      with st_stage_end run_finish_covers [OF c] show ?thesis by (simp add: stage_end_def next_stage_def)
    next
      case False
      have "step_known st" using sched_invD(2) [OF sch] st_stage_end by simp
      with st_stage_end False show ?thesis
        by (intro keep) (auto simp: stage_end_def next_stage_def start_loop_pc split: step.split)
    qed
  next
    case st_select_ctx
    then show ?thesis using no_stop_errs [OF sch] by (simp add: eb_inv_def)
  next
    case st_select_startup
    then show ?thesis using no_stop_errs [OF sch] by (simp add: eb_inv_def)
  next
    case st_tasks_done
    then show ?thesis using inv
      by (auto simp: eb_inv_def begin_teardown_def Let_def split_beta intro: covers_mono covers_add)
  next
    case st_tasks_gave_up
    then show ?thesis using inv
      by (auto simp: eb_inv_def begin_teardown_def Let_def split_beta intro: covers_mono covers_add)
  next
    case (st_report j err)
    then show ?thesis using eb_inv_report [OF inv bar] by simp
  next
    case (st_loop_end st ss i b)
    then show ?thesis by (intro keep) auto
  next
    case (st_started st ss b)
    then show ?thesis by (intro keep) auto
  next
    case (st_waited st ss)
    then show ?thesis by (intro keep) auto
  next
    case (st_gave_up st ss)
    then show ?thesis by (intro keep) auto
  next
    case (st_ssm j e)
    then show ?thesis by (intro fr) (simp_all add: ssm_user_cancel_def Let_def)
  qed (simp_all, (rule fr; simp add: go_errs)+)
qed

section \<open>The outcome of a run\<close>

definition outcome_inv :: "'w sys \<Rightarrow> bool" where
  "outcome_inv s \<longleftrightarrow> ctx_inv s \<and> result_inv s \<and> eb_inv s"

lemma initial_outcome_inv: "initial s \<Longrightarrow> outcome_inv s"
  using initial_ctx_inv
  by (auto simp: outcome_inv_def result_inv_def eb_inv_def initial_def errs_of_empty)

interpretation outcome: invariant_machine sys_step initial outcome_inv
  using initial_outcome_inv ctx_inv_step result_inv_step eb_inv_step
  by unfold_locales (auto simp: outcome_inv_def)

lemma reachable_outcome_inv: "reachable s \<Longrightarrow> outcome_inv s"
  unfolding reachable_def using outcome.inv_run by blast

end
