(* ===== verification/RunCovered.thy ===== *)
theory RunCovered
  imports RunResult
begin

text \<open>
  Completeness of a run: a task is not forgotten. When \<open>Run\<close> has left \<open>start\<close>, the setup step of every
  task was started or the task was notified that it is skipped; so a future that is resolved by both
  is resolved when \<open>Run\<close> returns.
\<close>

section \<open>The tasks of a run are fixed\<close>

abbreviation task_of :: "'w sys \<Rightarrow> tref \<Rightarrow> 'w task" where
  "task_of s r \<equiv> tw_task (tw_at (s_tasks s) r)"

lemma set_tw_task:
  "valid s r \<Longrightarrow> tw_task tw = task_of s r \<Longrightarrow> task_of (set_tw r tw s) r' = task_of s r'"
  by (simp add: tw_at_update)

lemma checkStartStep_task [simp]: "tw_task (fst (checkStartStep tw w st)) = tw_task tw"
  by (simp add: checkStartStep_def internalAddStepDone_def Let_def split: sum.split)

lemma run_mark_task [simp]: "tw_task (run_mark st tw) = tw_task tw" "tw_task (run_mark_setup st e tw) = tw_task tw"
  by (simp_all add: run_mark_def run_mark_setup_def addStepDone_def internalAddStepDone_def)

lemma begin_start_step_task:
  "valid s (g_tw g) \<Longrightarrow> task_of (snd (begin_start_step g s)) r = task_of s r"
  "s_tasks (snd (begin_stop_step g s)) = s_tasks s"
  by (auto simp: begin_start_step_def begin_stop_step_def Let_def split_beta tw_at_update)

lemma go_task:
  assumes "valid s (g_tw (s_gos s ! j))"
  shows "task_of (go_begin j s) r = task_of s r" "task_of (go_mark j s) r = task_of s r"
    "task_of (go_after j e s) r = task_of s r"
  using assms
  by (auto simp: go_begin_def go_mark_def go_after_def Let_def split_beta begin_start_step_task tw_at_update
      split: step.split)

lemma loop_task_task: "valid s (hd ss, i) \<Longrightarrow> task_of (loop_task st ss i s) r = task_of s r"
  by (auto simp: loop_task_tasks tw_at_update)

lemma step_task_fixed:
  assumes "sys_step s a s'" and sch: "sched_inv s" and run: "s_pc s \<noteq> PIdle"
  shows "task_of s' r = task_of s r \<and> valid s' r = valid s r"
proof -
  have running: "m_isRunning (s_mgr s)" using sched_invD(4) [OF sch] run by blast
  have gv: "j < length (s_gos s) \<Longrightarrow> valid s (g_tw (s_gos s ! j))" for j
    using sched_invD(6) [OF sch] by simp
  from assms(1) show ?thesis
  proof (cases rule: sys_step.cases)
    case (st_loop st ss i b)
    then have v: "valid s (hd ss, i)" by (simp add: tw_valid_def)
    with st_loop show ?thesis using loop_task_task [OF v] loop_task_marks(3) [OF v] by simp
  qed (use run gv in \<open>simp_all add: go_task set_mgr_ctxs_running [OF running]\<close>)
qed

section \<open>Tasks that are due\<close>

text \<open>The setup of the task has been looked at, or it must have been notified.\<close>

fun due :: "string list \<Rightarrow> pc \<Rightarrow> tref \<Rightarrow> bool" where
  "due all (PRun st ss at) r =
     (if st = StepSetup \<or> st = StepStart then passed all (PRun st ss at) StepSetup r else fst r \<in> set all)"
| "due all PSelect r = (fst r \<in> set all)"
| "due all PWaitTasks r = (fst r \<in> set all)"
| "due all (PReturned _ _) r = (fst r \<in> set all)"
| "due all _ r = False"

lemma due_flow:
  assumes "flow all pc pc'" and "pc_ok all pc" and "due all pc' r"
  shows "due all pc r \<or>
    (\<exists>ss i. pc = PRun StepSetup ss (RSpawn i) \<and> fst r = hd ss \<and> i \<le> snd r \<and>
       (pc' = PRun StepSetup ss (RSpawn (Suc i)) \<and> snd r = i \<or> pc' = PRun StepSetup ss RWait)) \<or>
    (\<exists>c. pc' = PReturned c None \<and> (pc = PEntered \<or> (\<exists>i co. pc = PBeforeRun i co))) \<or>
    (\<exists>ss. pc = PRun StepSetup ss RAfter \<and> pc' = PSelect \<and> fst r \<in> set (tl ss))"
  using assms
proof (induction rule: flow.induct)
  case fl_start
  then show ?case by (cases all) (auto simp: passed_def)
qed (auto simp: passed_def split: if_splits)

definition covered :: "'w sys \<Rightarrow> tref \<Rightarrow> bool" where
  "covered s r \<longleftrightarrow> (StepSetup, r) \<in> set (keys s) \<or> skipped_in (s_trace s) r"

text \<open>
  A task that has a setup step in the worlds of \<open>I\<close> (the steps of a task may depend on the world; \<open>I\<close>
  holds in the states of the run), and one that also always wants to know that it is skipped.
\<close>

definition has_setup_in :: "('w \<Rightarrow> bool) \<Rightarrow> 'w task \<Rightarrow> bool" where
  "has_setup_in I t \<longleftrightarrow> (\<forall>w. I w \<longrightarrow> taskHasStep t StepSetup w)"

definition tracked :: "('w \<Rightarrow> bool) \<Rightarrow> 'w task \<Rightarrow> bool" where
  "tracked I t \<longleftrightarrow> has_setup_in I t \<and> (\<forall>w. ti_Skipped (GetTaskInfo t w) \<noteq> None)"

lemma tracked_has_setup: "tracked I t \<Longrightarrow> has_setup_in I t"
  by (simp add: tracked_def)

definition cover_inv :: "('w \<Rightarrow> bool) \<Rightarrow> 'w sys \<Rightarrow> bool" where
  "cover_inv I s \<longleftrightarrow>
     (\<forall>r. valid s r \<and> tracked I (task_of s r) \<and> due (s_stages s) (s_pc s) r \<longrightarrow> covered s r)"

lemma notify_one_task [simp]: "s_tasks (notify_one c e r s) = s_tasks s"
  by (simp add: notify_one_def split: option.split)

lemma fold_notify_keeps:
  "skipped_in (s_trace s) r \<Longrightarrow> skipped_in (s_trace (fold (notify_one c e) rs s)) r"
proof (induction rs arbitrary: s)
  case Nil
  then show ?case by simp
next
  case (Cons r' rs)
  then have "skipped_in (s_trace (notify_one c e r' s)) r" by (simp add: notify_one_def split: option.split)
  from Cons.IH [OF this] show ?case by simp
qed

lemma fold_notify_covers:
  "r \<in> set rs \<Longrightarrow> tracked I (task_of s r) \<Longrightarrow> skipped_in (s_trace (fold (notify_one c e) rs s)) r"
proof (induction rs arbitrary: s)
  case Nil
  then show ?case by simp
next
  case (Cons r' rs)
  show ?case
  proof (cases "r = r'")
    case True
    obtain f where "ti_Skipped (GetTaskInfo (task_of s r) (s_world s)) = Some f"
      using Cons.prems(2) by (auto simp: tracked_def)
    with True have "skipped_in (s_trace (notify_one c e r' s)) r" by (simp add: notify_one_def)
    with fold_notify_keeps [OF this] show ?thesis by simp
  next
    case False
    with Cons.prems Cons.IH [of "notify_one c e r' s"] show ?thesis by simp
  qed
qed

lemma notify_covers:
  assumes "valid s r" and "fst r \<in> set ss" and "tracked I (task_of s r)"
  shows "skipped_in (s_trace (notifyTasksSkipped c ss e s)) r"
proof -
  have "r \<in> set (stage_refs (s_tasks s) ss)" using assms by (simp add: set_stage_refs)
  with fold_notify_covers [of r "stage_refs (s_tasks s) ss" I "s\<lparr>s_ctxs := fst (ctx_WithoutCancel c (s_ctxs s))\<rparr>"] assms(3)
  show ?thesis by (simp add: notifyTasksSkipped_def Let_def split_beta)
qed

lemma step_skipped_mono:
  assumes "sys_step s a s'" and "sched_inv s" and "skipped_in (s_trace s) r"
  shows "skipped_in (s_trace s') r"
  using assms(1,2)
proof (cases rule: step_trace)
  case (skip c ss e s0)
  have "skipped_in (s_trace s0) r" using skip(1) assms(3) by (simp add: same_run_def quiet_def)
  then have "skipped_in (s_trace (notifyTasksSkipped c ss e s0)) r"
    unfolding notifyTasksSkipped_def Let_def split_beta by (intro fold_notify_keeps) simp
  with skip(2) show ?thesis by simp
qed (use assms(3) in \<open>simp_all add: quiet_def\<close>)

lemma step_keys_mono:
  assumes "sys_step s a s'" and "k \<in> set (keys s)"
  shows "k \<in> set (keys s')"
  using assms by (cases rule: sys_step.cases) (auto simp: loop_task_gos)

lemma covered_mono: "sys_step s a s' \<Longrightarrow> sched_inv s \<Longrightarrow> covered s r \<Longrightarrow> covered s' r"
  using step_skipped_mono step_keys_mono unfolding covered_def by blast

section \<open>Preservation\<close>

text \<open>Setup goroutines of tasks with a setup step call their task.\<close>

definition calls_setup :: "('w \<Rightarrow> bool) \<Rightarrow> 'w sys \<Rightarrow> bool" where
  "calls_setup I s \<longleftrightarrow> (\<forall>g\<in>set (s_gos s). g_step g = StepSetup \<and> has_setup_in I (task_of s (g_tw g)) \<longrightarrow>
     g_phase g \<noteq> GExit None \<and> g_phase g \<noteq> GDone None)"

lemma calls_setup_moved:
  assumes "calls_setup I s" and "moved j p s s'" and "j < length (s_gos s)" and "\<And>r. task_of s' r = task_of s r"
    and "g_step (s_gos s ! j) = StepSetup \<Longrightarrow> has_setup_in I (task_of s (g_tw (s_gos s ! j))) \<Longrightarrow>
      p \<noteq> GExit None \<and> p \<noteq> GDone None"
  shows "calls_setup I s'"
proof -
  obtain g' where g': "s_gos s' = (s_gos s)[j := g']" "g_key g' = g_key (s_gos s ! j)" "g_phase g' = p"
    using assms(2) by (auto simp: moved_def)
  show ?thesis
    unfolding calls_setup_def
  proof (intro ballI impI)
    fix g assume g: "g \<in> set (s_gos s')" and t: "g_step g = StepSetup \<and> has_setup_in I (task_of s' (g_tw g))"
    from g g'(1) have "g = g' \<or> g \<in> set (s_gos s)" using set_update_subset_insert by fastforce
    then show "g_phase g \<noteq> GExit None \<and> g_phase g \<noteq> GDone None"
      using assms(1,4,5) g'(2,3) t by (auto simp: calls_setup_def g_key_def)
  qed
qed

lemma calls_setup_step:
  assumes step: "sys_step s a s'" and sch: "sched_inv s" and now: "I (s_world s)" and inv: "calls_setup I s"
  shows "calls_setup I s'"
proof (cases "s_pc s = PIdle")
  case True
  then have "s_gos s = []" using sched_inv_gos_idle [OF sch] by blast
  with step have "s_gos s' = []"
    by (cases rule: sys_step.cases) (simp_all add: True run_enter_def)
  then show ?thesis by (simp add: calls_setup_def)
next
  case False
  note fixed = step_task_fixed [OF step sch False]
  note mv = calls_setup_moved [OF inv]
  from step show ?thesis
  proof (cases rule: sys_step.cases)
    case (st_loop st ss i b)
    then show ?thesis using inv fixed by (auto simp: calls_setup_def loop_task_gos new_goroutine_def)
  next
    case (st_begin j)
    then show ?thesis using mv [OF go_moved(1)] fixed by simp
  next
    case (st_check j)
    then show ?thesis using mv [OF go_moved(2)] fixed now by (simp add: checkRunStep_def has_setup_in_def)
  next
    case (st_mark j)
    then show ?thesis using mv [OF go_moved(3)] fixed by simp
  next
    case (st_call j)
    then show ?thesis using mv [OF go_moved(4)] fixed by simp
  next
    case (st_return j err w)
    obtain e' where m: "moved j (GReturned e') s (go_return j err w s)"
      using go_moved(5) [where j = j and s = s and err = err and w = w] by blast
    from st_return show ?thesis using mv [OF m] fixed by simp
  next
    case (st_after j err)
    then show ?thesis using mv [OF go_moved(6)] fixed by simp
  next
    case (st_finish j err)
    then show ?thesis using mv [OF go_moved(7)] fixed by simp
  next
    case (st_report j err)
    then show ?thesis using mv [OF go_moved(8)] fixed by simp
  next
    case (st_exit j res)
    then have "s_gos s ! j \<in> set (s_gos s)" by simp
    with st_exit inv have "g_step (s_gos s ! j) = StepSetup \<Longrightarrow> has_setup_in I (task_of s (g_tw (s_gos s ! j))) \<Longrightarrow> res \<noteq> None"
      by (auto simp: calls_setup_def)
    with st_exit show ?thesis using mv [OF go_moved(9)] fixed by simp
  qed (use inv fixed in \<open>simp_all add: calls_setup_def\<close>)
qed

text \<open>The loop of the setup step spawns a goroutine for a task that has the step.\<close>

lemma loop_task_spawns:
  assumes sch: "sched_inv s" and pc: "s_pc s = PRun StepSetup ss (RSpawn i)"
    and i: "i < length (stageTasks_get (s_tasks s) (hd ss))" and t: "has_setup_in I (task_of s (hd ss, i))" and now: "I (s_world s)"
  shows "(StepSetup, (hd ss, i)) \<in> set (keys (loop_task StepSetup ss i s))"
proof -
  let ?r = "(hd ss, i)"
  have v: "valid s ?r" using i by (simp add: tw_valid_def)
  note ok = sched_invD(2) [OF sch, unfolded pc]
  have "marks s ?r = {}"
  proof (rule equals0I)
    fix st assume st: "st \<in> marks s ?r"
    note k = sched_invD(9,10) [OF sch v st]
    show False
    proof (cases "st = StepSetup")
      case True
      then show ?thesis using k(2) not_passed_here [OF ok sched_invD(13) [OF sch]] pc by simp
    next
      case False
      with k(1) have "StepSetup < st" by (cases st) simp_all
      then show ?thesis using k not_passed_later [OF ok] pc by simp
    qed
  qed
  then have "snd (checkStartStep (tw_at (s_tasks s) ?r) (s_world s) StepSetup) = Inr True"
    using t now by (simp add: checkStartStep_def Let_def internalCanStartStep_def has_setup_in_def marks_def internalStepIsDone_def)
  then show ?thesis by (simp add: loop_task_gos new_goroutine_def g_key_def)
qed

lemma cover_inv_step:
  assumes step: "sys_step s a s'" and sch: "sched_inv s" and now: "I (s_world s)" and inv: "cover_inv I s"
  shows "cover_inv I s'"
proof (cases "s_pc s = PIdle")
  case True
  have "\<not> due (s_stages s') (s_pc s') r" for r
    using sched_flow [OF sch step] True by (auto elim: flow.cases)
  then show ?thesis by (simp add: cover_inv_def)
next
  case False
  note fixed = step_task_fixed [OF step sch False]
  have old: "covered s' r" if "valid s r" "tracked I (task_of s r)" "due (s_stages s) (s_pc s) r" for r
    using inv that covered_mono [OF step sch] by (simp add: cover_inv_def)
  show ?thesis
    unfolding cover_inv_def
  proof (intro allI impI; elim conjE)
    fix r assume v': "valid s' r" and t': "tracked I (task_of s' r)" and d': "due (s_stages s') (s_pc s') r"
    then have v: "valid s r" and t: "tracked I (task_of s r)" and d: "due (s_stages s) (s_pc s') r"
      using fixed step_stages [OF step] by simp_all
    have ok: "pc_ok (s_stages s) (s_pc s)" by (rule sched_invD(2) [OF sch])
    show "covered s' r"
    proof (cases "s_pc s' = s_pc s")
      case True
      then show ?thesis using old [OF v t] d by simp
    next
      case False
      then have "flow (s_stages s) (s_pc s) (s_pc s')" using sched_flow [OF sch step] by blast
      from due_flow [OF this ok d] show ?thesis
      proof (elim disjE exE conjE)
        assume "due (s_stages s) (s_pc s) r"
        then show ?thesis by (rule old [OF v t])
      next
        fix ss i assume pc: "s_pc s = PRun StepSetup ss (RSpawn i)" and r: "fst r = hd ss" "i \<le> snd r"
          and pc': "s_pc s' = PRun StepSetup ss (RSpawn (Suc i))" "snd r = i"
        have ri: "r = (hd ss, i)" using r pc' by (cases r) simp
        have i: "i < length (stageTasks_get (s_tasks s) (hd ss))" using v ri by (simp add: tw_valid_def)
        from step have "s' = loop_task StepSetup ss i s"
          by (cases rule: sys_step.cases) (use pc pc' False in simp_all)
        with loop_task_spawns [where I = I, OF sch pc i] now tracked_has_setup [OF t] ri show ?thesis by (simp add: covered_def)
      next
        fix ss i assume pc: "s_pc s = PRun StepSetup ss (RSpawn i)" and r: "fst r = hd ss" "i \<le> snd r"
          and pc': "s_pc s' = PRun StepSetup ss RWait"
        have "\<not> i < length (stageTasks_get (s_tasks s) (hd ss))"
          using step by (cases rule: sys_step.cases) (use pc pc' in simp_all)
        with v r show ?thesis by (simp add: tw_valid_def)
      next
        fix c assume pc': "s_pc s' = PReturned c None" and "s_pc s = PEntered"
        with step have "\<exists>c e. s_trace s' = s_trace (notifyTasksSkipped c (s_stages s) e s)"
          by (cases rule: sys_step.cases)
            (auto simp: run_checks_def early_return_def Let_def split_beta split: if_splits)
        then show ?thesis
          using notify_covers [where I = I, OF v sched_invD(5) [OF sch v] t] by (auto simp: covered_def)
      next
        fix c i co assume pc': "s_pc s' = PReturned c None" and pc: "s_pc s = PBeforeRun i co"
        from step pc pc' have s': "s' = run_beforeRun i co s"
          by (cases rule: sys_step.cases) simp_all
        obtain st' co' er where f: "(m_beforeRun (s_mgr s) ! i) co (s_ctxs s) = (st', co', er)" by (metis prod_cases3)
        have "\<exists>c e ctxs c'. s_trace s' =
            s_trace (notifyTasksSkipped c (s_stages s) e (s\<lparr>s_ctxs := ctxs, s_ctx := c'\<rparr>))"
          using pc' f unfolding s' by (cases er; cases co') (force simp: run_beforeRun_def early_return_def)+
        then obtain c e ctxs c' where "s_trace s' =
            s_trace (notifyTasksSkipped c (s_stages s) e (s\<lparr>s_ctxs := ctxs, s_ctx := c'\<rparr>))" by blast
        then show ?thesis
          using notify_covers [where I = I, of "s\<lparr>s_ctxs := ctxs, s_ctx := c'\<rparr>" r "s_stages s" c e] v t sched_invD(5) [OF sch v]
          by (simp add: covered_def)
      next
        fix ss assume pc: "s_pc s = PRun StepSetup ss RAfter" and pc': "s_pc s' = PSelect"
          and r: "fst r \<in> set (tl ss)"
        from step pc pc' have "s' = stage_end StepSetup ss s" by (cases rule: sys_step.cases) simp_all
        with pc' have "s' = start_returns (tl ss) (mb_build (s_setupErr s)) (stage_callbacks_after StepSetup (hd ss) s)"
          by (auto simp: stage_end_def next_stage_def begin_stage_def stage_callbacks_after_def split: if_splits)
        then show ?thesis
          using notify_covers [where I = I, of "stage_callbacks_after StepSetup (hd ss) s" r "tl ss"] v t r
          by (simp add: covered_def start_returns_def)
      qed
    qed
  qed
qed

section \<open>Every task is set up or skipped\<close>

definition complete_inv :: "('w \<Rightarrow> bool) \<Rightarrow> 'w sys \<Rightarrow> bool" where
  "complete_inv I s \<longleftrightarrow> I (s_world s) \<and> outcome_inv s \<and> calls_setup I s \<and> cover_inv I s"


text \<open>The runs in which every state satisfies \<open>I\<close>.\<close>

definition step_in :: "('w \<Rightarrow> bool) \<Rightarrow> 'w sys \<Rightarrow> 'w action \<Rightarrow> 'w sys \<Rightarrow> bool" where
  "step_in I s a s' \<longleftrightarrow> sys_step s a s' \<and> I (s_world s')"

definition initial_in :: "('w \<Rightarrow> bool) \<Rightarrow> 'w sys \<Rightarrow> bool" where
  "initial_in I s \<longleftrightarrow> initial s \<and> I (s_world s)"

definition reachable_in :: "('w \<Rightarrow> bool) \<Rightarrow> 'w sys \<Rightarrow> bool" where
  "reachable_in I s \<longleftrightarrow> (\<exists>s0 as. initial_in I s0 \<and> runs_to (step_in I) s0 as s)"

lemma runs_step_in: "runs_to (step_in I) s as s' \<Longrightarrow> runs_to sys_step s as s'"
  by (induction rule: runs_to.induct) (auto simp: step_in_def intro: runs_to.intros)

lemma reachable_in_reachable: "reachable_in I s \<Longrightarrow> reachable s"
  unfolding reachable_in_def reachable_def initial_in_def using runs_step_in by blast

lemma reachable_in_True: "reachable_in (\<lambda>_. True) s \<longleftrightarrow> reachable s"
proof -
  have "step_in (\<lambda>_. True) = (sys_step :: 'a sys \<Rightarrow> 'a action \<Rightarrow> 'a sys \<Rightarrow> bool)"
    by (simp add: step_in_def fun_eq_iff)
  then show ?thesis by (simp add: reachable_in_def reachable_def initial_in_def)
qed

lemma initial_complete_inv: "initial_in I s \<Longrightarrow> complete_inv I s"
  using initial_outcome_inv
  by (auto simp: complete_inv_def calls_setup_def cover_inv_def initial_in_def initial_def)

lemma outcome_sched: "outcome_inv s \<Longrightarrow> sched_inv s"
  by (simp add: outcome_inv_def ctx_invD(4))

interpretation complete: invariant_machine "step_in I" "initial_in I" "complete_inv I" for I
proof
  show "\<And>s. initial_in I s \<Longrightarrow> complete_inv I s" by (rule initial_complete_inv)
  fix s a s' assume i: "complete_inv I s" and "step_in I s a s'"
  then have step: "sys_step s a s'" and w: "I (s_world s')" by (simp_all add: step_in_def)
  from i have o: "outcome_inv s" "calls_setup I s" "cover_inv I s" "I (s_world s)" by (simp_all add: complete_inv_def)
  show "complete_inv I s'"
    using outcome.inv_step [OF o(1) step] calls_setup_step [OF step outcome_sched [OF o(1)] o(4,2)]
      cover_inv_step [OF step outcome_sched [OF o(1)] o(4,3)] w
    by (simp add: complete_inv_def)
qed

lemma reachable_complete_inv: "reachable_in I s \<Longrightarrow> complete_inv I s"
  unfolding reachable_in_def using complete.inv_run by blast

lemma covered_returned:
  assumes "reachable_in I s" and "s_pc s = PReturned c se" and "valid s r" and "tracked I (task_of s r)"
  shows "skipped_in (s_trace s) r \<or> (\<exists>e. EvReturn r StepSetup e \<in> set (s_trace s))"
proof -
  note inv = reachable_complete_inv [OF assms(1)]
  have o: "ctx_inv s" using inv by (simp add: complete_inv_def outcome_inv_def)
  have "fst r \<in> set (s_stages s)" by (rule sched_invD(5) [OF ctx_invD(4) [OF o] assms(3)])
  with inv assms have "covered s r" by (simp add: complete_inv_def cover_inv_def)
  then show ?thesis unfolding covered_def
  proof
    assume "(StepSetup, r) \<in> set (keys s)"
    then obtain g where g: "g \<in> set (s_gos s)" "g_step g = StepSetup" "g_tw g = r" by (auto simp: g_key_def)
    note w = wait_invD [OF ctx_invD(5) [OF o]]
    have "done_phase (g_phase g)"
      using w(4) assms(2) g by (auto simp: barrier_inv_def waited_def)
    moreover have "g_phase g \<noteq> GDone None"
      using inv g tracked_has_setup [OF assms(4)] by (auto simp: complete_inv_def calls_setup_def)
    ultimately obtain e where e: "result (g_phase g) = Some e" by (cases "g_phase g") auto
    have "log_of s (StepSetup, r) = calls_at g" using w(2) g by (auto simp: link_inv_def g_linked_def g_key_def)
    then have "EvReturn r StepSetup e \<in> set (log_of s (StepSetup, r))" using e g by (simp add: calls_at_def)
    then show ?thesis using in_log [of "EvReturn r StepSetup e" "(StepSetup, r)" "s_trace s"] by auto
  qed blast
qed

end
