(* ===== verification/Examples.thy ===== *)
theory Examples
  imports RunCovered
begin

text \<open>
  Concrete programs on which the definitions are evaluated: a manager with one task, and the
  schedules of a few runs of it.
\<close>

section \<open>A manager with one task\<close>

definition noop_task :: "step list \<Rightarrow> unit task" where
  "noop_task steps = \<lparr>task_Run = (\<lambda>_ _ w. (None, w)),
     task_TaskInfo = Some (\<lambda>_. zero_task_info\<lparr>ti_Steps := Some steps, ti_Skipped := Some (\<lambda>_ _ w. w)\<rparr>),
     task_Stringer = None, task_type = ''main.noop''\<rparr>"

definition background :: ctxs where
  "background = fst (ctx_new KBackground None [])"

definition one_task :: "bool \<Rightarrow> before_run list \<Rightarrow> step list \<Rightarrow> unit sys" where
  "one_task enforce before steps =
     (let m = default_manager\<lparr>m_enforceShutdownTimeout := enforce, m_beforeRun := before\<rparr>;
          (m', st) = AddTask StageDefault (Some (noop_task steps)) [] () (m, background)
      in initial_sys m' st ())"

lemma background_wf: "ctxs_wf background"
  by (simp add: background_def ctx_new_def ctxs_wf_def node_wf_def)

lemma one_task_initial:
  assumes "\<forall>f\<in>set before. before_run_ok f"
  shows "initial (one_task enforce before steps)"
proof -
  let ?m = "default_manager\<lparr>m_enforceShutdownTimeout := enforce, m_beforeRun := before\<rparr> :: unit manager"
  have idle: "idle_manager ?m"
    by (simp add: idle_manager_def default_manager_def stages_ok_def newStageTasks_def StageDefault_def
        wrappers_fresh_def tw_valid_def stageTasks_get_def)
  have "AddTask StageDefault (Some (noop_task steps)) [] () (?m, background) =
      (?m\<lparr>m_tasks := stageTasks_add StageDefault (newTaskWrapper (noop_task steps) []) newStageTasks\<rparr>, background)"
    by (simp add: AddTask_def default_manager_def noop_task_def GetTaskInfo_def zero_task_info_def)
  with AddTask_idle [OF idle, of StageDefault "Some (noop_task steps)" "[]" "()" background] assms
  show ?thesis by (simp add: initial_def one_task_def initial_sys_def background_wf)
qed

section \<open>Schedules\<close>

definition goes :: "nat \<Rightarrow> unit action list" where
  "goes j = [AGo j, AGo j, AGo j, AGo j]"

definition whole_go :: "nat \<Rightarrow> go_error option \<Rightarrow> unit action list" where
  "whole_go j e = goes j @ [AReturn j e ()] @ goes j"

definition stage_of :: "unit action list \<Rightarrow> unit action list" where
  "stage_of as = [AMain True, AMain True] @ as @ [AMain True, AMain True]"

definition prologue :: "unit action list" where
  "prologue = [ARun 0 None, AMain True, AMain True, AMain True]"

text \<open>Every step of the task succeeds; the start step returns when \<open>Shutdown\<close> is called.\<close>

definition good_run :: "unit action list" where
  "good_run = prologue @ stage_of (whole_go 0 None) @ stage_of [AGo 1] @ [AGo 1, AGo 1, AGo 1, AShutdown, AMain False] @
     stage_of (whole_go 2 None) @ [AReturn 1 None ()] @ goes 1 @ [AMain True] @ stage_of (whole_go 3 None)"

definition ends_in :: "('w sys \<Rightarrow> bool) \<Rightarrow> 'w action list \<Rightarrow> 'w sys \<Rightarrow> bool" where
  "ends_in P as s = (case exec_all as s of None \<Rightarrow> False | Some s' \<Rightarrow> P s')"

lemma ends_inE:
  assumes "ends_in P as s" and "initial s"
  obtains s' where "reachable s'" "P s'"
  using assms reachable_exec by (auto simp: ends_in_def split: option.splits)

lemma good_run_ends:
  "ends_in (\<lambda>s. s_pc s = PReturned None None \<and> length (s_trace s) = 8) good_run (one_task True [] allSteps)"
  by code_simp

text \<open>The setup step fails.\<close>

definition db_error :: go_error where
  "db_error = UserError ''no database''"

definition setup_fails :: "unit action list" where
  "setup_fails = prologue @ stage_of (whole_go 0 (Some db_error)) @ [AMain False] @ stage_of [] @
     [AMain True] @ stage_of []"

lemma setup_fails_ends:
  "ends_in (\<lambda>s. (case s_pc s of PReturned (Some _) None \<Rightarrow> True | _ \<Rightarrow> False) \<and>
       EvReturn (StageDefault, 0) StepSetup (Some db_error) \<in> set (s_trace s) \<and> m_afterRun (s_mgr s) = [] \<and>
       list_all (\<lambda>ev. case ev of EvReturn r st (Some e) \<Rightarrow> e = db_error | _ \<Rightarrow> True) (s_trace s))
     setup_fails (one_task True [] allSteps)"
  by code_simp

text \<open>The stop step fails, and \<open>Run\<close> waits for it.\<close>

definition stop_fails :: "unit action list" where
  "stop_fails = prologue @ stage_of (whole_go 0 None) @ stage_of [AGo 1] @ [AGo 1, AGo 1, AGo 1, AShutdown, AMain False] @
     stage_of (whole_go 2 (Some db_error)) @ [AReturn 1 None ()] @ goes 1 @ [AMain True] @ stage_of (whole_go 3 None)"

lemma stop_fails_ends:
  "ends_in (\<lambda>s. (case s_pc s of PReturned None (Some _) \<Rightarrow> True | _ \<Rightarrow> False) \<and>
       EvReturn (StageDefault, 0) StepStop (Some db_error) \<in> set (s_trace s) \<and>
       \<not> m_enforceShutdownTimeout (s_mgr s) \<and> length (s_gos s) = 4) stop_fails (one_task False [] allSteps)"
  by code_simp

text \<open>
  \<open>Shutdown\<close> is called before \<open>Run\<close>; the goroutine of the start step signals \<open>startWg\<close> and is then not
  scheduled until the stop steps have been decided.
\<close>

definition late_start :: "unit action list" where
  "late_start = [AShutdown] @ prologue @ stage_of (whole_go 0 None) @ stage_of [AGo 1] @ [AMain False] @ stage_of [] @
     [AGo 1, AGo 1, AGo 1]"

lemma late_start_ends:
  "ends_in (\<lambda>s. s_pc s = PWaitTasks \<and>
       s_trace s = [EvCall (StageDefault, 0) StepStart, EvReturn (StageDefault, 0) StepSetup None,
         EvCall (StageDefault, 0) StepSetup] \<and>
       taskHasStep (tw_task (tw_at (s_tasks s) (StageDefault, 0))) StepStop () \<and> stop_requested s \<and>
       length (s_gos s) = 2 \<and> g_phase (s_gos s ! 1) = GRunning \<and> \<not> m_enforceShutdownTimeout (s_mgr s))
     late_start (one_task False [] allSteps)"
  by code_simp

text \<open>A \<open>beforeRun\<close> callback that fails and returns a nil context.\<close>

definition nil_before :: before_run where
  "nil_before c st = (st, None, Some db_error)"

lemma nil_before_ok: "before_run_ok nil_before"
  by (simp add: before_run_ok_def nil_before_def)

definition panic_run :: "unit action list" where
  "panic_run = [ARun 0 None, AMain True, AMain True]"

lemma panic_run_ends: "ends_in (\<lambda>s. s_pc s = PPanicked) panic_run (one_task True [nil_before] allSteps)"
  by code_simp

text \<open>No task has a start step.\<close>

lemma no_start_ends:
  "ends_in (\<lambda>s. s_pc s = PReturned (Some (defs_err ErrNoStartTask)) None \<and>
       s_trace s = [EvSkipped (StageDefault, 0) (Some (defs_err ErrNoStartTask))])
     [ARun 0 None, AMain True] (one_task True [] [StepSetup])"
  by code_simp

text \<open>A run at the \<open>select\<close>, its task running.\<close>

definition up :: "unit action list" where
  "up = prologue @ stage_of (whole_go 0 None) @ stage_of [AGo 1] @ [AGo 1, AGo 1, AGo 1]"

lemma up_ends:
  "ends_in (\<lambda>s. s_pc s = PSelect \<and> g_phase (s_gos s ! 1) = GRunning \<and> length (s_gos s) = 2) up
     (one_task True [] allSteps)"
  by code_simp

text \<open>Two tasks in one stage: the setup of the first fails, the second has a start step only.\<close>

definition two_tasks :: "unit sys" where
  "two_tasks =
     (let ms = AddTask StageDefault (Some (noop_task [StepSetup])) [] () (default_manager, background);
          (m, st) = AddTask StageDefault (Some (noop_task [StepStart])) [] () ms
      in initial_sys m st ())"

lemma AddTask_noop:
  assumes "idle_manager m" and "m_beforeRun m = []" and "ctxs_wf st"
  shows "idle_manager (fst (AddTask stage (Some (noop_task steps)) [] () (m, st)))"
    "snd (AddTask stage (Some (noop_task steps)) [] () (m, st)) = st"
    "m_beforeRun (fst (AddTask stage (Some (noop_task steps)) [] () (m, st))) = []"
  using assms AddTask_idle [OF assms(1), of stage "Some (noop_task steps)" "[]" "()" st]
  by (auto simp: AddTask_def noop_task_def GetTaskInfo_def zero_task_info_def idle_manager_def addInitError_def)

lemma default_idle: "idle_manager default_manager" "m_beforeRun default_manager = []"
  by (simp_all add: idle_manager_def default_manager_def stages_ok_def newStageTasks_def StageDefault_def
      wrappers_fresh_def tw_valid_def stageTasks_get_def)

lemma two_tasks_initial: "initial two_tasks"
proof -
  obtain m1 st1 where a: "AddTask StageDefault (Some (noop_task [StepSetup])) [] () (default_manager, background) = (m1, st1)"
    by force
  note one = AddTask_noop [OF default_idle background_wf, of StageDefault "[StepSetup]", unfolded a fst_conv snd_conv]
  obtain m2 st2 where b: "AddTask StageDefault (Some (noop_task [StepStart])) [] () (m1, st1) = (m2, st2)" by force
  note two = AddTask_noop [OF one(1) one(3), of st1 StageDefault "[StepStart]", unfolded b fst_conv snd_conv]
  from a b one two show ?thesis
    by (simp add: two_tasks_def initial_def initial_sys_def background_wf)
qed

text \<open>A manager with one task, any task.\<close>

definition solo :: "'w task \<Rightarrow> 'w \<Rightarrow> 'w sys" where
  "solo t w = (case AddTask StageDefault (Some t) [] w (default_manager, background) of (m, st) \<Rightarrow> initial_sys m st w)"

lemma solo_initial: "initial (solo t w)"
proof -
  have "m_beforeRun (fst (AddTask StageDefault (Some t) [] w (default_manager, background))) = []"
    "snd (AddTask StageDefault (Some t) [] w (default_manager, background)) = background"
    by (simp_all add: AddTask_def default_manager_def addInitError_def split: option.split)
  with AddTask_idle [OF default_idle(1), of StageDefault "Some t" "[]" w background] show ?thesis
    by (simp add: solo_def initial_def initial_sys_def background_wf split_beta)
qed

text \<open>Runs whose states all satisfy \<open>I\<close>.\<close>

fun exec_in :: "('w \<Rightarrow> bool) \<Rightarrow> 'w action list \<Rightarrow> 'w sys \<Rightarrow> 'w sys option" where
  "exec_in I [] s = Some s"
| "exec_in I (a # as) s =
     (case exec a s of None \<Rightarrow> None | Some s' \<Rightarrow> if I (s_world s') then exec_in I as s' else None)"

lemma exec_in_runs: "exec_in I as s = Some s' \<Longrightarrow> runs_to (step_in I) s as s'"
proof (induction as arbitrary: s)
  case Nil
  then show ?case by (simp add: runs_nil)
next
  case (Cons a as)
  then obtain t where "exec a s = Some t" "I (s_world t)" "exec_in I as t = Some s'"
    by (auto split: option.splits if_splits)
  with Cons.IH show ?case by (auto simp: step_in_def intro: runs_to_cons exec_step)
qed

lemma exec_in_reachable: "initial s \<Longrightarrow> I (s_world s) \<Longrightarrow> exec_in I as s = Some s' \<Longrightarrow> reachable_in I s'"
  unfolding reachable_in_def initial_in_def by (blast intro: exec_in_runs)

definition half_stage :: "unit action list" where
  "half_stage = prologue @ [AMain True, AMain True, AMain True] @ whole_go 0 (Some db_error) @ [AMain True, AMain True] @
     [AMain False] @ replicate 5 (AMain True) @ [AMain True] @ replicate 5 (AMain True)"

lemma half_stage_ends:
  "ends_in (\<lambda>s. (case s_pc s of PReturned (Some _) None \<Rightarrow> True | _ \<Rightarrow> False) \<and>
       s_trace s = [EvReturn (StageDefault, 0) StepSetup (Some db_error), EvCall (StageDefault, 0) StepSetup] \<and>
       tw_valid (s_tasks s) (StageDefault, 1) \<and>
       (case ti_Skipped (GetTaskInfo (tw_task (tw_at (s_tasks s) (StageDefault, 1))) ()) of
          Some _ \<Rightarrow> True | None \<Rightarrow> False))
     half_stage two_tasks"
  by code_simp

lemma reachable_end:
  assumes "ends_in P as (one_task b [] steps)"
  obtains s where "reachable s" "P s"
  by (rule ends_inE [OF assms one_task_initial]) (simp, rule that)

end
