(* ===== verification/RunTheorems.thy ===== *)
theory RunTheorems
  imports Examples
begin

text \<open>
  The properties of a run of the manager (\<open>run.go\<close>), stated of the reachable states of the run
  machine, with the runs of \<open>Examples\<close> that meet their hypotheses.
\<close>

section \<open>Returns and goroutines\<close>

lemma returned_goroutine:
  assumes "link_inv s" and "EvReturn r st e \<in> set (s_trace s)"
  obtains h where "h \<in> set (s_gos s)" "g_tw h = r" "g_step h = st" "result (g_phase h) = Some e"
proof -
  have mem: "EvReturn r st e \<in> set (log_of s (st, r))"
    using assms(2) in_log [of "EvReturn r st e" "(st, r)" "s_trace s"] by simp
  then have "(st, r) \<in> set (keys s)" using assms(1) by (auto simp: link_inv_def)
  then obtain h where h: "h \<in> set (s_gos s)" "g_tw h = r" "g_step h = st" by (auto simp: g_key_def)
  moreover have "log_of s (st, r) = calls_at h"
    using assms(1) h by (auto simp: link_inv_def g_linked_def g_key_def)
  with mem have "result (g_phase h) = Some e"
    by (auto simp: calls_at_def split: option.splits if_splits)
  ultimately show ?thesis by (rule that)
qed

lemma done_reported: "done_phase (g_phase h) \<Longrightarrow> result (g_phase h) = Some e \<Longrightarrow> reported h = e"
  by (cases "g_phase h") (simp_all add: reported_def)

text \<open>Once \<open>Run\<close> has returned, the goroutines of the steps that are waited for are done.\<close>

lemma returned_done:
  assumes "barrier_inv s" and "s_pc s = PReturned c se" and "g \<in> set (s_gos s)"
    and "waited (m_enforceShutdownTimeout (s_mgr s)) (g_step g)"
  shows "done_phase (g_phase g)"
  using assms by (auto simp: barrier_inv_def)

lemma returned_reported:
  assumes "link_inv s" and "barrier_inv s" and "s_pc s = PReturned c se"
    and "EvReturn r st (Some e) \<in> set (s_trace s)" and "waited (m_enforceShutdownTimeout (s_mgr s)) st"
    and "P st"
  shows "e \<in> errs_of P (s_gos s)"
proof -
  obtain h where h: "h \<in> set (s_gos s)" "g_step h = st" "result (g_phase h) = Some (Some e)"
    using returned_goroutine [OF assms(1,4)] by blast
  then have "reported h = Some e" using returned_done [OF assms(2,3) h(1)] assms(5) done_reported by blast
  with h assms(6) show ?thesis by (auto simp: errs_of_def)
qed

lemma reported_returned:
  assumes "link_inv s" and "e \<in> errs_of P (s_gos s)"
  shows "\<exists>r st. P st \<and> EvReturn r st (Some e) \<in> set (s_trace s)"
proof -
  obtain g where g: "g \<in> set (s_gos s)" "P (g_step g)" "reported g = Some e"
    using assms(2) by (auto simp: errs_of_def)
  then have "result (g_phase g) = Some (Some e)"
    by (cases "g_phase g") (auto simp: reported_def split: option.splits)
  then have "EvReturn (g_tw g) (g_step g) (Some e) \<in> set (calls_at g)" by (simp add: calls_at_def)
  then have "EvReturn (g_tw g) (g_step g) (Some e) \<in> set (s_trace s)"
    using assms(1) g(1) in_log [of "EvReturn (g_tw g) (g_step g) (Some e)" "g_key g" "s_trace s"]
    by (simp add: link_inv_def g_linked_def g_key_def)
  with g(2) show ?thesis by blast
qed

lemma invs:
  assumes "reachable s"
  shows "sched_inv s" "link_inv s" "count_inv s" "barrier_inv s" "setup_inv s" "order_inv s" "skip_inv s"
    "legal_inv s" "refs_inv s" "cancel_inv s" "ctx_inv s" "result_inv s" "eb_inv s"
  using reachable_outcome_inv [OF assms] ctx_invD run_invD unfolding outcome_inv_def by blast+

lemma reachable_legal: "reachable s \<Longrightarrow> legal (m_enforceShutdownTimeout (s_mgr s)) (s_stages s) (s_trace s)"
  using invs(8) by (simp add: legal_inv_def)

lemma reachable_runs: "runs_to sys_step s as t \<Longrightarrow> reachable s \<Longrightarrow> reachable t"
  by (induction rule: runs_to.induct) (auto intro: reachable_step)

lemma runs_not_idle: "runs_to sys_step s as t \<Longrightarrow> reachable s \<Longrightarrow> s_pc s \<noteq> PIdle \<Longrightarrow> s_pc t \<noteq> PIdle"
proof (induction rule: runs_to.induct)
  case (runs_nil s)
  then show ?case by simp
next
  case (runs_snoc s as t a u)
  then have "reachable t" using reachable_runs by blast
  with sched_flow [OF invs(1) runs_snoc.hyps(2)] runs_snoc show ?case using flow_not_idle by metis
qed

section \<open>Order of the calls\<close>



lemma legal_calls_once:
  "legal b all t \<Longrightarrow> length (filter (\<lambda>ev. ev = EvCall r st) t) \<le> 1 \<and>
     (EvCall r st \<notin> set t \<longrightarrow> (\<forall>e. EvReturn r st e \<notin> set t))"
proof (induction t)
  case Nil
  then show ?case by simp
next
  case (Cons ev t)
  then have leg: "legal b all t" "event_ok b all t ev" by auto
  from Cons.IH [OF leg(1)] leg(2) show ?case
    by (cases ev) (auto simp: call_ok_def was_called_def filter_empty_conv)
qed

text \<open>
  in every run, each step of each task is called at most once, and returns at most once, only if
  it was called.
\<close>

theorem step_called_once:
  assumes "reachable s"
  shows "length (filter (\<lambda>ev. ev = EvCall r st) (s_trace s)) \<le> 1 \<and>
     length (log_of s (st, r)) \<le> 2 \<and>
     (\<forall>e. EvReturn r st e \<in> set (s_trace s) \<longrightarrow> EvCall r st \<in> set (s_trace s))"
proof (intro conjI)
  have leg: "legal (m_enforceShutdownTimeout (s_mgr s)) (s_stages s) (s_trace s)"
    using invs(8) [OF assms] by (simp add: legal_inv_def)
  from legal_calls_once [OF this, of r st]
  show "length (filter (\<lambda>ev. ev = EvCall r st) (s_trace s)) \<le> 1"
    "\<forall>e. EvReturn r st e \<in> set (s_trace s) \<longrightarrow> EvCall r st \<in> set (s_trace s)" by blast+
  show "length (log_of s (st, r)) \<le> 2"
  proof (cases "(st, r) \<in> set (keys s)")
    case True
    then obtain g where "g \<in> set (s_gos s)" "g_key g = (st, r)" by auto
    then have "log_of s (st, r) = calls_at g"
      using invs(2) [OF assms] by (auto simp: link_inv_def g_linked_def)
    then show ?thesis by (simp add: calls_at_def split: option.split)
  next
    case False
    then show ?thesis using invs(2) [OF assms] by (simp add: link_inv_def)
  qed
qed

theorem step_called_once_witness:
  "\<exists>s :: unit sys. reachable s \<and> s_pc s = PReturned None None \<and> length (s_trace s) = 8 \<and>
     length (filter (\<lambda>ev. ev = EvCall (StageDefault, 0) StepStop) (s_trace s)) \<le> 1"
  by (rule reachable_end [OF good_run_ends]) (use step_called_once in blast)

text \<open>
  When a setup step returned an error, no start step of its stage or of a later one is called in
  the run, and no setup step of a later stage.
\<close>

theorem failed_setup_stops_start:
  assumes "reachable s" and "EvReturn r StepSetup (Some e) \<in> set (s_trace s)"
  shows "(EvCall r' StepStart \<in> set (s_trace s) \<longrightarrow> earlier (s_stages s) (fst r') (fst r)) \<and>
     (EvCall r' StepSetup \<in> set (s_trace s) \<longrightarrow> \<not> earlier (s_stages s) (fst r) (fst r'))"
proof -
  note lnk = invs(2) [OF assms(1)] and ord = invs(6) [OF assms(1)]
  obtain h where h: "h \<in> set (s_gos s)" "g_tw h = r" "g_step h = StepSetup" "result (g_phase h) = Some (Some e)"
    using returned_goroutine [OF lnk assms(2)] by blast
  have bad: False if g: "g \<in> set (s_gos s)" "must_precede (m_enforceShutdownTimeout (s_mgr s)) (s_stages s) h g"
    "g_step g = StepSetup \<or> g_step g = StepStart" for g
  proof -
    have "done_phase (g_phase h)" "\<not> failed h" using ord h(1) g by (auto simp: order_inv_def)
    then show False using h(3,4) done_reported [of h "Some e"] by (simp add: failed_reported)
  qed
  have call: "\<exists>g\<in>set (s_gos s). g_tw g = r' \<and> g_step g = st" if "EvCall r' st \<in> set (s_trace s)" for st
    using called_goroutine [OF lnk that] by blast
  show ?thesis
    using call [of StepStart] call [of StepSetup] bad h(2,3) by (fastforce simp: must_precede_def)
qed

theorem failed_setup_stops_start_witness:
  "\<exists>s :: unit sys. reachable s \<and> EvReturn (StageDefault, 0) StepSetup (Some db_error) \<in> set (s_trace s) \<and>
     EvCall (StageDefault, 0) StepStart \<notin> set (s_trace s)"
proof (rule reachable_end [OF setup_fails_ends])
  fix s :: "unit sys"
  assume s: "reachable s" and "(case s_pc s of PReturned (Some _) None \<Rightarrow> True | _ \<Rightarrow> False) \<and>
       EvReturn (StageDefault, 0) StepSetup (Some db_error) \<in> set (s_trace s) \<and> m_afterRun (s_mgr s) = [] \<and>
       list_all (\<lambda>ev. case ev of EvReturn r st (Some e) \<Rightarrow> e = db_error | _ \<Rightarrow> True) (s_trace s)"
  then have r: "EvReturn (StageDefault, 0) StepSetup (Some db_error) \<in> set (s_trace s)" by blast
  have "EvCall (StageDefault, 0) StepStart \<notin> set (s_trace s)"
    using failed_setup_stops_start [OF s r, of "(StageDefault, 0)"] not_earlier_self by auto
  with s r show ?thesis by blast
qed

text \<open>
  C10: a task that was notified as skipped is never called, in the whole run: not before the
  notification and not after it.
\<close>

theorem skipped_never_called:
  assumes "reachable s" and "EvSkipped r c \<in> set (s_trace s)"
  shows "EvCall r st \<notin> set (s_trace s) \<and> tw_executeSteps (tw_at (s_tasks s) r) = []"
proof -
  have "untouched s r"
    using invs(7) [OF assms(1)] assms(2) by (auto simp: skip_inv_def skipped_in_iff)
  with untouched_log [OF invs(2) [OF assms(1)]] in_log [of "EvCall r st" "(st, r)" "s_trace s"]
  show ?thesis by (simp add: untouched_def marks_def)
qed

theorem skipped_never_called_witness:
  "\<exists>s :: unit sys. reachable s \<and> EvSkipped (StageDefault, 0) (Some (defs_err ErrNoStartTask)) \<in> set (s_trace s) \<and>
     EvCall (StageDefault, 0) StepSetup \<notin> set (s_trace s)"
proof (rule reachable_end [OF no_start_ends])
  fix s :: "unit sys"
  assume s: "reachable s" and "s_pc s = PReturned (Some (defs_err ErrNoStartTask)) None \<and>
     s_trace s = [EvSkipped (StageDefault, 0) (Some (defs_err ErrNoStartTask))]"
  then have r: "EvSkipped (StageDefault, 0) (Some (defs_err ErrNoStartTask)) \<in> set (s_trace s)" by simp
  with s show ?thesis using skipped_never_called [OF s r, of StepSetup] by blast
qed

section \<open>Waiting\<close>

text \<open>
  C15: when \<open>Run\<close> has returned, no goroutine of a setup or teardown step is left; without an enforced
  shutdown timeout no goroutine is left at all.
\<close>

theorem run_returned_quiet:
  assumes "reachable s" and "s_pc s = PReturned c se" and "g \<in> set (s_gos s)"
    and "g_step g = StepSetup \<or> g_step g = StepTeardown \<or> \<not> m_enforceShutdownTimeout (s_mgr s)"
  shows "done_phase (g_phase g)"
proof (cases "waited (m_enforceShutdownTimeout (s_mgr s)) (g_step g)")
  case True
  then show ?thesis using returned_done [OF invs(4) [OF assms(1)]] assms by blast
next
  case False
  moreover have "step_known (g_step g)" using sched_invD(7) [OF invs(1) [OF assms(1)] assms(3)] .
  ultimately have "g_step g = StepStart" "\<not> m_enforceShutdownTimeout (s_mgr s)"
    using assms(4) by (cases "g_step g"; simp add: waited_def)+
  then show ?thesis using invs(4) [OF assms(1)] assms(2,3) by (simp add: barrier_inv_def)
qed

theorem run_returned_quiet_witness:
  "\<exists>s :: unit sys. reachable s \<and> (\<exists>se. s_pc s = PReturned None (Some se)) \<and> length (s_gos s) = 4 \<and>
     (\<forall>g\<in>set (s_gos s). done_phase (g_phase g))"
proof (rule reachable_end [OF stop_fails_ends])
  fix s :: "unit sys"
  assume s: "reachable s" and p: "(case s_pc s of PReturned None (Some _) \<Rightarrow> True | _ \<Rightarrow> False) \<and>
       EvReturn (StageDefault, 0) StepStop (Some db_error) \<in> set (s_trace s) \<and>
       \<not> m_enforceShutdownTimeout (s_mgr s) \<and> length (s_gos s) = 4"
  then obtain se where "s_pc s = PReturned None (Some se)" by (auto split: pc.splits option.splits)
  with s p run_returned_quiet [OF s] show ?thesis by blast
qed

text \<open>
  C17: no \<open>WaitGroup\<close> of the manager goes below zero: a goroutine about to call \<open>Done\<close> on the wait
  group of its step, or on \<open>startWg\<close>, is still counted there.
\<close>

theorem wait_groups_never_negative:
  assumes "reachable s" and "g \<in> set (s_gos s)"
  shows "(\<not> done_phase (g_phase g) \<longrightarrow> wg_count s (g_step g) (fst (g_tw g)) > 0) \<and>
     (g_phase g = GNew \<and> g_step g = StepStart \<longrightarrow> s_startWg s > 0)"
proof -
  have mem: "P g \<Longrightarrow> length (filter P (s_gos s)) > 0" for P using assms(2) by (auto simp: filter_empty_conv)
  show ?thesis
    using invs(3) [OF assms(1)] mem [of "waits_for (g_step g) (fst (g_tw g))"] mem [of not_begun]
    by (auto simp: count_inv_def waits_for_def not_begun_def)
qed

theorem wait_groups_never_negative_witness:
  "\<exists>s :: unit sys. reachable s \<and> length (s_gos s) = 2 \<and> g_phase (s_gos s ! 1) = GRunning \<and>
     wg_count s (g_step (s_gos s ! 1)) (fst (g_tw (s_gos s ! 1))) > 0"
proof (rule reachable_end [OF up_ends])
  fix s :: "unit sys"
  assume s: "reachable s" and u: "s_pc s = PSelect \<and> g_phase (s_gos s ! 1) = GRunning \<and> length (s_gos s) = 2"
  then have "s_gos s ! 1 \<in> set (s_gos s)" by (intro nth_mem) simp
  with u s wait_groups_never_negative [OF s this] show ?thesis by auto
qed

section \<open>Stopping\<close>

text \<open>
  C5: a call of \<open>Shutdown\<close> is never lost. Whenever it comes, before, during or after the creation of
  the contexts, in every later state the request is recorded or the startup context is cancelled,
  and \<open>Run\<close> never waits at the \<open>select\<close> with the startup context not cancelled.
\<close>

theorem shutdown_never_lost:
  assumes "reachable s" and "sys_step s AShutdown s1" and "runs_to sys_step s1 as s2"
  shows "stop_requested s2 \<and> (s_pc s2 = PSelect \<longrightarrow> startup_done s2)"
proof -
  have ctx: "ctx_inv s" using invs(11) [OF assms(1)] .
  have "s1 = set_mgr_ctxs (Shutdown (s_mgr s, s_ctxs s)) s" using assms(2) by (cases rule: sys_step.cases) auto
  then have "stop_requested s1" using request_requests [OF invs(9) [OF assms(1)]] by (simp add: Shutdown_def)
  with stop_requested_runs [OF assms(3)] ctx_inv_step [OF ctx assms(2)] show ?thesis
    using stop_requested_select by blast
qed

theorem shutdown_never_lost_witness:
  "\<exists>(s :: unit sys) s1 s2. reachable s \<and> s_pc s = PSelect \<and> sys_step s AShutdown s1 \<and>
     runs_to sys_step s1 [AReturn 1 None ()] s2 \<and> stop_requested s2"
proof (rule reachable_end [OF up_ends])
  fix s :: "unit sys"
  assume s: "reachable s" and u: "s_pc s = PSelect \<and> g_phase (s_gos s ! 1) = GRunning \<and> length (s_gos s) = 2"
  let ?s1 = "set_mgr_ctxs (Shutdown (s_mgr s, s_ctxs s)) s"
  let ?s2 = "go_return 1 None () ?s1"
  have "sys_step ?s1 (AReturn 1 None ()) ?s2" using u by (intro st_return) (simp_all add: set_mgr_ctxs_def)
  then have run: "runs_to sys_step ?s1 [AReturn 1 None ()] ?s2" using runs_to_cons [of sys_step] runs_nil by metis
  show ?thesis using s u st_shutdown [of s] run shutdown_never_lost [OF s st_shutdown run] by blast
qed



text \<open>
  C14: the run machine does not deadlock: unless \<open>Run\<close> was not called, has returned, or waits at the
  \<open>select\<close> for a reason to stop, the manager or one of its goroutines can take a step (a running
  task may return).
\<close>

theorem run_no_deadlock:
  assumes "reachable s" and "s_pc s \<notin> {PIdle, PSelect}" and "\<not> terminal (s_pc s)"
  shows "\<exists>a s'. internal a \<and> sys_step s a s'"
  using progress [OF invs(1,3) [OF assms(1)]] assms by blast

theorem run_no_deadlock_witness:
  "\<exists>s :: unit sys. reachable s \<and> s_pc s = PWaitTasks \<and> (\<exists>a s'. internal a \<and> sys_step s a s')"
proof (rule reachable_end [OF late_start_ends])
  fix s :: "unit sys"
  assume s: "reachable s" and "s_pc s = PWaitTasks \<and>
       s_trace s = [EvCall (StageDefault, 0) StepStart, EvReturn (StageDefault, 0) StepSetup None,
         EvCall (StageDefault, 0) StepSetup] \<and>
       taskHasStep (tw_task (tw_at (s_tasks s) (StageDefault, 0))) StepStop () \<and> stop_requested s \<and>
       length (s_gos s) = 2 \<and> g_phase (s_gos s ! 1) = GRunning \<and> \<not> m_enforceShutdownTimeout (s_mgr s)"
  then have pc: "s_pc s = PWaitTasks" by blast
  then have "\<exists>a s'. internal a \<and> sys_step s a s'" by (intro run_no_deadlock [OF s]) simp_all
  with s pc show ?thesis by blast
qed

section \<open>What Run returns\<close>







text \<open>
  The order check never fails in a run: whenever \<open>runStageStep\<close> asks a wrapper whether its step
  may start, \<open>checkStartStep\<close> answers without an order error.
\<close>

theorem order_error_unreachable:
  assumes "reachable s" and "s_pc s = PRun st ss (RSpawn i)" and "i < length (stageTasks_get (s_tasks s) (hd ss))"
  shows "\<exists>b. snd (checkStartStep (tw_at (s_tasks s) (hd ss, i)) (s_world s) st) = Inr b"
  using run_check_total [OF invs(1) [OF assms(1)] assms(2)] assms(3) by (simp add: tw_valid_def)

theorem order_error_unreachable_witness:
  "\<exists>(s :: unit sys) b. reachable s \<and> s_pc s = PRun StepSetup [StageDefault] (RSpawn 0) \<and>
     snd (checkStartStep (tw_at (s_tasks s) (StageDefault, 0)) () StepSetup) = Inr b"
proof (rule reachable_end)
  show "ends_in (\<lambda>s. s_pc s = PRun StepSetup [StageDefault] (RSpawn 0) \<and>
     0 < length (stageTasks_get (s_tasks s) StageDefault)) prologue (one_task True [] allSteps)"
    by code_simp
  fix s :: "unit sys"
  assume s: "reachable s" and u: "s_pc s = PRun StepSetup [StageDefault] (RSpawn 0) \<and>
     0 < length (stageTasks_get (s_tasks s) StageDefault)"
  with s show ?thesis using order_error_unreachable [OF s, of StepSetup "[StageDefault]" 0] by auto
qed

section \<open>Causes\<close>

lemma startup_cause_step:
  assumes "refs_inv s" and "sched_inv s" and "sys_step s a s'" and "startup_done s"
  shows "startup_cause s' = startup_cause s"
proof -
  obtain c where c: "m_startupCtx (s_mgr s) = Some c" "ctx_Done (s_ctxs s) c"
    using assms(4) by (auto simp: startup_done_def split: option.splits)
  then have "c < length (s_ctxs s)" using refs_invD(9) [OF assms(1)] by simp
  moreover have "ctxs_le (s_ctxs s) (s_ctxs s')"
    using step_grows [OF assms(3,1,2)] by (simp add: grows_def)
  ultimately have "ctx_Cause (s_ctxs s') c = ctx_Cause (s_ctxs s) c" using c(2) ctxs_le_Cause by blast
  with step_startupCtx [OF assms(3,1) c(1)] c(1) show ?thesis by (simp add: startup_cause_def)
qed

text \<open>
  the first cause wins: once the startup context is cancelled, by a task, by \<open>Shutdown\<close>, by a
  failed setup or by a late registration, its cause never changes.
\<close>

theorem first_startup_cause_wins:
  assumes "reachable s" and "startup_done s" and "runs_to sys_step s as s'"
  shows "startup_done s' \<and> startup_cause s' = startup_cause s"
  using assms(3,1,2)
proof (induction rule: runs_to.induct)
  case (runs_nil s)
  then show ?case by simp
next
  case (runs_snoc s as t a u)
  have "reachable t" using reachable_runs runs_snoc by blast
  with startup_cause_step [OF invs(9,1) runs_snoc.hyps(2)] startup_done_step [OF runs_snoc.hyps(2) invs(9,1)]
    runs_snoc show ?case by metis
qed

theorem first_startup_cause_wins_witness:
  "\<exists>(s :: unit sys) s' e. reachable s \<and> startup_cause s = Some (defs_err ErrExit) \<and>
     runs_to sys_step s [AAddInitError (Some e)] s' \<and> startup_cause s' = Some (defs_err ErrExit)"
proof (rule reachable_end)
  show "ends_in (\<lambda>s. startup_done s \<and> startup_cause s = Some (defs_err ErrExit)) (up @ [AShutdown])
     (one_task True [] allSteps)" by code_simp
  fix s :: "unit sys"
  assume s: "reachable s" and u: "startup_done s \<and> startup_cause s = Some (defs_err ErrExit)"
  let ?s' = "set_mgr_ctxs (AddInitError (Some db_error) (s_mgr s, s_ctxs s)) s"
  have "runs_to sys_step s [AAddInitError (Some db_error)] ?s'"
    using runs_to_cons [of sys_step, OF st_add_error] runs_nil by metis
  with s u first_startup_cause_wins [OF s _ this] show ?thesis by metis
qed


lemma cancel_opt_ctxs: "s_ctxs (cancel_opt co e s) = (case co of None \<Rightarrow> s_ctxs s | Some c \<Rightarrow> ctx_cancel c e (s_ctxs s))"
  by (simp add: cancel_opt_def split: option.split)

lemma ctx_new_grows: "ctx_new k p st = (st', c) \<Longrightarrow> ctxs_le st st'"
  using ctx_new_le [of st k p] by simp

text \<open>The contexts \<open>begin_shutdown\<close> makes, one after the other.\<close>

lemma begin_shutdown_ctxs:
  fixes s :: "'w sys" and sel :: "go_error option"
  defines "cause \<equiv> (if s_startErr s \<noteq> None then s_startErr s else sel)"
  obtains ctxs1 base ctxs2 arg where "ctxs_le (s_ctxs (cancel_opt (m_taskDoneCancel (s_mgr s)) cause s)) ctxs1"
    "contextWithCause base cause ctxs1 = (ctxs2, arg)" "arg < length ctxs2"
    "s_ctxs (begin_shutdown sel s) =
       (if m_shutdownTimeout (s_mgr s) > 0 then fst (ctx_WithTimeout arg ctxs2) else ctxs2)"
    "s_shutdownCtx (begin_shutdown sel s) = (if m_shutdownTimeout (s_mgr s) > 0 then length ctxs2 else arg)"
proof -
  define s1 where "s1 = cancel_opt (m_taskDoneCancel (s_mgr s)) cause s"
  obtain ctxs1 base where b: "(case s_shutdownOpt s of None \<Rightarrow> ctx_WithoutCancel (s_ctx s) (s_ctxs s1)
      | Some c \<Rightarrow> loggerToContext c (m_logger (s_mgr s)) (s_ctxs s1)) = (ctxs1, base)" by force
  obtain ctxs2 arg where a: "contextWithCause base cause ctxs1 = (ctxs2, arg)" by force
  have argl: "arg < length ctxs2" using a by (auto simp: contextWithCause_def ctx_new_def)
  have le: "ctxs_le (s_ctxs s1) ctxs1"
    using b by (cases "s_shutdownOpt s") (auto simp: loggerToContext_def dest: ctx_new_grows)
  have "begin_shutdown sel s = begin_stage StepStop (rev (s_stages s))
      (s1\<lparr>s_cause := cause,
          s_ctxs := (if m_shutdownTimeout (s_mgr s) > 0 then fst (ctx_WithTimeout arg ctxs2) else ctxs2),
          s_shutArg := arg,
          s_shutdownCtx := (if m_shutdownTimeout (s_mgr s) > 0 then length ctxs2 else arg), s_eb := []\<rparr>)"
    using b a unfolding begin_shutdown_def cause_def [symmetric] s1_def [symmetric] Let_def
    by (simp add: ctx_new_def)
  with le a argl show ?thesis by (intro that [of ctxs1 base ctxs2 arg]) (simp_all add: s1_def begin_stage_def)
qed

lemma begin_shutdown_visible:
  assumes "s_cause (begin_shutdown sel s) = Some e"
  shows "CauseFromContext (s_ctxs (begin_shutdown sel s)) (s_shutdownCtx (begin_shutdown sel s)) = (Some e, True)"
proof -
  have ce: "(if s_startErr s \<noteq> None then s_startErr s else sel) = Some e"
    using assms by (simp add: begin_shutdown_cause)
  show ?thesis
  proof (rule begin_shutdown_ctxs [of s sel], unfold ce)
    fix ctxs1 base ctxs2 arg
    assume a: "contextWithCause base (Some e) ctxs1 = (ctxs2, arg)" "arg < length ctxs2"
      and st: "s_ctxs (begin_shutdown sel s) =
        (if m_shutdownTimeout (s_mgr s) > 0 then fst (ctx_WithTimeout arg ctxs2) else ctxs2)"
        "s_shutdownCtx (begin_shutdown sel s) = (if m_shutdownTimeout (s_mgr s) > 0 then length ctxs2 else arg)"
    show ?thesis
      unfolding st using CauseFromContext_contextWithCause [OF a(1)] CauseFromContext_inherit [OF a(2), of KTimeout]
      by simp
  qed
qed

lemma begin_shutdown_cancels_tasks:
  assumes refs: "refs_inv s" and c: "m_taskDoneCtx (s_mgr s) = Some c"
  shows "ctx_Done (s_ctxs (begin_shutdown sel s)) c"
proof -
  have cl: "c < length (s_ctxs s)" "m_taskDoneCancel (s_mgr s) = Some c"
    using refs c by (auto simp: refs_inv_def)
  let ?cause = "if s_startErr s \<noteq> None then s_startErr s else sel"
  let ?s1 = "cancel_opt (m_taskDoneCancel (s_mgr s)) ?cause s"
  have d: "ctx_Done (s_ctxs ?s1) c" "c < length (s_ctxs ?s1)"
    using cc.cancel_done [OF cl(1), of ?cause] cl by (simp_all add: cancel_opt_ctxs)
  show ?thesis
  proof (rule begin_shutdown_ctxs [of s sel])
    fix ctxs1 base ctxs2 arg
    assume le: "ctxs_le (s_ctxs ?s1) ctxs1" and a: "contextWithCause base ?cause ctxs1 = (ctxs2, arg)"
      and st: "s_ctxs (begin_shutdown sel s) =
        (if m_shutdownTimeout (s_mgr s) > 0 then fst (ctx_WithTimeout arg ctxs2) else ctxs2)"
    have "ctxs_le ctxs1 ctxs2" using a ctx_new_le by (metis contextWithCause_def fst_conv)
    then have "ctxs_le (s_ctxs ?s1) (s_ctxs (begin_shutdown sel s))"
      unfolding st using le ctxs_le_trans ctx_new_le by (auto split: if_split)
    with d show ?thesis using ctxs_le_Done by blast
  qed
qed



section \<open>Panics\<close>

text \<open>
  \<open>Run\<close> panics on a nil context only when a \<open>beforeRun\<close> callback was given one or returned one:
  when every callback returns a context, it does not.
\<close>

theorem run_does_not_panic:
  assumes "initial s" and "\<forall>f\<in>set (m_beforeRun (s_mgr s)). keeps_ctx f" and "runs_to sys_step s as s'"
  shows "s_pc s' \<noteq> PPanicked"
proof -
  have "safe_inv s" using assms(1,2) by (simp add: safe_inv_def initial_def)
  with assms(3) have "safe_inv s'" by (induction rule: runs_to.induct) (auto intro: safe_inv_step)
  then show ?thesis by (auto simp: safe_inv_def)
qed

theorem run_does_not_panic_witness:
  "\<exists>s'. runs_to sys_step (one_task True [\<lambda>c st. (st, c, None)] allSteps) [ARun 0 None, AMain True, AMain True] s' \<and>
     s_pc s' = PBeforeRun 1 (Some 1) \<and> s_pc s' \<noteq> PPanicked"
proof -
  let ?s = "one_task True [\<lambda>c st. (st, c, None)] allSteps"
  have ends: "ends_in (\<lambda>s. s_pc s = PBeforeRun 1 (Some 1)) [ARun 0 None, AMain True, AMain True] ?s" by code_simp
  then obtain s' where s': "exec_all [ARun 0 None, AMain True, AMain True] ?s = Some s'" "s_pc s' = PBeforeRun 1 (Some 1)"
    by (auto simp: ends_in_def split: option.splits)
  have "initial ?s" by (rule one_task_initial) (simp add: before_run_ok_def)
  moreover have "\<forall>f\<in>set (m_beforeRun (s_mgr ?s)). keeps_ctx f"
    by (simp add: one_task_def AddTask_def default_manager_def noop_task_def GetTaskInfo_def zero_task_info_def
        initial_sys_def keeps_ctx_def StageDefault_def)
  ultimately show ?thesis using run_does_not_panic exec_all_runs [OF s'(1)] s' by blast
qed


section \<open>A stop step that is lost\<close>

fun past_stop :: "pc \<Rightarrow> bool" where
  "past_stop (PRun st _ _) = (st = StepTeardown)"
| "past_stop PWaitTasks = True"
| "past_stop (PReturned _ _) = True"
| "past_stop _ = False"

lemma past_stop_flow: "flow all pc pc' \<Longrightarrow> past_stop pc \<Longrightarrow> past_stop pc'"
  by (induction rule: flow.induct) auto

definition no_stop :: "tref \<Rightarrow> 'w sys \<Rightarrow> bool" where
  "no_stop r s \<longleftrightarrow> past_stop (s_pc s) \<and> (StepStop, r) \<notin> set (keys s)"

lemma no_stop_step:
  assumes "sys_step s a s'" and "sched_inv s" and "no_stop r s"
  shows "no_stop r s'"
proof -
  have ps: "past_stop (s_pc s')" using sched_flow [OF assms(2,1)] past_stop_flow assms(3) by (metis no_stop_def)
  have "(StepStop, r) \<notin> set (keys s')"
    using assms(1)
  proof (cases rule: step_shape)
    case same
    then show ?thesis using assms(3) by (simp add: no_stop_def)
  next
    case (loop st ss i)
    then have "st = StepTeardown" using assms(3) by (simp add: no_stop_def)
    with loop assms(3) show ?thesis
      by (auto simp: no_stop_def loop_task_gos new_goroutine_def g_key_def)
  next
    case (move j p)
    then show ?thesis using moved_keys [OF move(2)] assms(3) by (simp add: no_stop_def)
  qed
  with ps show ?thesis by (simp add: no_stop_def)
qed

lemma no_stop_never:
  assumes "runs_to sys_step s as s'" and "reachable s" and "no_stop r s"
  shows "EvCall r StepStop \<notin> set (s_trace s')"
proof -
  have "no_stop r s'"
    using assms
  proof (induction rule: runs_to.induct)
    case (runs_nil s)
    then show ?case by simp
  next
    case (runs_snoc s as t a u)
    then show ?case using no_stop_step invs(1) reachable_runs by metis
  qed
  moreover have "link_inv s'" using invs(2) reachable_runs assms(1,2) by blast
  ultimately have "log_of s' (StepStop, r) = []" by (simp add: link_inv_def no_stop_def)
  then show ?thesis using in_log [of "EvCall r StepStop" "(StepStop, r)" "s_trace s'"] by simp
qed

text \<open>
  C21: a task can be started and never stopped: when a stop was requested before its start step was
  marked as executed (\<open>startWg.Done\<close> comes before \<open>addStepDone\<close>), the stop step is skipped. The
  task runs, it has a stop step, \<open>Run\<close> waits for it to return, and no continuation of the run ever
  calls its stop step.
\<close>

theorem started_task_never_stopped:
  "\<exists>s :: unit sys. reachable s \<and> s_pc s = PWaitTasks \<and> \<not> m_enforceShutdownTimeout (s_mgr s) \<and>
     EvCall (StageDefault, 0) StepStart \<in> set (s_trace s) \<and>
     taskHasStep (tw_task (tw_at (s_tasks s) (StageDefault, 0))) StepStop () \<and>
     \<not> (\<exists>as s'. runs_to sys_step s as s' \<and> EvCall (StageDefault, 0) StepStop \<in> set (s_trace s'))"
proof (rule reachable_end)
  show "ends_in (\<lambda>s. s_pc s = PWaitTasks \<and> \<not> m_enforceShutdownTimeout (s_mgr s) \<and>
     EvCall (StageDefault, 0) StepStart \<in> set (s_trace s) \<and>
     taskHasStep (tw_task (tw_at (s_tasks s) (StageDefault, 0))) StepStop () \<and>
     map g_key (s_gos s) = [(StepSetup, (StageDefault, 0)), (StepStart, (StageDefault, 0))])
     late_start (one_task False [] allSteps)"
    by code_simp
  fix s :: "unit sys"
  assume s: "reachable s" and u: "s_pc s = PWaitTasks \<and> \<not> m_enforceShutdownTimeout (s_mgr s) \<and>
     EvCall (StageDefault, 0) StepStart \<in> set (s_trace s) \<and>
     taskHasStep (tw_task (tw_at (s_tasks s) (StageDefault, 0))) StepStop () \<and>
     map g_key (s_gos s) = [(StepSetup, (StageDefault, 0)), (StepStart, (StageDefault, 0))]"
  then have "no_stop (StageDefault, 0) s" by (simp add: no_stop_def)
  with s u no_stop_never [OF _ s] show ?thesis by blast
qed


section \<open>Nothing is forgotten\<close>

text \<open>
  C6: no task is forgotten: when \<open>Run\<close> has returned, however it went, every task that has a setup step
  (in the worlds \<open>I\<close> of the states of the run) and wants to be notified was either set up (its setup
  step has returned) or notified that it is skipped, and never both. What waits on the one or the
  other, like a \<open>Future\<close>, does not wait forever.
\<close>

theorem every_task_set_up_or_skipped:
  assumes "reachable_in I s" and "s_pc s = PReturned c se" and "tw_valid (s_tasks s) r"
    and "tracked I (tw_task (tw_at (s_tasks s) r))"
  shows "(\<exists>e. EvReturn r StepSetup e \<in> set (s_trace s)) \<noteq> skipped_in (s_trace s) r"
proof -
  note reach = reachable_in_reachable [OF assms(1)]
  have "\<not> (\<exists>e. EvReturn r StepSetup e \<in> set (s_trace s))" if "skipped_in (s_trace s) r"
  proof -
    have "untouched s r" using invs(7) [OF reach] that by (auto simp: skip_inv_def)
    then have "log_of s (StepSetup, r) = []" using untouched_log invs(2) [OF reach] by blast
    then show ?thesis using in_log [of "EvReturn r StepSetup e" "(StepSetup, r)" "s_trace s" for e] by auto
  qed
  with covered_returned [OF assms] show ?thesis by blast
qed

theorem every_task_set_up_or_skipped_witness:
  "\<exists>s :: unit sys. reachable s \<and> s_pc s = PReturned (Some (defs_err ErrNoStartTask)) None \<and>
     skipped_in (s_trace s) (StageDefault, 0) \<and> \<not> (\<exists>e. EvReturn (StageDefault, 0) StepSetup e \<in> set (s_trace s))"
proof -
  have "ends_in (\<lambda>s. s_pc s = PReturned (Some (defs_err ErrNoStartTask)) None \<and>
       skipped_in (s_trace s) (StageDefault, 0) \<and> tw_valid (s_tasks s) (StageDefault, 0) \<and>
       taskHasStep (tw_task (tw_at (s_tasks s) (StageDefault, 0))) StepSetup () \<and>
       (case ti_Skipped (GetTaskInfo (tw_task (tw_at (s_tasks s) (StageDefault, 0))) ()) of Some _ \<Rightarrow> True | None \<Rightarrow> False))
     [ARun 0 None, AMain True] (one_task True [] [StepSetup])"
    by code_simp
  then obtain s :: "unit sys" where s: "reachable s" "s_pc s = PReturned (Some (defs_err ErrNoStartTask)) None"
    "skipped_in (s_trace s) (StageDefault, 0)" "tw_valid (s_tasks s) (StageDefault, 0)"
    "taskHasStep (tw_task (tw_at (s_tasks s) (StageDefault, 0))) StepSetup ()"
    "ti_Skipped (GetTaskInfo (tw_task (tw_at (s_tasks s) (StageDefault, 0))) ()) \<noteq> None"
    by (rule reachable_end) (auto split: option.splits)
  then have t: "tracked (\<lambda>_. True) (tw_task (tw_at (s_tasks s) (StageDefault, 0)))" by (simp add: tracked_def has_setup_in_def)
  have "reachable_in (\<lambda>_. True) s" using s(1) by (simp add: reachable_in_True)
  from every_task_set_up_or_skipped [OF this s(2,4) t] s show ?thesis by blast
qed


end
