(* ===== verification/RunEarly.thy ===== *)
theory RunEarly
  imports RunTheorems
begin

text \<open>
  Runs that end before their first stage: initialization errors recorded before \<open>Run\<close>.
\<close>

declare split_paired_All [simp del] split_paired_Ex [simp del]

definition no_call :: "event list \<Rightarrow> bool" where
  "no_call t \<longleftrightarrow> (\<forall>r st. EvCall r st \<notin> set t)"

fun early :: "go_error list \<Rightarrow> pc \<Rightarrow> bool" where
  "early errs PIdle = True"
| "early errs PEntered = True"
| "early errs (PReturned e se) = (e = buildMultiErrors errs \<and> se = None)"
| "early errs _ = False"

definition early_inv :: "'w sys \<Rightarrow> bool" where
  "early_inv s \<longleftrightarrow>
     (m_initErrors (s_mgr s) \<noteq> [] \<or> s_pc s = PIdle \<or> s_pc s = PEntered \<longrightarrow>
        s_gos s = [] \<and> no_call (s_trace s) \<and> early (m_initErrors (s_mgr s)) (s_pc s))"

lemma fold_notify_early [simp]:
  "s_mgr (fold (notify_one c e) rs s) = s_mgr s" "s_gos (fold (notify_one c e) rs s) = s_gos s"
  "no_call (s_trace (fold (notify_one c e) rs s)) = no_call (s_trace s)"
  by (induction rs arbitrary: s) (auto simp: notify_one_def no_call_def split: option.split)

lemma late_registration_keeps:
  "m_isRunning m \<Longrightarrow> m_initErrors (fst (AddTask stage t opts w (m, st))) = m_initErrors m"
  "m_isRunning m \<Longrightarrow> m_initErrors (fst (AddInitError e (m, st))) = m_initErrors m"
  "m_initErrors (fst (Shutdown (m, st))) = m_initErrors m"
  by (auto simp: AddTask_def AddInitError_def addInitError_def requestStartupCancel_def Shutdown_def
      split: option.split)

lemma step_initErrors:
  assumes "sys_step s a s'" and "m_isRunning (s_mgr s)"
  shows "m_initErrors (s_mgr s') = m_initErrors (s_mgr s)"
  using assms(1)
proof (cases rule: sys_step.cases)
  case (st_before i co b)
  then show ?thesis
    by (auto simp: run_beforeRun_def early_return_def notifyTasksSkipped_def Let_def split_beta
        split: option.split)
qed (use assms(2) in \<open>simp_all add: set_mgr_ctxs_def late_registration_keeps run_enter_def run_checks_def
  early_return_def notifyTasksSkipped_def Let_def split_beta\<close>)

text \<open>Before the run too, errors are only added.\<close>

lemma registration_errors:
  "\<exists>es. m_initErrors (fst (AddTask stage t opts w (m, st))) = m_initErrors m @ es"
  "\<exists>es. m_initErrors (fst (AddInitError e (m, st))) = m_initErrors m @ es"
  by (auto simp: AddTask_def AddInitError_def addInitError_def requestStartupCancel_def split: option.split)

lemma step_errors_grow:
  assumes "sys_step s a s'"
  shows "\<exists>es. m_initErrors (s_mgr s') = m_initErrors (s_mgr s) @ es"
  using assms
proof (cases rule: sys_step.cases)
  case (st_before i co b)
  then show ?thesis
    by (auto simp: run_beforeRun_def early_return_def notifyTasksSkipped_def Let_def split_beta
        split: option.split)
qed (simp_all add: set_mgr_ctxs_def late_registration_keeps registration_errors run_enter_def run_checks_def
  early_return_def notifyTasksSkipped_def Let_def split_beta)

lemma runs_errors_grow:
  "runs_to sys_step s as t \<Longrightarrow> set (m_initErrors (s_mgr s)) \<subseteq> set (m_initErrors (s_mgr t))"
proof (induction rule: runs_to.induct)
  case (runs_snoc s as t a u)
  from step_errors_grow [OF runs_snoc.hyps(2)] runs_snoc.IH show ?case by auto
qed simp

lemma early_inv_step:
  assumes "early_inv s" and "sys_step s a s'" and "sched_inv s"
  shows "early_inv s'"
proof (cases "m_initErrors (s_mgr s) = [] \<and> s_pc s \<noteq> PIdle \<and> s_pc s \<noteq> PEntered")
  case True
  then have run: "m_isRunning (s_mgr s)" using sched_invD(4) [OF assms(3)] by blast
  have "s_pc s' \<noteq> PIdle \<and> s_pc s' \<noteq> PEntered"
    using sched_flow [OF assms(3,2)] True by (auto elim: flow.cases)
  with step_initErrors [OF assms(2) run] True show ?thesis by (simp add: early_inv_def)
next
  case False
  then have e: "s_gos s = []" "no_call (s_trace s)" "early (m_initErrors (s_mgr s)) (s_pc s)"
    using assms(1) by (auto simp: early_inv_def)
  have running: "s_pc s \<noteq> PIdle \<Longrightarrow> m_isRunning (s_mgr s)" using sched_invD(4) [OF assms(3)] by blast
  from assms(2) show ?thesis
  proof (cases rule: sys_step.cases)
    case (st_checks b)
    with e False show ?thesis
      by (simp add: early_inv_def run_checks_def early_return_def notifyTasksSkipped_def Let_def split_beta)
  next
    case (st_enter c opt)
    moreover have "\<not> m_isRunning (s_mgr s)"
      using sched_invD [OF assms(3)] st_enter by (auto simp: idle_manager_def)
    ultimately show ?thesis using e by (simp add: early_inv_def run_enter_def)
  next
    case st_shutdown
    with e False show ?thesis by (auto simp: early_inv_def set_mgr_ctxs_def late_registration_keeps)
  next
    case (st_add_task stage t opts)
    with e False running show ?thesis
      by (cases "s_pc s = PIdle") (auto simp: early_inv_def set_mgr_ctxs_def late_registration_keeps)
  next
    case (st_add_error err)
    with e False running show ?thesis
      by (cases "s_pc s = PIdle") (auto simp: early_inv_def set_mgr_ctxs_def late_registration_keeps)
  qed (use e False in \<open>auto simp: early_inv_def\<close>)
qed


interpretation early: invariant_machine sys_step initial "\<lambda>s. outcome_inv s \<and> early_inv s"
proof unfold_locales
  show "outcome_inv s \<and> early_inv s" if "initial s" for s :: "'w sys"
    using initial_outcome_inv [OF that] that by (auto simp: initial_def early_inv_def no_call_def)
  show "outcome_inv t \<and> early_inv t" if "outcome_inv s \<and> early_inv s" "sys_step s a t" for s t :: "'w sys" and a
    using outcome.inv_step early_inv_step outcome_sched that by blast
qed

lemma reachable_early_inv: "reachable s \<Longrightarrow> early_inv s"
  unfolding reachable_def using early.inv_run by blast

text \<open>
  C8: initialization errors recorded before \<open>Run\<close> are never lost: \<open>Run\<close> calls no step of any task and
  returns at once an error that is each of them.
\<close>

theorem init_errors_reported:
  assumes "reachable s" and "m_initErrors (s_mgr s) \<noteq> []" and "s_pc s \<noteq> PIdle"
  shows "no_call (s_trace s) \<and> s_gos s = [] \<and>
    (case s_pc s of
       PEntered \<Rightarrow> (case exec (AMain b) s of
          Some s' \<Rightarrow> s_pc s' = PReturned (buildMultiErrors (m_initErrors (s_mgr s))) None | None \<Rightarrow> False)
     | PReturned e se \<Rightarrow> se = None \<and>
         (\<forall>t. errors_Is e t \<longleftrightarrow> list_ex (err_is t) (m_initErrors (s_mgr s)))
     | _ \<Rightarrow> False)"
  using reachable_early_inv [OF assms(1)] assms(2,3)
  by (cases "s_pc s") (auto simp: early_inv_def main_exec_def run_checks_def early_return_def)

definition bad_init :: "unit action list" where
  "bad_init = [AAddInitError (Some db_error), ARun 0 None, AMain True]"

lemma bad_init_ends:
  "ends_in (\<lambda>s. (case s_pc s of PReturned (Some _) None \<Rightarrow> True | _ \<Rightarrow> False) \<and>
      m_initErrors (s_mgr s) = [db_error]) bad_init (one_task True [] allSteps)"
  by code_simp

theorem init_errors_reported_witness:
  "\<exists>s :: unit sys. reachable s \<and> (\<exists>e. s_pc s = PReturned (Some e) None \<and> (\<forall>t. err_is t db_error \<longrightarrow> err_is t e))"
proof (rule reachable_end [OF bad_init_ends])
  fix s :: "unit sys"
  assume s: "reachable s" and "(case s_pc s of PReturned (Some _) None \<Rightarrow> True | _ \<Rightarrow> False) \<and>
    m_initErrors (s_mgr s) = [db_error]"
  then obtain e where "s_pc s = PReturned (Some e) None" "m_initErrors (s_mgr s) = [db_error]"
    by (auto split: pc.splits option.splits)
  with init_errors_reported [OF s] s show ?thesis by auto
qed

end
