(* ===== verification/RunLater.thy ===== *)
theory RunLater
  imports RunTheorems
begin

text \<open>
  The stages after the one whose setup failed: none of their tasks runs any step, not even stop and
  teardown, as the documentation of \<open>Run\<close> says.
\<close>

declare split_paired_All [simp del] split_paired_Ex [simp del]

section \<open>Once the start is over\<close>

lemma past_start_not_setup: "past_start pc \<Longrightarrow> \<not> in_stage pc StepSetup x"
  by (cases pc) auto

lemma setup_done_past_start:
  "barrier_inv s \<Longrightarrow> past_start (s_pc s) \<Longrightarrow> g \<in> set (s_gos s) \<Longrightarrow> g_step g = StepSetup \<Longrightarrow> done_phase (g_phase g)"
  using past_start_not_setup by (auto simp: barrier_inv_def waited_def)

lemma setup_log_fixed:
  assumes "sys_step s a s'" and "barrier_inv s" and "past_start (s_pc s)"
  shows "log_of s' (StepSetup, r) = log_of s (StepSetup, r)"
proof -
  have other: "g_step (s_gos s ! j) \<noteq> StepSetup" if "j < length (s_gos s)" "\<not> done_phase (g_phase (s_gos s ! j))" for j
    using setup_done_past_start [OF assms(2,3)] that by auto
  from assms(1) show ?thesis
  proof (cases rule: sys_step.cases)
    case (st_call j)
    with other [of j] show ?thesis by (simp add: log_go_call g_key_def)
  next
    case (st_return j err w)
    obtain e where "s_trace s' = EvReturn (g_tw (s_gos s ! j)) (g_step (s_gos s ! j)) e # s_trace s"
      using go_moved(5) [where j = j and s = s and err = err and w = w] st_return by blast
    with st_return other [of j] show ?thesis by simp
  qed (simp_all add: run_publish_def Let_def split_beta)
qed

section \<open>The later stages are untouched\<close>

lemma later_in_tail:
  assumes "pre @ ss = all" and "ss \<noteq> []" and "distinct all" and "earlier all (hd ss) y" and "y \<in> set all"
  shows "y \<in> set (tl ss)"
proof -
  obtain x rest where ss: "ss = x # rest" using assms(2) by (cases ss) auto
  then have x: "x \<in> set (takeWhile (\<lambda>z. z \<noteq> y) (pre @ x # rest))" using assms by (simp add: earlier_def)
  then have "x \<noteq> y" by (auto dest: set_takeWhileD)
  moreover have "y \<notin> set pre"
  proof
    assume "y \<in> set pre"
    then have "takeWhile (\<lambda>z. z \<noteq> y) (pre @ x # rest) = takeWhile (\<lambda>z. z \<noteq> y) pre"
      by (simp add: takeWhile_append1)
    with x have "x \<in> set pre" by (auto dest: set_takeWhileD)
    with assms(1,3) ss show False by auto
  qed
  ultimately show ?thesis using assms(1,5) ss by auto
qed

lemma setup_stage_unpassed:
  assumes "sched_inv s" and "s_pc s = PRun StepSetup ss at" and "earlier (s_stages s) (hd ss) (fst r)"
    and "valid s r"
  shows "untouched s r"
proof (rule unpassed_untouched [OF assms(1,4)])
  fix st assume k: "step_known st"
  obtain pre where pre: "pre @ ss = s_stages s" "ss \<noteq> []" using sched_invD(2) [OF assms(1)] assms(2) by auto
  have all: "fst r \<in> set (s_stages s)" using sched_invD(5) [OF assms(1,4)] .
  have tail: "fst r \<in> set (tl ss)" using later_in_tail [OF pre sched_invD(13) [OF assms(1)] assms(3) all] .
  then have "fst r \<in> set ss" using pre(2) by (rule list.set_sel(2) [rotated])
  with tail all k have "ahead (s_stages s) (PRun StepSetup ss at) st (fst r)" by (cases st) simp_all
  then show "\<not> passed (s_stages s) (s_pc s) st r" by (simp add: passed_def assms(2))
qed

definition later_inv :: "'w sys \<Rightarrow> bool" where
  "later_inv s \<longleftrightarrow> (past_start (s_pc s) \<longrightarrow>
     (\<forall>r e r'. EvReturn r StepSetup (Some e) \<in> set (log_of s (StepSetup, r)) \<and> valid s r' \<and>
        earlier (s_stages s) (fst r) (fst r') \<longrightarrow> untouched s r'))"

text \<open>Before the start is over, the stage of a failed setup is the one at hand.\<close>

lemma failed_setup_at_hand:
  assumes "wait_inv s" and "EvReturn r StepSetup (Some e) \<in> set (log_of s (StepSetup, r))"
    and "\<not> past_start (s_pc s)"
  obtains ss at where "s_pc s = PRun StepSetup ss at" "hd ss = fst r"
proof -
  note w = wait_invD [OF assms(1)]
  have "EvReturn r StepSetup (Some e) \<in> set (s_trace s)" using assms(2) by (auto simp: calls_of_def)
  then obtain h where h: "h \<in> set (s_gos s)" "g_tw h = r" "g_step h = StepSetup" "result (g_phase h) = Some (Some e)"
    using returned_goroutine [OF w(2)] by blast
  have ps: "passed (s_stages s) (s_pc s) StepSetup r" using sched_invD(8) [OF w(1) h(1)] h by simp
  show thesis
  proof (cases "done_phase (g_phase h)")
    case True
    then have "failed h" using h(3,4) done_reported [of h "Some e"] by (simp add: failed_reported)
    then have "may_fail (s_pc s) (s_setupErr s) (fst r)" using w(5) h(1,2) by (auto simp: setup_inv_def)
    moreover obtain st ss at where pc: "s_pc s = PRun st ss at"
      using ps assms(3) by (cases "s_pc s") (auto simp: passed_def)
    moreover have "step_known st" using sched_invD(2) [OF w(1)] pc by simp
    ultimately show thesis using that assms(3) by (cases st) auto
  next
    case False
    then have "in_stage (s_pc s) StepSetup (fst r)" using w(4) h by (auto simp: barrier_inv_def waited_def)
    with that show thesis using in_stage_run by (cases "s_pc s") auto
  qed
qed


text \<open>The step that ends the start is one of the goroutine of \<open>Run\<close>; it touches no task.\<close>

lemma start_over_frame:
  assumes "sys_step s a s'" and "\<not> past_start (s_pc s)" and "past_start (s_pc s')"
  shows "log_of s' k = log_of s k \<and> s_gos s' = s_gos s \<and> s_tasks s' = s_tasks s"
  using assms(1)
proof (cases rule: sys_step.cases)
  case (st_before i co b)
  then show ?thesis by (simp add: run_beforeRun_def early_return_def split: prod.split option.split)
next
  case (st_enter c o1)
  then show ?thesis by (simp add: run_enter_def)
qed (use assms(2,3) in \<open>simp_all add: run_publish_def Let_def split_beta\<close>)

lemma later_inv_step:
  assumes step: "sys_step s a s'" and w: "wait_inv s" and inv: "later_inv s"
  shows "later_inv s'"
  unfolding later_inv_def
proof (intro impI allI)
  fix r e r'
  assume ps': "past_start (s_pc s')" and h: "EvReturn r StepSetup (Some e) \<in> set (log_of s' (StepSetup, r)) \<and>
    valid s' r' \<and> earlier (s_stages s') (fst r) (fst r')"
  note wD = wait_invD [OF w]
  have all: "s_stages s' = s_stages s" using step_stages [OF step] .
  show "untouched s' r'"
  proof (cases "past_start (s_pc s)")
    case True
    then have "s_pc s \<noteq> PIdle" by auto
    from step_task_fixed [OF step wD(1) this] h have v: "valid s r'" by simp
    have "EvReturn r StepSetup (Some e) \<in> set (log_of s (StepSetup, r))" using h setup_log_fixed [OF step wD(4) True] by simp
    with inv True h v all have "untouched s r'" unfolding later_inv_def by metis
    then show ?thesis using step_untouched [OF step wD(1) True] by blast
  next
    case False
    note frame = start_over_frame [OF step False ps']
    from h frame have "EvReturn r StepSetup (Some e) \<in> set (log_of s (StepSetup, r))" by simp
    from failed_setup_at_hand [OF w this False] obtain ss at where pc: "s_pc s = PRun StepSetup ss at" "hd ss = fst r"
      by blast
    have "untouched s r'" using setup_stage_unpassed [OF wD(1) pc(1)] pc(2) h all frame by simp
    then show ?thesis using frame by (simp add: untouched_def marks_def)
  qed
qed

lemma outcome_wait: "outcome_inv s \<Longrightarrow> wait_inv s"
  by (simp add: outcome_inv_def ctx_invD(5))

interpretation later: invariant_machine sys_step initial "\<lambda>s. outcome_inv s \<and> later_inv s"
proof unfold_locales
  show "outcome_inv s \<and> later_inv s" if "initial s" for s :: "'w sys"
    using initial_outcome_inv [OF that] that by (auto simp: initial_def later_inv_def)
  show "outcome_inv t \<and> later_inv t" if "outcome_inv s \<and> later_inv s" "sys_step s a t" for s t :: "'w sys" and a
    using outcome.inv_step later_inv_step outcome_wait that by blast
qed


lemma reachable_later_inv: "reachable s \<Longrightarrow> later_inv s"
  unfolding reachable_def using later.inv_run by blast

text \<open>
  C3: when the setup step of a task returned an error, no task of a later stage runs any step in the
  whole run, not even stop or teardown; and no task of its own stage, and none of a later one, is started.
\<close>

theorem failed_setup_stops_later_stages:
  assumes "reachable s" and "EvReturn r StepSetup (Some e) \<in> set (s_trace s)" and "EvCall r' st \<in> set (s_trace s)"
  shows "\<not> earlier (s_stages s) (fst r) (fst r') \<and> (st = StepStart \<longrightarrow> earlier (s_stages s) (fst r') (fst r))"
proof -
  note sch = invs(1) [OF assms(1)] and lnk = invs(2) [OF assms(1)]
  have w: "wait_inv s" using reachable_outcome_inv [OF assms(1)] by (rule outcome_wait)
  have h: "EvReturn r StepSetup (Some e) \<in> set (log_of s (StepSetup, r))" using assms(2) by (simp add: calls_of_def)
  obtain g where g: "g \<in> set (s_gos s)" "g_tw g = r'" "g_step g = st" using called_goroutine [OF lnk assms(3)] by metis
  have v: "valid s r'" using sched_invD(6) [OF sch g(1)] g(2) by simp
  have "\<not> earlier (s_stages s) (fst r) (fst r')"
  proof
    assume later: "earlier (s_stages s) (fst r) (fst r')"
    have "untouched s r'"
    proof (cases "past_start (s_pc s)")
      case True
      with reachable_later_inv [OF assms(1)] h v later show ?thesis unfolding later_inv_def by blast
    next
      case False
      from failed_setup_at_hand [OF w h this] obtain ss at where "s_pc s = PRun StepSetup ss at" "hd ss = fst r" by blast
      with setup_stage_unpassed [OF sch _ _ v] later show ?thesis by metis
    qed
    with g show False by (auto simp: untouched_def)
  qed
  moreover have "earlier (s_stages s) (fst r') (fst r)" if "st = StepStart"
    using failed_setup_stops_start [OF assms(1,2), of r'] assms(3) that by simp
  ultimately show ?thesis by blast
qed


definition two_stages :: "unit sys" where
  "two_stages =
     (let ms = AddTask ''a'' (Some (noop_task allSteps)) [] () (default_manager\<lparr>m_stages := [''a'', ''b'']\<rparr>, background);
          (m, st) = AddTask ''b'' (Some (noop_task allSteps)) [] () ms
      in initial_sys m st ())"

definition later_run :: "unit action list" where
  "later_run = prologue @ [AMain True, AMain True] @ whole_go 0 (Some db_error) @ [AMain True, AMain True] @
     [AMain False] @ replicate 8 (AMain True) @ [AMain True] @ replicate 8 (AMain True)"

lemma later_run_ends:
  "ends_in (\<lambda>s. (case s_pc s of PReturned (Some _) None \<Rightarrow> True | _ \<Rightarrow> False) \<and> s_stages s = [''a'', ''b''] \<and>
     EvReturn (''a'', 0) StepSetup (Some db_error) \<in> set (s_trace s) \<and> tw_valid (s_tasks s) (''b'', 0)) later_run two_stages"
  by code_simp

lemma two_stages_initial: "initial two_stages"
proof -
  let ?m = "default_manager\<lparr>m_stages := [''a'', ''b'']\<rparr> :: unit manager"
  have idle: "idle_manager ?m" "m_beforeRun ?m = []" 
    using default_idle by (auto simp: idle_manager_def stages_ok_def default_manager_def newStageTasks_def)
  obtain m1 st1 where a: "AddTask ''a'' (Some (noop_task allSteps)) [] () (?m, background) = (m1, st1)" by force
  note one = AddTask_noop [OF idle background_wf, of "''a''" allSteps, unfolded a fst_conv snd_conv]
  obtain m2 st2 where b: "AddTask ''b'' (Some (noop_task allSteps)) [] () (m1, st1) = (m2, st2)" by force
  note two = AddTask_noop [OF one(1) one(3), of st1 "''b''" allSteps, unfolded b fst_conv snd_conv]
  from a b one two show ?thesis
    by (simp add: two_stages_def initial_def initial_sys_def background_wf)
qed

theorem failed_setup_stops_later_stages_witness:
  "\<exists>s :: unit sys. reachable s \<and> EvReturn (''a'', 0) StepSetup (Some db_error) \<in> set (s_trace s) \<and>
     (\<exists>c. s_pc s = PReturned (Some c) None) \<and> tw_valid (s_tasks s) (''b'', 0) \<and>
     (\<forall>st. EvCall (''b'', 0) st \<notin> set (s_trace s))"
proof (rule ends_inE [OF later_run_ends two_stages_initial])
  fix s :: "unit sys"
  assume s: "reachable s" and p: "(case s_pc s of PReturned (Some _) None \<Rightarrow> True | _ \<Rightarrow> False) \<and> s_stages s = [''a'', ''b''] \<and>
     EvReturn (''a'', 0) StepSetup (Some db_error) \<in> set (s_trace s) \<and> tw_valid (s_tasks s) (''b'', 0)"
  then obtain c where c: "s_pc s = PReturned (Some c) None" by (auto split: pc.splits option.splits)
  have "earlier (s_stages s) ''a'' ''b''" using p by (simp add: earlier_def)
  then have "EvCall (''b'', 0) st \<notin> set (s_trace s)" for st
    using failed_setup_stops_later_stages [OF s, of "(''a'', 0)" db_error "(''b'', 0)" st] p by auto
  with s p c show ?thesis by blast
qed

end
