(* ===== verification/RunWellFormed.thy ===== *)
theory RunWellFormed
  imports RunTheorems
begin

text \<open>
  The well-formedness of the state of a run: no reference of the state dangles, and the program counter
  and the goroutines are of the shapes the code can produce.
\<close>

declare split_paired_All [simp del] split_paired_Ex [simp del]

section \<open>The contexts of the goroutines and the wrappers\<close>

definition go_refs :: "'w sys \<Rightarrow> goroutine \<Rightarrow> bool" where
  "go_refs s g \<longleftrightarrow> (g_phase g \<noteq> GNew \<longrightarrow> g_ctx g < length (s_ctxs s)) \<and>
     in_store s (g_startCancel g) \<and> in_store s (g_cancelOnStop g)"

definition tw_refs :: "'w sys \<Rightarrow> 'w taskWrapper \<Rightarrow> bool" where
  "tw_refs s tw \<longleftrightarrow> in_store s (tw_startCancel tw) \<and> in_store s (tw_finishCtx tw)"

definition step_refs_inv :: "'w sys \<Rightarrow> bool" where
  "step_refs_inv s \<longleftrightarrow> (\<forall>g\<in>set (s_gos s). go_refs s g) \<and> (\<forall>r. valid s r \<longrightarrow> tw_refs s (tw_at (s_tasks s) r))"

lemma refs_grow:
  assumes "grows s s'"
  shows "go_refs s g \<Longrightarrow> go_refs s' g" "tw_refs s tw \<Longrightarrow> tw_refs s' tw"
  using in_store_grows [OF assms] grows_length [OF assms] by (auto simp: go_refs_def tw_refs_def)

lemma step_refs_same:
  assumes "grows s s'" and "s_gos s' = s_gos s" and "s_tasks s' = s_tasks s" and "step_refs_inv s"
  shows "step_refs_inv s'"
  using assms refs_grow [OF assms(1)] by (auto simp: step_refs_inv_def)

lemma step_refs_phase:
  assumes "grows s s'" and "s_gos s' = (s_gos s)[j := (s_gos s ! j)\<lparr>g_phase := p\<rparr>]" and "j < length (s_gos s)"
    and "g_phase (s_gos s ! j) \<noteq> GNew" and inv: "step_refs_inv s"
    and "\<And>r. valid s' r = valid s r" and "\<And>r. tw_startCancel (tw_at (s_tasks s') r) = tw_startCancel (tw_at (s_tasks s) r)"
    and "\<And>r. tw_finishCtx (tw_at (s_tasks s') r) = tw_finishCtx (tw_at (s_tasks s) r)"
  shows "step_refs_inv s'"
proof -
  have "go_refs s ((s_gos s ! j)\<lparr>g_phase := p\<rparr>)"
    using inv assms(3,4) nth_mem [OF assms(3)] by (auto simp: step_refs_inv_def go_refs_def)
  then have "\<forall>g\<in>set (s_gos s'). go_refs s g"
    using inv assms(2) set_update_subset_insert [of "s_gos s" j] by (fastforce simp: step_refs_inv_def)
  with inv assms(6-8) refs_grow [OF assms(1)] show ?thesis by (auto simp: step_refs_inv_def tw_refs_def in_store_grows [OF assms(1)])
qed

text \<open>\<open>go_begin\<close> makes the contexts of the goroutine from the ones of the step.\<close>

lemma tw_refs_set:
  assumes "valid s r0" and "\<And>r. valid s r \<Longrightarrow> tw_refs s' (tw_at (s_tasks s) r)" and "tw_refs s' tw" and "valid s r"
  shows "tw_refs s' (tw_at (tw_update r0 tw (s_tasks s)) r)"
  using assms by (simp add: tw_at_update)

lemma in_store_mono: "in_store s co \<Longrightarrow> length (s_ctxs s) \<le> length (s_ctxs s') \<Longrightarrow> in_store s' co"
  by (cases co) simp_all

lemma begin_start_step_refs:
  assumes b: "begin_start_step g s = (g', s')" and c: "stage_ctx s StepStart < length (s_ctxs s)"
    "stage_doneCtx s StepStart < length (s_ctxs s)" and go: "go_refs s g"
    and tw: "\<And>r. valid s r \<Longrightarrow> tw_refs s (tw_at (s_tasks s) r)" and v: "valid s (g_tw g)"
  shows "length (s_ctxs s) \<le> length (s_ctxs s') \<and> go_refs s' (g'\<lparr>g_phase := GReady\<rparr>) \<and> (\<forall>r. valid s r \<longrightarrow> tw_refs s' (tw_at (s_tasks s') r))"
proof (cases "startStepManagerOpt (currentOptions (tw_at (s_tasks s) (g_tw g)) (s_world s))")
  case False
  then have "s' = s" "g_ctx g' < length (s_ctxs s)" "g_startCancel g' = g_startCancel g" "g_cancelOnStop g' = g_cancelOnStop g"
    using b c by (auto simp: begin_start_step_def Let_def)
  with go tw show ?thesis by (simp add: go_refs_def)
next
  case True
  let ?n = "length (s_ctxs s)"
  have g': "g_ctx g' = ?n" "g_startCancel g' = Some ?n" "g_cancelOnStop g' = Some (?n + 2)"
    and s': "length (s_ctxs s') = ?n + 3"
    "s_tasks s' = tw_update (g_tw g) ((tw_at (s_tasks s) (g_tw g))\<lparr>tw_startCancel := Some ?n, tw_finishCtx := Some (?n + 2)\<rparr>) (s_tasks s)"
    using b True by (auto simp: begin_start_step_def Let_def split_beta ctx_new_length set_tw_def)
  have "tw_refs s' (tw_at (s_tasks s) r)" if "valid s r" for r
    using tw [OF that] s'(1) by (auto simp: tw_refs_def intro: in_store_mono)
  then have "\<forall>r. valid s r \<longrightarrow> tw_refs s' (tw_at (s_tasks s') r)"
    unfolding s'(2) using s'(1) by (intro allI impI tw_refs_set v) (simp_all add: tw_refs_def)
  with g' s' show ?thesis by (simp add: go_refs_def)
qed

lemma begin_stop_step_refs:
  assumes b: "begin_stop_step g s = (g', s')" and c: "stage_doneCtx s StepStop < length (s_ctxs s)" and go: "go_refs s g"
    and tw: "\<And>r. valid s r \<Longrightarrow> tw_refs s (tw_at (s_tasks s) r)"
  shows "length (s_ctxs s) \<le> length (s_ctxs s') \<and> go_refs s' (g'\<lparr>g_phase := GReady\<rparr>) \<and> (\<forall>r. valid s r \<longrightarrow> tw_refs s' (tw_at (s_tasks s') r))"
proof -
  have g': "g_startCancel g' = g_startCancel g" "g_cancelOnStop g' = g_cancelOnStop g" "g_ctx g' < length (s_ctxs s')"
    and s': "length (s_ctxs s) \<le> length (s_ctxs s')" "s_tasks s' = s_tasks s"
    using b c by (auto simp: begin_stop_step_def contextWithStartStepManager_def Let_def split_beta ctx_new_length split: if_splits)
  with go tw show ?thesis by (auto simp: go_refs_def tw_refs_def intro: in_store_mono)
qed

lemma step_refs_begin:
  assumes inv: "step_refs_inv s" and j: "j < length (s_gos s)" and refs: "refs_inv s" and sch: "sched_inv s"
  shows "step_refs_inv (go_begin j s)"
proof -
  let ?g = "s_gos s ! j"
  have mem: "?g \<in> set (s_gos s)" using j by simp
  have v: "valid s (g_tw ?g)" by (rule sched_invD(6) [OF sch mem])
  have ni: "s_pc s \<noteq> PIdle" using sched_inv_gos_idle [OF sch] j by auto
  note st = stage_ctxs_in_store [OF refs ni]
  obtain g' s1 where b: "(case g_step ?g of StepStart \<Rightarrow> begin_start_step ?g s | StepStop \<Rightarrow> begin_stop_step ?g s
      | st \<Rightarrow> (?g\<lparr>g_ctx := stage_doneCtx s st\<rparr>, s)) = (g', s1)" by force
  have go: "go_refs s ?g" and tw: "\<And>r. valid s r \<Longrightarrow> tw_refs s (tw_at (s_tasks s) r)" using inv mem by (auto simp: step_refs_inv_def)
  have other: "go_refs s (?g\<lparr>g_ctx := stage_doneCtx s st, g_phase := GReady\<rparr>)" for st using go st by (simp add: go_refs_def)
  have ok1: "length (s_ctxs s) \<le> length (s_ctxs s1) \<and> go_refs s1 (g'\<lparr>g_phase := GReady\<rparr>) \<and>
      (\<forall>r. valid s r \<longrightarrow> tw_refs s1 (tw_at (s_tasks s1) r))"
  proof (cases "g_step ?g")
    case StepStart
    with b begin_start_step_refs [OF _ st(1) st(2) go tw v, of g' s1] show ?thesis by simp
  next
    case StepStop
    with b begin_stop_step_refs [OF _ st(2) go tw, of g' s1] show ?thesis by simp
  qed (use b other tw in \<open>auto simp del: goroutine.update_convs\<close>)
  have ok2: "s_gos s1 = s_gos s \<and> (\<forall>r. valid s1 r = valid s r)"
  proof (cases "g_step ?g")
    case StepStart
    with b begin_start_step_goroutine(3) [of ?g s] begin_start_step_marks(2) [of ?g s] show ?thesis by simp
  next
    case StepStop
    with b begin_stop_step_goroutine(3) [of ?g s] begin_start_step_marks(3) [of ?g s] show ?thesis by simp
  qed (use b in auto)
  note ok = ok1 ok2
  have eq: "go_begin j s = set_go j (g'\<lparr>g_phase := GReady\<rparr>) (if g_step ?g = StepStart then s1\<lparr>s_startWg := s_startWg s1 - 1\<rparr> else s1)"
    using b by (simp add: go_begin_def Let_def)
  have old: "go_refs s1 g" if "g \<in> set (s_gos s)" for g
  proof -
    have "go_refs s g" using inv that by (simp add: step_refs_inv_def)
    then show ?thesis using ok1 by (auto simp: go_refs_def intro: in_store_mono)
  qed
  have mem': "g \<in> set ((s_gos s)[j := x]) \<Longrightarrow> g = x \<or> g \<in> set (s_gos s)" for g x
    using set_update_subset_insert by fastforce
  have fr: "go_refs (set_go j x s2) = go_refs s2" "tw_refs (set_go j x s2) = tw_refs s2" for x and s2 :: "'a sys"
    by (simp_all add: fun_eq_iff go_refs_def tw_refs_def in_store_def split: option.split)
  have fw: "go_refs (s2\<lparr>s_startWg := n\<rparr>) = go_refs s2" "tw_refs (s2\<lparr>s_startWg := n\<rparr>) = tw_refs s2" for n and s2 :: "'a sys"
    by (simp_all add: fun_eq_iff go_refs_def tw_refs_def in_store_def split: option.split)
  show ?thesis unfolding eq step_refs_inv_def using ok old mem' by (auto simp: fr fw)
qed

lemma loop_task_cancels:
  "valid s (hd ss, i) \<Longrightarrow> tw_startCancel (tw_at (s_tasks (loop_task st ss i s)) r) = tw_startCancel (tw_at (s_tasks s) r) \<and>
     tw_finishCtx (tw_at (s_tasks (loop_task st ss i s)) r) = tw_finishCtx (tw_at (s_tasks s) r)"
  by (auto simp: loop_task_tasks tw_at_update)

lemma run_mark_cancels [simp]:
  "tw_startCancel (run_mark st tw) = tw_startCancel tw" "tw_startCancel (run_mark_setup st e tw) = tw_startCancel tw"
  "tw_finishCtx (run_mark st tw) = tw_finishCtx tw" "tw_finishCtx (run_mark_setup st e tw) = tw_finishCtx tw"
  by (simp_all add: run_mark_def run_mark_setup_def)

text \<open>The other actions of a goroutine change its phase only.\<close>

lemma go_phase:
  "\<exists>p. s_gos (go_check j s) = (s_gos s)[j := (s_gos s ! j)\<lparr>g_phase := p\<rparr>]"
  "\<exists>p. s_gos (go_mark j s) = (s_gos s)[j := (s_gos s ! j)\<lparr>g_phase := p\<rparr>]"
  "\<exists>p. s_gos (go_call j s) = (s_gos s)[j := (s_gos s ! j)\<lparr>g_phase := p\<rparr>]"
  "\<exists>p. s_gos (go_return j e w s) = (s_gos s)[j := (s_gos s ! j)\<lparr>g_phase := p\<rparr>]"
  "\<exists>p. s_gos (go_after j e s) = (s_gos s)[j := (s_gos s ! j)\<lparr>g_phase := p\<rparr>]"
  "\<exists>p. s_gos (go_finish j e s) = (s_gos s)[j := (s_gos s ! j)\<lparr>g_phase := p\<rparr>]"
  "\<exists>p. s_gos (go_report j e s) = (s_gos s)[j := (s_gos s ! j)\<lparr>g_phase := p\<rparr>]"
  "\<exists>p. s_gos (go_exit j res s) = (s_gos s)[j := (s_gos s ! j)\<lparr>g_phase := p\<rparr>]"
  by (auto simp: go_check_def go_mark_def go_call_def go_return_def go_after_def go_finish_def go_report_def go_exit_def
      set_phase_def set_go_def Let_def split_beta)

lemma step_refs_step:
  assumes step: "sys_step s a s'" and inv: "step_refs_inv s" and refs: "refs_inv s" and sch: "sched_inv s"
  shows "step_refs_inv s'"
proof -
  note gr = step_grows [OF step refs sch]
  note same = step_refs_same [OF gr _ _ inv]
  have phased: "step_refs_inv s'" if "\<exists>p. s_gos s' = (s_gos s)[j := (s_gos s ! j)\<lparr>g_phase := p\<rparr>]" "s' = t"
    "j < length (s_gos s)" "g_phase (s_gos s ! j) \<noteq> GNew" "\<And>r. valid t r = valid s r"
    "\<And>r. tw_startCancel (tw_at (s_tasks t) r) = tw_startCancel (tw_at (s_tasks s) r)"
    "\<And>r. tw_finishCtx (tw_at (s_tasks t) r) = tw_finishCtx (tw_at (s_tasks s) r)" for j t
    using that step_refs_phase [OF gr _ _ _ inv] by metis
  have gv: "j < length (s_gos s) \<Longrightarrow> valid s (g_tw (s_gos s ! j))" for j
    using sched_invD(6) [OF sch] by simp
  show ?thesis
  proof (cases "s_pc s = PIdle")
    case True
    have idle: "idle_manager (s_mgr s)" using sched_invD(3) [OF sch True] .
    have sch': "sched_inv s'" by (rule sched_inv_step [OF sch step])
    have "s_gos s' = [] \<and> wrappers_fresh (s_tasks s')"
    proof (cases "s_pc s' = PIdle")
      case True
      then show ?thesis using sched_inv_gos_idle [OF sch'] sched_invD(3) [OF sch'] by (simp add: idle_manager_def)
    next
      case False
      with step True have "s_tasks s' = s_tasks s" "s_gos s' = s_gos s"
        by (cases rule: sys_step.cases; auto simp: run_enter_def)+
      then show ?thesis using idle sched_inv_gos_idle [OF sch True] by (simp add: idle_manager_def)
    qed
    then show ?thesis by (simp add: step_refs_inv_def tw_refs_def wrappers_fresh_def)
  next
    case False
    have running: "m_isRunning (s_mgr s)" using sched_invD(4) [OF sch False] .
    from step show ?thesis
    proof (cases rule: sys_step.cases)
      case (st_begin j)
      with step_refs_begin [OF inv _ refs sch] show ?thesis by simp
    next
      case (st_loop st ss i b)
      then have v: "valid s (hd ss, i)" by (simp add: tw_valid_def)
      have "go_refs s' g" if "g \<in> set (s_gos s')" for g
        using that inv refs_grow(1) [OF gr] st_loop
        by (auto simp: loop_task_gos step_refs_inv_def new_goroutine_def go_refs_def split: if_splits)
      moreover have "tw_refs s' (tw_at (s_tasks s') r)" if "valid s' r" for r
      proof -
        have "valid s r" using that st_loop loop_task_marks(3) [OF v, of st r] by simp
        then have "tw_refs s' (tw_at (s_tasks s) r)" using inv refs_grow(2) [OF gr] by (simp add: step_refs_inv_def)
        with st_loop loop_task_cancels [OF v, of st r] show ?thesis by (simp add: tw_refs_def)
      qed
      ultimately show ?thesis by (simp add: step_refs_inv_def)
    next
      case (st_check j)
      show ?thesis
        by (rule phased [OF _ st_check(2)]) (use st_check in \<open>auto simp: go_phase\<close>)
    next
      case (st_mark j)
      show ?thesis
        by (rule phased [OF _ st_mark(2)]) (use st_mark gv in \<open>auto simp: go_phase go_mark_def Let_def tw_at_update\<close>)
    next
      case (st_call j)
      show ?thesis by (rule phased [OF _ st_call(2)]) (use st_call in \<open>auto simp: go_phase\<close>)
    next
      case (st_return j err w)
      show ?thesis by (rule phased [OF _ st_return(2)]) (use st_return in \<open>auto simp: go_phase\<close>)
    next
      case (st_after j err)
      show ?thesis
        by (rule phased [OF _ st_after(2)]) (use st_after gv in \<open>auto simp: go_phase go_after_def Let_def tw_at_update\<close>)
    next
      case (st_finish j err)
      show ?thesis by (rule phased [OF _ st_finish(2)]) (use st_finish in \<open>auto simp: go_phase\<close>)
    next
      case (st_report j err)
      show ?thesis by (rule phased [OF _ st_report(2)]) (use st_report in \<open>auto simp: go_phase\<close>)
    next
      case (st_exit j res)
      show ?thesis by (rule phased [OF _ st_exit(2)]) (use st_exit in \<open>auto simp: go_phase\<close>)
    qed (rule same; use False in \<open>simp add: set_mgr_ctxs_running [OF running]\<close>)+
  qed
qed

interpretation step_refs: invariant_machine sys_step initial "\<lambda>s. outcome_inv s \<and> step_refs_inv s"
proof unfold_locales
  show "outcome_inv s \<and> step_refs_inv s" if "initial s" for s :: "'w sys"
  proof -
    have "step_refs_inv s"
      using that by (simp add: initial_def step_refs_inv_def idle_manager_def wrappers_fresh_def tw_refs_def)
    with initial_outcome_inv [OF that] show ?thesis by simp
  qed
  show "outcome_inv t \<and> step_refs_inv t" if i: "outcome_inv s \<and> step_refs_inv s" and step: "sys_step s a t" for s t :: "'w sys" and a
  proof -
    have "ctx_inv s" using i by (simp add: outcome_inv_def)
    then have "refs_inv s" "sched_inv s" by (simp_all add: ctx_invD)
    with i step_refs_step [OF step] outcome.inv_step [OF _ step] show ?thesis by blast
  qed
qed

lemma reachable_step_refs: "reachable s \<Longrightarrow> step_refs_inv s"
  unfolding reachable_def using step_refs.inv_run by blast

section \<open>The type of a state\<close>

text \<open>
  The stages are a valid list; the program counter is at one of the four steps with the rest of the stages
  in the direction of the step; each goroutine is for an existing wrapper and a known step, and there is
  one at most for a task and step; each wrapper is of a known stage and has marked known steps; every
  context that is held is in the store, and its ancestors are older.
\<close>

definition pc_typed :: "string list \<Rightarrow> pc \<Rightarrow> bool" where
  "pc_typed all pc = (case pc of
     PRun st ss at \<Rightarrow> ss \<noteq> [] \<and> step_known st \<and>
       (if st = StepSetup \<or> st = StepStart then suffix ss all else suffix ss (rev all)) \<and> (at = RWaitStart \<longrightarrow> st = StepStart)
   | _ \<Rightarrow> True)"

definition well_formed :: "'w sys \<Rightarrow> bool" where
  "well_formed s \<longleftrightarrow>
     stages_ok (s_stages s) \<and> pc_typed (s_stages s) (s_pc s) \<and> ctxs_wf (s_ctxs s) \<and>
     (s_pc s \<noteq> PIdle \<longrightarrow> s_ctx s < length (s_ctxs s) \<and> s_shutdownCtx s < length (s_ctxs s) \<and> s_teardownCtx s < length (s_ctxs s)) \<and>
     in_store s (m_startupCtx (s_mgr s)) \<and> in_store s (m_taskDoneCtx (s_mgr s)) \<and> in_store s (s_shutdownOpt s) \<and>
     distinct (keys s) \<and>
     (\<forall>g\<in>set (s_gos s). valid s (g_tw g) \<and> step_known (g_step g) \<and> go_refs s g) \<and>
     (\<forall>r. valid s r \<longrightarrow> fst r \<in> set (s_stages s) \<and> (\<forall>st\<in>set (tw_executeSteps (tw_at (s_tasks s) r)). step_known st) \<and>
        tw_refs s (tw_at (s_tasks s) r))"

lemma pc_ok_typed: "pc_ok all pc \<Longrightarrow> pc_typed all pc"
  by (cases pc) (auto simp: pc_typed_def suffix_def split: if_splits, metis)



end
