(* ===== verification/CoreTheorems.thy ===== *)
theory CoreTheorems
  imports Manager
begin

text \<open>
  Properties of the components below \<open>run.go\<close>: the error builder, contexts, the step bookkeeping of a
  wrapper, services, and the registration of tasks with a manager.
\<close>

section \<open>Errors\<close>


text \<open>
  building is idempotent on what was built: adding the result of one builder to another gives the
  same error as adding its errors one by one, because a multi error is flattened.
\<close>

theorem error_builder_flattens:
  assumes "\<forall>e\<in>set es. \<not> is_multi e"
  shows "mb_build (mb_add (mb_build (fold (\<lambda>e. mb_add (Some e)) es [])) []) =
     mb_build (fold (\<lambda>e. mb_add (Some e)) es [])"
proof -
  have "fold (\<lambda>e. mb_add (Some e)) es b = b @ es" for b
    using assms by (induction es arbitrary: b) (auto simp: mb_add_cases split: go_error.split)
  then have eq: "fold (\<lambda>e. mb_add (Some e)) es [] = es" by simp
  show ?thesis
    unfolding eq using assms
    by (cases es; cases "tl es") (auto simp: mb_build_def buildMultiErrors_def mb_add_cases split: go_error.split)
qed

theorem error_builder_flattens_witness:
  "mb_build (mb_add (mb_build (fold (\<lambda>e. mb_add (Some e)) [UserError ''a'', defs_err ErrExit] [])) []) =
     Some (MultiError [UserError ''a'', defs_err ErrExit])"
  using error_builder_flattens [of "[UserError ''a'', defs_err ErrExit]"]
  by (simp add: mb_build_def buildMultiErrors_def)

section \<open>Contexts\<close>

text \<open>
  C29: a stop cause put in a context is read back by \<open>CauseFromContext\<close> from it and from the contexts
  the manager derives from it, with a timeout or for a start step manager; a nil cause reads as none.
\<close>

theorem cause_roundtrip:
  assumes "contextWithCause c cause st = (st', d)"
  shows "CauseFromContext st' d = (cause, cause \<noteq> None) \<and>
     CauseFromContext (fst (ctx_WithTimeout d st')) (snd (ctx_WithTimeout d st')) = (cause, cause \<noteq> None) \<and>
     CauseFromContext (fst (contextWithStartStepManager d ssm st')) (snd (contextWithStartStepManager d ssm st')) =
       (cause, cause \<noteq> None)"
proof -
  have d: "d < length st'" using assms by (auto simp: contextWithCause_def ctx_new_def)
  have snd_new: "snd (ctx_new k p st') = length st'" for k p by (simp add: ctx_new_def)
  show ?thesis
    using CauseFromContext_contextWithCause [OF assms] CauseFromContext_inherit [OF d, of KTimeout]
      CauseFromContext_inherit [OF d, of "KValue (VStartStepManager (ssm_cancel ssm) (ssm_finished ssm))"]
    by (simp add: snd_new contextWithStartStepManager_def)
qed

theorem cause_roundtrip_witness:
  "CauseFromContext (fst (contextWithCause 0 (Some (defs_err ErrExit)) (fst (ctx_new KBackground None [])))) 1 =
     (Some (defs_err ErrExit), True)"
proof -
  have "contextWithCause 0 (Some (defs_err ErrExit)) (fst (ctx_new KBackground None [])) =
      (fst (contextWithCause 0 (Some (defs_err ErrExit)) (fst (ctx_new KBackground None []))), 1)"
    by (simp add: contextWithCause_def ctx_new_def)
  from cause_roundtrip [OF this] show ?thesis by simp
qed

text \<open>
  C30: the start step manager a stop step gets from its context: without one nothing can be cancelled
  or waited for, and \<open>Finished\<close> is closed; with one, \<open>ContextCancel\<close> cancels the start context, and
  once the start step ended with an error, \<open>FinishedErr\<close> is that error (nil when it ended with nil).
\<close>

theorem start_step_manager_spec:
  assumes "f < length st" and "\<not> ctx_Done st f" and "c < length st"
    and "\<And>e. err = Some e \<Longrightarrow> \<not> err_is StartStepManagerNilError e"
    and "contextWithStartStepManager p \<lparr>ssm_cancel = Some c, ssm_finished = Some f\<rparr> st = (st1, d)"
  shows "StartStepManagerFromContext st1 d = \<lparr>ssm_cancel = Some c, ssm_finished = Some f\<rparr> \<and>
     (\<not> ssm_Finished (StartStepManagerFromContext st1 d) st) \<and>
     ssm_Finished (StartStepManagerFromContext st1 d) (ctx_cancel f (Some (finish_cause err)) st) \<and>
     ssm_FinishedErr (StartStepManagerFromContext st1 d) (ctx_cancel f (Some (finish_cause err)) st) = err \<and>
     ctx_Done (snd (ssm_ContextCancel (StartStepManagerFromContext st1 d) cause st)) c"
proof -
  have "cn_kind (st1 ! d) = KValue (VStartStepManager (Some c) (Some f))"
    using assms(5) by (auto simp: contextWithStartStepManager_def ctx_new_def)
  then have ssm: "StartStepManagerFromContext st1 d = \<lparr>ssm_cancel = Some c, ssm_finished = Some f\<rparr>"
    by (simp add: StartStepManagerFromContext_def ctx_Value_bound [where v = "VStartStepManager (Some c) (Some f)"])
  show ?thesis
    unfolding ssm using assms(1-4) ssm_FinishedErr_after [of f st err "Some c"] cc.cancel_done [of c st cause]
    by (simp add: ssm_Finished_def ssm_ContextCancel_def)
qed

theorem start_step_manager_spec_witness:
  "ssm_FinishedErr (StartStepManagerFromContext
       (fst (contextWithStartStepManager 0 \<lparr>ssm_cancel = Some 1, ssm_finished = Some 2\<rparr>
         (replicate 3 \<lparr>cn_parent = None, cn_kind = KCancel, cn_done = None\<rparr>))) 3)
     (ctx_cancel 2 (Some (finish_cause (Some (UserError ''x''))))
        (replicate 3 \<lparr>cn_parent = None, cn_kind = KCancel, cn_done = None\<rparr>)) = Some (UserError ''x'')"
proof -
  let ?st = "replicate 3 \<lparr>cn_parent = None, cn_kind = KCancel, cn_done = None\<rparr>"
  have c: "contextWithStartStepManager 0 \<lparr>ssm_cancel = Some 1, ssm_finished = Some 2\<rparr> ?st =
      (fst (contextWithStartStepManager 0 \<lparr>ssm_cancel = Some 1, ssm_finished = Some 2\<rparr> ?st), 3)"
    by (simp add: contextWithStartStepManager_def ctx_new_def)
  have pre: "2 < length ?st" "\<not> ctx_Done ?st 2" "1 < length ?st"
    "\<And>e. Some (UserError ''x'') = Some e \<Longrightarrow> \<not> err_is StartStepManagerNilError e"
    by (auto simp: ctx_Done_def)
  show ?thesis using start_step_manager_spec [OF pre c] by blast
qed

text \<open>
  a noop start step manager, the one a stop step gets when its task did not ask for one, never
  blocks: \<open>Finished\<close> is a closed channel although \<open>CanFinished\<close> is false.
\<close>

theorem noop_start_step_manager:
  assumes "ctx_Value st StartStepManagerContextKey c = None"
  shows "\<not> ssm_CanFinished (StartStepManagerFromContext st c) \<and>
     \<not> ssm_CanContextCancel (StartStepManagerFromContext st c) \<and>
     ssm_Finished (StartStepManagerFromContext st c) st' \<and>
     ssm_FinishedErr (StartStepManagerFromContext st c) st' = None \<and>
     ssm_ContextCancel (StartStepManagerFromContext st c) cause st' = (False, st')"
  using assms
  by (simp add: StartStepManagerFromContext_def ssm_CanFinished_def ssm_CanContextCancel_def ssm_Finished_def
      ssm_FinishedErr_def ssm_ContextCancel_def)

theorem noop_start_step_manager_witness:
  "\<not> ssm_CanFinished (StartStepManagerFromContext (fst (ctx_new KBackground None [])) 0) \<and>
   ssm_Finished (StartStepManagerFromContext (fst (ctx_new KBackground None [])) 0) []"
proof -
  have "ctx_Value (fst (ctx_new KBackground None [])) StartStepManagerContextKey 0 = None"
    by (subst ctx_Value.simps) (simp add: ctx_new_def)
  then show ?thesis using noop_start_step_manager by blast
qed

section \<open>Steps\<close>

text \<open>
  \<open>taskOrderedSteps\<close> yields the known steps of a list, each once, in the order setup, start, stop,
  teardown, whatever the order and the multiplicity of the list.
\<close>

theorem ordered_steps_spec:
  "sorted_wrt (<) (taskOrderedSteps steps) \<and> distinct (taskOrderedSteps steps) \<and>
   set (taskOrderedSteps steps) = set steps \<inter> set allSteps"
proof (intro conjI)
  show sorted: "sorted_wrt (<) (taskOrderedSteps steps)" using taskOrderedSteps_spec [of steps] by blast
  then show "distinct (taskOrderedSteps steps)" by (simp add: strict_sorted_iff)
  show "set (taskOrderedSteps steps) = set steps \<inter> set allSteps"
    using taskOrderedSteps_spec [of steps] set_allSteps by auto
qed

lemma sorted_wrt_subseq: "subseq xs ys \<Longrightarrow> sorted_wrt R ys \<Longrightarrow> sorted_wrt R xs"
proof (induction rule: list_emb.induct)
  case (list_emb_Cons2 x y xs ys)
  then show ?case by (auto dest: list_emb_set)
qed auto




section \<open>Services\<close>

text \<open>
  a service as a task has the start and stop steps, and the setup and teardown steps that the
  service implements, whatever steps its own task info names; its other info is kept; and each step
  calls the method of the service.
\<close>

theorem service_task_spec:
  "(taskHasStep (ServiceAsTask svc) st w \<longleftrightarrow>
      st = StepStart \<or> st = StepStop \<or> st = StepSetup \<and> svc_Setup svc \<noteq> None \<or>
      st = StepTeardown \<and> svc_Teardown svc \<noteq> None) \<and>
   (case svc_TaskInfo svc of
      None \<Rightarrow> GetTaskName (ServiceAsTask svc) w = ''''
    | Some ti \<Rightarrow> (GetTaskInfo (ServiceAsTask svc) w)\<lparr>ti_Steps := ti_Steps (ti w)\<rparr> = ti w) \<and>
   task_Run (ServiceAsTask svc) c st w =
     (case (if st = StepSetup then svc_Setup svc else if st = StepStart then Some (svc_Start svc)
            else if st = StepStop then Some (svc_Stop svc) else if st = StepTeardown then svc_Teardown svc
            else None) of
        Some f \<Rightarrow> f c w | None \<Rightarrow> (None, w))"
proof -
  have srv: "st_service (newServiceTask svc) = svc" by (simp add: newServiceTask_def Let_def)
  show ?thesis
    by (intro conjI ServiceAsTask_hasStep)
      (auto simp: ServiceAsTask_def GetTaskName_def GetTaskInfo_def serviceTask_TaskInfo_def
        zero_task_info_def serviceTask_Run_def Let_def srv split: option.split step.split)
qed

section \<open>The manager before and during a run\<close>

text \<open>
  \<open>New\<close> accepts exactly the option lists that leave at least one stage, no blank one and no
  duplicate; it fails with \<open>ErrNoStage\<close> or \<open>ErrInvalidStage\<close>, and changes nothing else the options set.
\<close>

theorem new_manager_spec:
  "case New options of
     Inr m \<Rightarrow> m = fold (\<lambda>opt. opt) options default_manager \<and> stages_ok (m_stages m)
   | Inl e \<Rightarrow> \<not> stages_ok (m_stages (fold (\<lambda>opt. opt) options default_manager)) \<and>
       (if m_stages (fold (\<lambda>opt. opt) options default_manager) = [] then e = defs_err ErrNoStage
        else err_is (Defs ErrInvalidStage) e)"
  using manager_init_None [of "fold (\<lambda>opt. opt) options default_manager"] init_loop_invalid
  by (auto simp: New_def Let_def manager_init_def split: option.split if_splits)

text \<open>
  C24: before \<open>Run\<close>, \<open>AddTask\<close> appends one wrapper to its stage when the task is not nil, has no
  initialization error and the stage exists; otherwise it adds no task and records one error saying
  why; nothing else changes.
\<close>

theorem add_task_spec:
  assumes "\<not> m_isRunning m" and "AddTask stage task options w (m, st) = (m', st')"
  defines "reason \<equiv> (case task of
             None \<Rightarrow> Some (defs_err ErrNilTask)
           | Some t \<Rightarrow> (case ti_InitError (GetTaskInfo t w) of
                        Some e \<Rightarrow> Some e
                      | None \<Rightarrow> if stage \<in> set (m_stages m) then None else Some (newInvalidStage stage)))"
  shows "st' = st \<and> m_isRunning m' = m_isRunning m \<and> m_stages m' = m_stages m \<and>
     m_pendingStartupCancel m' = m_pendingStartupCancel m \<and>
     m_initErrors m' = m_initErrors m @ (case reason of Some e \<Rightarrow> [e] | None \<Rightarrow> []) \<and>
     stageTasks_get (m_tasks m') x = stageTasks_get (m_tasks m) x @
       (if reason = None \<and> x = stage then [newTaskWrapper (the task) options] else [])"
  using assms
  by (auto simp: AddTask_def addInitError_def split: option.splits if_splits)

theorem add_task_spec_witness:
  "stageTasks_get (m_tasks (fst (AddTask StageDefault (Some (TaskFunc (\<lambda>_ _ w. (None, w)))) [] ()
       (default_manager, [])))) StageDefault = [newTaskWrapper (TaskFunc (\<lambda>_ _ w. (None, w))) []] \<and>
   m_initErrors (fst (AddTask ''nowhere'' (Some (TaskFunc (\<lambda>_ _ w. (None, w)))) [] ()
       (default_manager, []))) = [newInvalidStage ''nowhere'']"
proof -
  let ?t = "Some (TaskFunc (\<lambda>_ _ w. (None, w)))"
  have m: "\<not> m_isRunning default_manager" "m_stages default_manager = [StageDefault]"
    "stageTasks_get (m_tasks default_manager) x = []" "m_initErrors default_manager = []" for x
    by (simp_all add: default_manager_def)
  have info: "GetTaskInfo (TaskFunc f) w = zero_task_info" for f w by (simp add: GetTaskInfo_def TaskFunc_def)
  obtain m1 s1 where 1: "AddTask StageDefault ?t [] () (default_manager, []) = (m1, s1)" by force
  obtain m2 s2 where 2: "AddTask ''nowhere'' ?t [] () (default_manager, []) = (m2, s2)" by force
  show ?thesis
    unfolding 1 2 fst_conv
    using add_task_spec [OF m(1) 1, of StageDefault] add_task_spec [OF m(1) 2, of StageDefault]
    by (simp add: m info zero_task_info_def StageDefault_def)
qed

text \<open>
  Once \<open>Run\<close> has started, \<open>AddTask\<close> and \<open>AddInitError\<close> add nothing: they ask for a shutdown whose
  cause is \<open>ErrAlreadyRunning\<close>, recorded when the contexts do not exist yet, by cancelling the startup
  context otherwise; a request already made keeps its cause.
\<close>

theorem late_registration_stops:
  assumes "m_isRunning m" and "m_startupCancel m = Some c \<Longrightarrow> c < length st"
    and "(m', st') = AddTask stage task options w (m, st) \<or> (m', st') = AddInitError (Some e) (m, st)"
  shows "m_tasks m' = m_tasks m \<and> m_initErrors m' = m_initErrors m \<and>
     (case m_startupCancel m of
        None \<Rightarrow> st' = st \<and> m_pendingStartupCancel m' \<noteq> None \<and>
          (if m_pendingStartupCancel m = None
           then errors_Is (m_pendingStartupCancel m') (Defs ErrAlreadyRunning)
           else m_pendingStartupCancel m' = m_pendingStartupCancel m)
      | Some d \<Rightarrow> m' = m \<and> (m_startupCancel m = Some c \<longrightarrow> ctx_Done st' c \<and>
          (if ctx_Done st c then ctx_Cause st' c = ctx_Cause st c
           else errors_Is (ctx_Cause st' c) (Defs ErrAlreadyRunning))))"
  using assms cc.cancel_done cc.cancel_cause cc.cancel_keeps
  by (auto simp: AddTask_def AddInitError_def addInitError_def requestStartupCancel_def split: option.split)

theorem late_registration_stops_witness:
  "errors_Is (m_pendingStartupCancel (fst (AddTask StageDefault None [] ()
     (default_manager\<lparr>m_isRunning := True\<rparr>, [])))) (Defs ErrAlreadyRunning)"
proof -
  let ?m = "default_manager\<lparr>m_isRunning := True\<rparr> :: unit manager"
  have m: "m_isRunning ?m" "m_startupCancel ?m = None" "m_pendingStartupCancel ?m = None"
    by (simp_all add: default_manager_def)
  then have "m_startupCancel ?m = Some 0 \<Longrightarrow> 0 < length ([] :: ctxs)" by simp
  from late_registration_stops [OF m(1) this, of "fst (AddTask StageDefault None [] () (?m, []))"
      "snd (AddTask StageDefault None [] () (?m, []))"]
  show ?thesis using m by auto
qed

end
