(* ===== verification/Build.thy ===== *)
theory Build
  imports Stages
begin

text \<open>
  \<open>build.go\<close>: tasks built from callbacks, on their own or over a parent task. \<open>stepFunc\<close> is a Go map,
  kept as an association list; the order in which \<open>maps.Keys\<close> yields its keys is the argument \<open>ks\<close> of
  \<open>build_init\<close>, and the theorems hold for every order. The cells \<open>parent\<close> and \<open>state\<close> are fields.
\<close>

section \<open>The task and its options\<close>

text \<open>A nil callback is \<open>None\<close>.\<close>

type_synonym 'w build_func = "(ctx \<Rightarrow> 'w \<Rightarrow> go_error option \<times> 'w) option"
type_synonym 'w skipped_func = "ctx \<Rightarrow> go_error option \<Rightarrow> 'w \<Rightarrow> 'w"

record taskBuildState =
  bs_steps :: "step list"
  bs_initError :: "go_error option"

record 'w taskBuild =
  tb_stepFunc :: "(step \<times> 'w build_func) list"
  tb_parent :: "'w task option"
  tb_state :: taskBuildState
  tb_options :: "instance_option list"
  tb_skipped :: "'w skipped_func list"
  tb_name :: string

type_synonym 'w build_option = "'w taskBuild \<Rightarrow> 'w taskBuild"

definition WithName :: "string \<Rightarrow> 'w build_option" where
  "WithName name build = build\<lparr>tb_name := name\<rparr>"

definition WithStep :: "step \<Rightarrow> 'w build_func \<Rightarrow> 'w build_option" where
  "WithStep step f build = build\<lparr>tb_stepFunc := AList.update step f (tb_stepFunc build)\<rparr>"

definition WithSetup :: "'w build_func \<Rightarrow> 'w build_option" where
  "WithSetup f = WithStep StepSetup f"

definition WithStart :: "'w build_func \<Rightarrow> 'w build_option" where
  "WithStart f = WithStep StepStart f"

definition WithStop :: "'w build_func \<Rightarrow> 'w build_option" where
  "WithStop f = WithStep StepStop f"

definition WithTeardown :: "'w build_func \<Rightarrow> 'w build_option" where
  "WithTeardown f = WithStep StepTeardown f"

definition WithParent :: "'w task option \<Rightarrow> 'w build_option" where
  "WithParent parent build = build\<lparr>tb_parent := parent\<rparr>"

definition WithTaskOptions :: "instance_option list \<Rightarrow> 'w build_option" where
  "WithTaskOptions options build = build\<lparr>tb_options := tb_options build @ options\<rparr>"

definition WithSkipped :: "'w skipped_func option \<Rightarrow> 'w build_option" where
  "WithSkipped f build =
     (case f of None \<Rightarrow> build | Some g \<Rightarrow> build\<lparr>tb_skipped := tb_skipped build @ [g]\<rparr>)"

section \<open>Construction\<close>

definition loadParent :: "'w taskBuild \<Rightarrow> 'w task option" where
  "loadParent t = tb_parent t"

definition hasMissingStep :: "'w taskBuild \<Rightarrow> bool" where
  "hasMissingStep t =
     (if length (tb_stepFunc t) = 0 then loadParent t = None
      else list_ex (\<lambda>(st, sf). sf = None) (tb_stepFunc t))"

text \<open>The loop of \<open>init\<close> over the steps of the parent.\<close>

fun merge_steps :: "step list \<Rightarrow> step list \<times> step list \<Rightarrow> step list \<times> step list" where
  "merge_steps [] acc = acc"
| "merge_steps (s # ss) (steps, duplicated) =
     merge_steps ss
       (if s \<notin> set steps then (steps @ [s], duplicated) else (steps, duplicated @ [s]))"

definition duplicate_error :: "step list \<Rightarrow> go_error" where
  "duplicate_error ds =
     Errorf (''%w: build task parent already has '' @ quoted (stringerString ds) @ '' step(s)'')
       [defs_err ErrDuplicateStep]"

definition build_state :: "step list \<Rightarrow> 'w \<Rightarrow> 'w taskBuild \<Rightarrow> taskBuildState" where
  "build_state ks w t =
     (let errs = (if hasMissingStep t then [defs_err ErrNilTask] else []);
          (steps, errs) =
            (case loadParent t of
               None \<Rightarrow> (ks, errs)
             | Some parent \<Rightarrow>
                 (let (steps, duplicated) = merge_steps (taskSteps parent w) (ks, []);
                      errs = (if length duplicated > 0 then errs @ [duplicate_error duplicated] else errs);
                      errs = (case ti_InitError (GetTaskInfo parent w) of
                                None \<Rightarrow> errs | Some err \<Rightarrow> errs @ [err])
                  in (steps, errs)))
      in \<lparr>bs_steps = steps, bs_initError = buildJoinedErrors errs\<rparr>)"

definition build_init :: "step list \<Rightarrow> 'w \<Rightarrow> 'w taskBuild \<Rightarrow> 'w taskBuild \<times> go_error option" where
  "build_init ks w t =
     (let state = build_state ks w t in (t\<lparr>tb_state := state\<rparr>, bs_initError state))"

text \<open>A key sequence \<open>maps.Keys\<close> may yield.\<close>

definition key_order :: "step list \<Rightarrow> 'w taskBuild \<Rightarrow> bool" where
  "key_order ks t \<longleftrightarrow> distinct ks \<and> set ks = fst ` set (tb_stepFunc t)"

definition empty_build :: "'w taskBuild" where
  "empty_build = \<lparr>tb_stepFunc = [], tb_parent = None,
     tb_state = \<lparr>bs_steps = [], bs_initError = None\<rparr>, tb_options = [], tb_skipped = [], tb_name = ''''\<rparr>"

definition newTaskBuild :: "step list \<Rightarrow> 'w \<Rightarrow> 'w build_option list \<Rightarrow> 'w taskBuild" where
  "newTaskBuild ks w options = fst (build_init ks w (fold (\<lambda>opt. opt) options empty_build))"

definition SetParent :: "step list \<Rightarrow> 'w \<Rightarrow> 'w task option \<Rightarrow> 'w taskBuild \<Rightarrow> 'w taskBuild \<times> go_error option" where
  "SetParent ks w parent t = build_init ks w (t\<lparr>tb_parent := parent\<rparr>)"

section \<open>The task methods\<close>

definition run_skipped :: "'w skipped_func list \<Rightarrow> 'w skipped_func option \<Rightarrow> 'w skipped_func" where
  "run_skipped fs parent c cause w =
     (let w1 = fold (\<lambda>f. f c cause) fs w
      in case parent of None \<Rightarrow> w1 | Some f \<Rightarrow> f c cause w1)"

definition taskBuild_TaskInfo :: "'w taskBuild \<Rightarrow> 'w \<Rightarrow> 'w task_info" where
  "taskBuild_TaskInfo t w =
     (let parentInfo = (case loadParent t of None \<Rightarrow> zero_task_info | Some parent \<Rightarrow> GetTaskInfo parent w)
      in \<lparr>ti_Name = (if tb_name t \<noteq> '''' then tb_name t else ti_Name parentInfo),
          ti_Steps = Some (bs_steps (tb_state t)),
          ti_Options = ti_Options parentInfo @ tb_options t,
          ti_InitError = bs_initError (tb_state t),
          ti_Skipped =
            (if length (tb_skipped t) > 0 \<or> ti_Skipped parentInfo \<noteq> None
             then Some (run_skipped (tb_skipped t) (ti_Skipped parentInfo)) else None)\<rparr>)"

text \<open>\<open>Run\<close>; calling a nil callback panics, which is the outcome \<open>None\<close>.\<close>

definition taskBuild_Run :: "'w taskBuild \<Rightarrow> ctx \<Rightarrow> step \<Rightarrow> 'w \<Rightarrow> (go_error option \<times> 'w) option" where
  "taskBuild_Run t c st w =
     (let parent = (case loadParent t of
                      None \<Rightarrow> None
                    | Some p \<Rightarrow> if taskHasStep p st w then Some p else None)
      in case map_of (tb_stepFunc t) st of
           Some fn \<Rightarrow>
             (if parent \<noteq> None
              then Some (Some (Errorf (''%w: build task parent already has '' @ quoted (step_String st) @ '' step'')
                           [defs_err ErrDuplicateStep]), w)
              else (case fn of None \<Rightarrow> None | Some f \<Rightarrow> Some (f c w)))
         | None \<Rightarrow>
             (case parent of
                Some p \<Rightarrow> Some (task_Run p c st w)
              | None \<Rightarrow> Some (Some (newInvalidTaskStep st), w)))"

definition taskBuild_String :: "'w taskBuild \<Rightarrow> 'w \<Rightarrow> string" where
  "taskBuild_String t w =
     (let tn = ti_Name (taskBuild_TaskInfo t w) in
      if tn \<noteq> '''' then tn else ''*svcinit.taskBuild'')"

section \<open>Laws\<close>

lemma buildJoinedErrors_None [simp]: "buildJoinedErrors errs = None \<longleftrightarrow> errs = []"
  by (auto simp: buildJoinedErrors_def errors_Join_def)

lemma errors_Is_buildJoinedErrors [simp]: "errors_Is (buildJoinedErrors errs) t \<longleftrightarrow> list_ex (err_is t) errs"
  by (cases errs; cases "tl errs") (auto simp: buildJoinedErrors_def errors_Join_def)

lemma merge_steps_spec:
  "merge_steps ss (steps, ds) = (steps', ds') \<Longrightarrow>
   set steps' = set steps \<union> set ss \<and> (distinct steps \<longrightarrow> distinct steps') \<and> length ds \<le> length ds' \<and>
   (length ds' = length ds \<longleftrightarrow> distinct ss \<and> set ss \<inter> set steps = {})"
proof (induction ss arbitrary: steps ds)
  case Nil
  then show ?case by simp
next
  case (Cons s ss)
  show ?case
  proof (cases "s \<in> set steps")
    case True
    with Cons.prems have "merge_steps ss (steps, ds @ [s]) = (steps', ds')" by simp
    from Cons.IH [OF this] True show ?thesis by auto
  next
    case False
    with Cons.prems have "merge_steps ss (steps @ [s], ds) = (steps', ds')" by simp
    from Cons.IH [OF this] False show ?thesis by auto
  qed
qed

lemma build_init_simps [simp]:
  "tb_stepFunc (fst (build_init ks w t)) = tb_stepFunc t" "tb_parent (fst (build_init ks w t)) = tb_parent t"
  "tb_options (fst (build_init ks w t)) = tb_options t" "tb_skipped (fst (build_init ks w t)) = tb_skipped t"
  "tb_name (fst (build_init ks w t)) = tb_name t" "tb_state (fst (build_init ks w t)) = build_state ks w t"
  "snd (build_init ks w t) = bs_initError (build_state ks w t)"
  by (simp_all add: build_init_def Let_def)

text \<open>The conditions under which a build is well formed, read off the documentation of the options.\<close>

definition build_ok :: "'w \<Rightarrow> 'w taskBuild \<Rightarrow> bool" where
  "build_ok w t \<longleftrightarrow>
     (\<forall>(st, f)\<in>set (tb_stepFunc t). f \<noteq> None) \<and> (tb_stepFunc t = [] \<longrightarrow> tb_parent t \<noteq> None) \<and>
     (case tb_parent t of
        None \<Rightarrow> True
      | Some p \<Rightarrow> distinct (taskSteps p w) \<and> set (taskSteps p w) \<inter> fst ` set (tb_stepFunc t) = {} \<and>
          ti_InitError (GetTaskInfo p w) = None)"

lemma hasMissingStep_iff:
  "hasMissingStep t \<longleftrightarrow>
     \<not> ((\<forall>(st, f)\<in>set (tb_stepFunc t). f \<noteq> None) \<and> (tb_stepFunc t = [] \<longrightarrow> tb_parent t \<noteq> None))"
  by (auto simp: hasMissingStep_def loadParent_def list_ex_iff)

lemma build_state_ok:
  assumes "key_order ks t"
  shows "bs_initError (build_state ks w t) = None \<longleftrightarrow> build_ok w t"
proof (cases "tb_parent t")
  case None
  then show ?thesis
    by (simp add: build_state_def loadParent_def Let_def build_ok_def hasMissingStep_iff)
next
  case (Some p)
  obtain steps ds where m: "merge_steps (taskSteps p w) (ks, []) = (steps, ds)" by force
  have "ds = [] \<longleftrightarrow> distinct (taskSteps p w) \<and> set (taskSteps p w) \<inter> fst ` set (tb_stepFunc t) = {}"
    using merge_steps_spec [OF m] assms by (simp add: key_order_def)
  with m Some show ?thesis
    by (auto simp: build_state_def loadParent_def Let_def build_ok_def hasMissingStep_iff
        split: option.split)
qed

lemma build_state_steps:
  assumes "key_order ks t"
  shows "set (bs_steps (build_state ks w t)) =
      fst ` set (tb_stepFunc t) \<union> (case tb_parent t of None \<Rightarrow> {} | Some p \<Rightarrow> set (taskSteps p w)) \<and>
    distinct (bs_steps (build_state ks w t))"
proof (cases "tb_parent t")
  case None
  then show ?thesis using assms by (simp add: build_state_def loadParent_def Let_def key_order_def)
next
  case (Some p)
  obtain steps ds where m: "merge_steps (taskSteps p w) (ks, []) = (steps, ds)" by force
  with merge_steps_spec [OF m] Some assms show ?thesis
    by (simp add: build_state_def loadParent_def Let_def key_order_def)
qed

text \<open>Options only ever update the map, so its keys are distinct.\<close>

definition stepFunc_ok :: "'w taskBuild \<Rightarrow> bool" where
  "stepFunc_ok t = distinct (map fst (tb_stepFunc t))"

lemma build_options_ok [simp]:
  "stepFunc_ok empty_build" "stepFunc_ok t \<Longrightarrow> stepFunc_ok (WithStep st f t)"
  "stepFunc_ok (WithName n t) = stepFunc_ok t" "stepFunc_ok (WithParent p t) = stepFunc_ok t"
  "stepFunc_ok (WithTaskOptions os t) = stepFunc_ok t" "stepFunc_ok (WithSkipped g t) = stepFunc_ok t"
  "stepFunc_ok (fst (build_init ks w t)) = stepFunc_ok t"
  by (simp_all add: stepFunc_ok_def empty_build_def WithStep_def WithName_def WithParent_def WithTaskOptions_def
      WithSkipped_def distinct_update split: option.split)

fun last_cancel :: "instance_option list \<Rightarrow> bool option" where
  "last_cancel [] = None"
| "last_cancel (io # ios) =
     (case last_cancel ios of
        Some b \<Rightarrow> Some b
      | None \<Rightarrow> (case io of WithCancelContext b \<Rightarrow> Some b | WithStartStepManager \<Rightarrow> None))"

lemma fold_applyTaskInstanceOpt_cancel:
  "cancelContext (fold applyTaskInstanceOpt ios opts) =
     (case last_cancel ios of None \<Rightarrow> cancelContext opts | Some b \<Rightarrow> b)"
proof (induction ios arbitrary: opts)
  case Nil
  then show ?case by simp
next
  case (Cons io ios)
  then show ?case by (cases io) (auto split: option.split)
qed

lemma last_cancel_append:
  "last_cancel (as @ bs) = (case last_cancel bs of Some b \<Rightarrow> Some b | None \<Rightarrow> last_cancel as)"
  by (induction as) (auto split: option.split)

text \<open>What \<open>Run\<close> does, for a build without initialization error.\<close>

lemma taskBuild_dispatch:
  assumes "key_order ks t" and "snd (build_init ks w t) = None"
    and "\<And>p. tb_parent t = Some p \<Longrightarrow> taskSteps p w' = taskSteps p w"
  shows "distinct (bs_steps (build_state ks w t)) \<and>
     (case map_of (tb_stepFunc t) st of
        Some fn \<Rightarrow> st \<in> set (bs_steps (build_state ks w t)) \<and>
          (\<exists>f. fn = Some f \<and> taskBuild_Run (fst (build_init ks w t)) c st w' = Some (f c w'))
      | None \<Rightarrow>
          (if st \<in> set (bs_steps (build_state ks w t))
           then \<exists>p. tb_parent t = Some p \<and>
              taskBuild_Run (fst (build_init ks w t)) c st w' = Some (task_Run p c st w')
           else taskBuild_Run (fst (build_init ks w t)) c st w' = Some (Some (newInvalidTaskStep st), w')))"
proof -
  have ok: "build_ok w t" using assms(2) build_state_ok [OF assms(1)] by simp
  note st = build_state_steps [OF assms(1), of w]
  have key: "map_of (tb_stepFunc t) st = None \<longleftrightarrow> st \<notin> fst ` set (tb_stepFunc t)" by (simp add: map_of_eq_None_iff)
  show ?thesis
  proof (cases "map_of (tb_stepFunc t) st")
    case None
    with st key assms(3) show ?thesis
      by (cases "tb_parent t") (auto simp: taskBuild_Run_def loadParent_def Let_def taskHasStep_def)
  next
    case (Some fn)
    then have "(st, fn) \<in> set (tb_stepFunc t)" by (rule map_of_SomeD)
    then have "st \<in> fst ` set (tb_stepFunc t)" by (metis fst_conv image_eqI)
    moreover have "fn \<noteq> None" using ok \<open>(st, fn) \<in> _\<close> unfolding build_ok_def by blast
    ultimately have fn: "fn \<noteq> None" "st \<in> fst ` set (tb_stepFunc t)" by blast+
    moreover have "\<not> taskHasStep p st w'" if "tb_parent t = Some p" for p
      using ok that assms(3) fn(2) by (auto simp: build_ok_def taskHasStep_def)
    ultimately show ?thesis
      using Some st by (cases "tb_parent t") (auto simp: taskBuild_Run_def loadParent_def Let_def)
  qed
qed

text \<open>
  A built task as a \<open>Task\<close>. \<open>AddTask\<close> refuses a build with a nil callback, so the branch of the panic
  is not taken for the tasks of a manager.
\<close>

definition build_task :: "'w taskBuild \<Rightarrow> 'w task" where
  "build_task t = \<lparr>
     task_Run = (\<lambda>c st w. case taskBuild_Run t c st w of Some r \<Rightarrow> r | None \<Rightarrow> (None, w)),
     task_TaskInfo = Some (taskBuild_TaskInfo t), task_Stringer = Some (taskBuild_String t),
     task_type = ''*svcinit.taskBuild''\<rparr>"

definition BuildTask :: "step list \<Rightarrow> 'w \<Rightarrow> 'w build_option list \<Rightarrow> 'w task" where
  "BuildTask ks w options = build_task (newTaskBuild ks w options)"

lemma build_task_simps [simp]:
  "GetTaskInfo (build_task t) w = taskBuild_TaskInfo t w"
  "taskSteps (build_task t) w = bs_steps (tb_state t)"
  "taskHasStep (build_task t) st w \<longleftrightarrow> st \<in> set (bs_steps (tb_state t))"
  by (simp_all add: build_task_def GetTaskInfo_def taskSteps_def taskHasStep_def taskBuild_TaskInfo_def Let_def)

section \<open>Properties\<close>

text \<open>
  C31: \<open>BuildTask\<close> and \<open>SetParent\<close> report an initialization error exactly when a callback is nil, there
  is nothing to run, a step of the parent is set here too (or twice in the parent), or the parent has
  an initialization error, in whatever order the map of callbacks is iterated.
\<close>

theorem build_init_error:
  assumes "key_order ks t"
  shows "snd (build_init ks w t) = None \<longleftrightarrow> build_ok w t"
  using build_state_ok [OF assms] by simp

text \<open>A build with a start callback over a parent task that has a stop step.\<close>

definition stop_task :: "step list \<Rightarrow> unit task" where
  "stop_task steps = \<lparr>task_Run = (\<lambda>_ _ w. (Some (UserError ''parent''), w)),
     task_TaskInfo = Some (\<lambda>_. zero_task_info\<lparr>ti_Steps := Some steps, ti_Options := [WithCancelContext False]\<rparr>),
     task_Stringer = None, task_type = ''main.stop''\<rparr>"

definition demo_build :: "step list \<Rightarrow> unit taskBuild" where
  "demo_build steps = fold (\<lambda>opt. opt)
     [WithStart (Some (\<lambda>_ w. (None, w))), WithParent (Some (stop_task steps)),
      WithTaskOptions [WithCancelContext True]] empty_build"

lemmas demo_build_eval = demo_build_def stop_task_def WithStart_def WithStep_def WithParent_def WithTaskOptions_def
  empty_build_def GetTaskInfo_def zero_task_info_def taskSteps_def taskHasStep_def

theorem build_init_error_witness:
  "snd (build_init [StepStart] () (demo_build [StepStop])) = None \<and>
   snd (build_init [StepStart] () (demo_build [StepStart])) \<noteq> None"
proof -
  have key: "key_order [StepStart] (demo_build steps)" for steps by (simp add: key_order_def demo_build_eval)
  have "build_ok () (demo_build [StepStop])" "\<not> build_ok () (demo_build [StepStart])"
    by (simp_all add: build_ok_def demo_build_eval)
  then show ?thesis using build_init_error [OF key] by blast
qed

text \<open>
  After an \<open>init\<close> without error, the steps of the task info are those with a callback and those
  of the parent, each once, and \<open>Run\<close> calls the callback of a step that has one, forwards a step of
  the parent, and refuses every other step; it neither panics nor reports a duplicate.
\<close>

theorem build_dispatch:
  assumes "key_order ks t" and "snd (build_init ks w t) = None"
    and "\<And>p. tb_parent t = Some p \<Longrightarrow> taskSteps p w' = taskSteps p w"
  shows "distinct (bs_steps (build_state ks w t)) \<and>
     (case map_of (tb_stepFunc t) st of
        Some fn \<Rightarrow> st \<in> set (bs_steps (build_state ks w t)) \<and>
          (\<exists>f. fn = Some f \<and> taskBuild_Run (fst (build_init ks w t)) c st w' = Some (f c w'))
      | None \<Rightarrow>
          (if st \<in> set (bs_steps (build_state ks w t))
           then \<exists>p. tb_parent t = Some p \<and>
              taskBuild_Run (fst (build_init ks w t)) c st w' = Some (task_Run p c st w')
           else taskBuild_Run (fst (build_init ks w t)) c st w' = Some (Some (newInvalidTaskStep st), w')))"
  using assms by (rule taskBuild_dispatch)

theorem build_dispatch_witness:
  "taskBuild_Run (fst (build_init [StepStart] () (demo_build [StepStop]))) 0 StepStop () =
     Some (Some (UserError ''parent''), ())"
proof -
  have "key_order [StepStart] (demo_build [StepStop])" by (simp add: key_order_def demo_build_eval)
  moreover have "snd (build_init [StepStart] () (demo_build [StepStop])) = None"
    by (simp add: build_state_def hasMissingStep_def loadParent_def Let_def demo_build_eval)
  ultimately have "\<exists>p. tb_parent (demo_build [StepStop]) = Some p \<and>
      taskBuild_Run (fst (build_init [StepStart] () (demo_build [StepStop]))) 0 StepStop () =
        Some (task_Run p 0 StepStop ())"
    using build_dispatch [of "[StepStart]" "demo_build [StepStop]" "()" "()" StepStop 0]
    by (simp add: build_state_def loadParent_def Let_def demo_build_eval)
  then show ?thesis by (simp add: demo_build_eval)
qed

text \<open>
  the task info of a built task merges the one of its parent: its own name comes first, its own
  options are applied after the ones of the parent and so override them, and a skip notification
  calls the callbacks of the task in order and then the one of the parent.
\<close>

theorem build_info_merges:
  assumes "tb_parent t = Some p"
  shows "(last_cancel (tb_options t) = Some b \<longrightarrow>
       cancelContext (fold applyTaskInstanceOpt (ti_Options (taskBuild_TaskInfo t w)) opts) = b) \<and>
     (last_cancel (tb_options t) = None \<longrightarrow>
       cancelContext (fold applyTaskInstanceOpt (ti_Options (taskBuild_TaskInfo t w)) opts) =
       cancelContext (fold applyTaskInstanceOpt (ti_Options (GetTaskInfo p w)) opts)) \<and>
     (startStepManagerOpt (fold applyTaskInstanceOpt (ti_Options (taskBuild_TaskInfo t w)) opts) \<longleftrightarrow>
       startStepManagerOpt opts \<or> WithStartStepManager \<in> set (ti_Options (GetTaskInfo p w)) \<union> set (tb_options t)) \<and>
     ti_Name (taskBuild_TaskInfo t w) = (if tb_name t = '''' then GetTaskName p w else tb_name t) \<and>
     (case ti_Skipped (taskBuild_TaskInfo t w) of
        None \<Rightarrow> tb_skipped t = [] \<and> ti_Skipped (GetTaskInfo p w) = None
      | Some f \<Rightarrow> \<forall>c cause w'. f c cause w' =
          fold (\<lambda>g. g c cause)
            (tb_skipped t @ (case ti_Skipped (GetTaskInfo p w) of None \<Rightarrow> [] | Some g \<Rightarrow> [g])) w')"
  using assms
  by (auto simp: taskBuild_TaskInfo_def loadParent_def Let_def fold_applyTaskInstanceOpt_cancel
      last_cancel_append fold_applyTaskInstanceOpt_ssm GetTaskName_def run_skipped_def
      split: option.split)

theorem build_info_merges_witness:
  "cancelContext (fold applyTaskInstanceOpt
     (ti_Options (taskBuild_TaskInfo (demo_build [StepStop]) ())) zero_taskOptions)"
proof -
  have "tb_parent (demo_build [StepStop]) = Some (stop_task [StepStop])"
    "last_cancel (tb_options (demo_build [StepStop])) = Some True"
    by (simp_all add: demo_build_eval)
  then show ?thesis using build_info_merges [of "demo_build [StepStop]"] by blast
qed

end
