(* ===== verification/DefaultTasks.thy ===== *)
theory DefaultTasks
  imports Stages
begin

text \<open>
  The built-in tasks of \<open>default.go\<close>. A \<open>select\<close> waits for the first of its channels: which branch it
  takes, with what was received, is the argument of \<open>Run\<close> here, so the theorems hold for every
  outcome. An \<open>os.Signal\<close> is its name; the rendering of a duration is a parameter.
\<close>

section \<open>SignalTask\<close>

datatype signal_wake = SignalReceived string | SignalCtxDone "go_error option"

record taskSignalTask =
  sig_signals :: "string list"

definition TaskNameSignals :: string where
  "TaskNameSignals = ''signals''"

definition SignalTask :: "string list \<Rightarrow> taskSignalTask" where
  "SignalTask signals = \<lparr>sig_signals = signals\<rparr>"

definition TaskSignalTask_Run :: "taskSignalTask \<Rightarrow> step \<Rightarrow> signal_wake \<Rightarrow> go_error option" where
  "TaskSignalTask_Run t st wake =
     (case st of
        StepStart \<Rightarrow>
          (case wake of
             SignalReceived sig \<Rightarrow> Some (SignalErr sig)
           | SignalCtxDone cause \<Rightarrow> cause)
      | _ \<Rightarrow> None)"

definition TaskSignalTask_TaskInfo :: "taskSignalTask \<Rightarrow> 'w task_info" where
  "TaskSignalTask_TaskInfo t =
     \<lparr>ti_Name = TaskNameSignals, ti_Steps = Some [StepStart], ti_Options = [WithCancelContext True],
      ti_InitError = None, ti_Skipped = None\<rparr>"

definition TaskSignalTask_String :: "taskSignalTask \<Rightarrow> string" where
  "TaskSignalTask_String t = ''Signals ['' @ join_with '' '' (sig_signals t) @ '']''"

text \<open>The task: \<open>env\<close> says what the \<open>select\<close> of the start step receives, and when the world goes on.\<close>

definition signal_task :: "(ctx \<Rightarrow> 'w \<Rightarrow> signal_wake \<times> 'w) \<Rightarrow> taskSignalTask \<Rightarrow> 'w task" where
  "signal_task env t =
     \<lparr>task_Run = (\<lambda>c st w.
        if st = StepStart then (let (wake, w') = env c w in (TaskSignalTask_Run t st wake, w'))
        else (None, w)),
      task_TaskInfo = Some (\<lambda>_. TaskSignalTask_TaskInfo t),
      task_Stringer = Some (\<lambda>_. TaskSignalTask_String t), task_type = ''*svcinit.TaskSignalTask''\<rparr>"

section \<open>TimeoutTask\<close>

datatype timeout_wake = TimeoutCtxDone | TimeoutElapsed

record taskTimeoutTask =
  to_timeout :: duration
  to_returnNilError :: bool
  to_timeoutErr :: "go_error option"

text \<open>The two constructors of \<open>TimeoutTaskOption\<close>, and their application.\<close>

datatype timeout_option = WithTimeoutTaskError "go_error option" | WithoutTimeoutTaskError

fun applyTimeoutOpt :: "timeout_option \<Rightarrow> taskTimeoutTask \<Rightarrow> taskTimeoutTask" where
  "applyTimeoutOpt (WithTimeoutTaskError e) t = t\<lparr>to_timeoutErr := e\<rparr>"
| "applyTimeoutOpt WithoutTimeoutTaskError t = t\<lparr>to_returnNilError := True\<rparr>"

definition TaskNameTimeout :: string where
  "TaskNameTimeout = ''timeout''"

definition TimeoutTask :: "duration \<Rightarrow> timeout_option list \<Rightarrow> taskTimeoutTask" where
  "TimeoutTask timeout options =
     fold applyTimeoutOpt options \<lparr>to_timeout = timeout, to_returnNilError = False, to_timeoutErr = None\<rparr>"

definition TaskTimeoutTask_Run :: "taskTimeoutTask \<Rightarrow> step \<Rightarrow> timeout_wake \<Rightarrow> go_error option" where
  "TaskTimeoutTask_Run t st wake =
     (case st of
        StepStart \<Rightarrow>
          (case wake of
             TimeoutCtxDone \<Rightarrow> None
           | TimeoutElapsed \<Rightarrow>
               (if to_returnNilError t then None
                else if to_timeoutErr t \<noteq> None then to_timeoutErr t
                else Some (TimeoutErr (to_timeout t))))
      | _ \<Rightarrow> None)"

definition TaskTimeoutTask_TaskInfo :: "taskTimeoutTask \<Rightarrow> 'w task_info" where
  "TaskTimeoutTask_TaskInfo t =
     \<lparr>ti_Name = TaskNameTimeout, ti_Steps = Some [StepStart], ti_Options = [WithCancelContext True],
      ti_InitError = None, ti_Skipped = None\<rparr>"

definition TaskTimeoutTask_String :: "(duration \<Rightarrow> string) \<Rightarrow> taskTimeoutTask \<Rightarrow> string" where
  "TaskTimeoutTask_String fmt t = ''Timeout '' @ fmt (to_timeout t)"

definition timeout_task ::
  "(duration \<Rightarrow> string) \<Rightarrow> (ctx \<Rightarrow> 'w \<Rightarrow> timeout_wake \<times> 'w) \<Rightarrow> taskTimeoutTask \<Rightarrow> 'w task" where
  "timeout_task fmt env t =
     \<lparr>task_Run = (\<lambda>c st w.
        if st = StepStart then (let (wake, w') = env c w in (TaskTimeoutTask_Run t st wake, w'))
        else (None, w)),
      task_TaskInfo = Some (\<lambda>_. TaskTimeoutTask_TaskInfo t),
      task_Stringer = Some (\<lambda>_. TaskTimeoutTask_String fmt t), task_type = ''*svcinit.TaskTimeoutTask''\<rparr>"

section \<open>Properties\<close>


fun last_timeout_err :: "timeout_option list \<Rightarrow> go_error option \<Rightarrow> go_error option" where
  "last_timeout_err [] e = e"
| "last_timeout_err (WithTimeoutTaskError e' # os) e = last_timeout_err os e'"
| "last_timeout_err (WithoutTimeoutTaskError # os) e = last_timeout_err os e"

lemma applyTimeoutOpt_fields:
  "to_timeout (fold applyTimeoutOpt os t) = to_timeout t"
  "to_returnNilError (fold applyTimeoutOpt os t) \<longleftrightarrow> to_returnNilError t \<or> WithoutTimeoutTaskError \<in> set os"
  "to_timeoutErr (fold applyTimeoutOpt os t) = last_timeout_err os (to_timeoutErr t)"
proof (induction os arbitrary: t)
  case (Cons opt os)
  case 1
  then show ?case using Cons by (cases opt) auto
  case 2
  then show ?case using Cons by (cases opt) auto
  case 3
  then show ?case using Cons by (cases opt) auto
qed auto

text \<open>
  a timeout task returns nil on timeout if that was asked for, whatever error was set and in
  whatever order the options come; else the last error that was set, or a \<open>TimeoutError\<close> with its
  timeout; and nil when its context is done first, and for every step but start.
\<close>

theorem timeout_task_result:
  "TaskTimeoutTask_Run (TimeoutTask d os) st wake =
     (if st = StepStart \<and> wake = TimeoutElapsed \<and> WithoutTimeoutTaskError \<notin> set os
      then Some (case last_timeout_err os None of Some e \<Rightarrow> e | None \<Rightarrow> TimeoutErr d)
      else None)"
  by (cases st; cases wake)
    (auto simp: TaskTimeoutTask_Run_def TimeoutTask_def applyTimeoutOpt_fields split: option.split)

text \<open>
  whatever options are passed to \<open>AddTask\<close>, the wrapper of a signal or timeout task asks for a
  start context that the manager cancels, runs the start step only, and keeps the handler and the
  callbacks passed to \<open>AddTask\<close>.
\<close>

theorem default_tasks_get_cancelled:
  "cancelContext (currentOptions (newTaskWrapper (signal_task env t) opts) w) \<and>
   cancelContext (currentOptions (newTaskWrapper (timeout_task fmt env' t') opts) w) \<and>
   (taskHasStep (signal_task env t) st w \<longleftrightarrow> st = StepStart) \<and>
   (taskHasStep (timeout_task fmt env' t') st w \<longleftrightarrow> st = StepStart) \<and>
   handler (currentOptions (newTaskWrapper (signal_task env t) opts) w) =
     handler (fold applyTaskOpt opts zero_taskOptions) \<and>
   callbacks (currentOptions (newTaskWrapper (signal_task env t) opts) w) =
     callbacks (fold applyTaskOpt opts zero_taskOptions)"
  by (simp add: currentOptions_def newTaskWrapper_def GetTaskInfo_def signal_task_def timeout_task_def
      TaskSignalTask_TaskInfo_def TaskTimeoutTask_TaskInfo_def taskHasStep_def taskSteps_def)

end
