(* ===== verification/Health.thy ===== *)
theory Health
  imports Stages
begin

text \<open>
  Health probes: the \<open>HealthHandler\<close> built from callbacks (\<open>health.go\<close>), and the HTTP handlers, server
  task and wrapper of \<open>health_http\<close>. Of \<open>net/http\<close> the model has the response writer and the patterns
  registered in a mux; how a mux matches a request, and what listening and shutting down a server
  return, are arguments.
\<close>

section \<open>health.go\<close>

text \<open>A \<open>HealthHandler\<close> is its two methods, on the world.\<close>

type_synonym 'w health_func = "ctx \<Rightarrow> 'w \<Rightarrow> 'w"

record 'w healthHandler =
  hh_ServiceStarted :: "'w health_func"
  hh_ServiceTerminating :: "'w health_func"

record 'w buildHealthHandler =
  bh_serviceStarted :: "'w health_func option"
  bh_serviceTerminating :: "'w health_func option"

definition WithHealthHandlerServiceStarted ::
  "'w health_func option \<Rightarrow> 'w buildHealthHandler \<Rightarrow> 'w buildHealthHandler" where
  "WithHealthHandlerServiceStarted f build = build\<lparr>bh_serviceStarted := f\<rparr>"

definition WithHealthHandlerServiceTerminating ::
  "'w health_func option \<Rightarrow> 'w buildHealthHandler \<Rightarrow> 'w buildHealthHandler" where
  "WithHealthHandlerServiceTerminating f build = build\<lparr>bh_serviceTerminating := f\<rparr>"

definition buildHealthHandler_ServiceStarted :: "'w buildHealthHandler \<Rightarrow> 'w health_func" where
  "buildHealthHandler_ServiceStarted t c w = (case bh_serviceStarted t of None \<Rightarrow> w | Some f \<Rightarrow> f c w)"

definition buildHealthHandler_ServiceTerminating :: "'w buildHealthHandler \<Rightarrow> 'w health_func" where
  "buildHealthHandler_ServiceTerminating t c w =
     (case bh_serviceTerminating t of None \<Rightarrow> w | Some f \<Rightarrow> f c w)"

definition BuildHealthHandler :: "('w buildHealthHandler \<Rightarrow> 'w buildHealthHandler) list \<Rightarrow> 'w healthHandler" where
  "BuildHealthHandler options =
     (let ret = fold (\<lambda>opt. opt) options \<lparr>bh_serviceStarted = None, bh_serviceTerminating = None\<rparr>
      in \<lparr>hh_ServiceStarted = buildHealthHandler_ServiceStarted ret,
          hh_ServiceTerminating = buildHealthHandler_ServiceTerminating ret\<rparr>)"

section \<open>The response writer\<close>

text \<open>The first \<open>WriteHeader\<close> counts; a \<open>Write\<close> without one sends 200.\<close>

record responseWriter =
  rw_code :: "nat option"
  rw_body :: string

definition StatusOK :: nat where "StatusOK = 200"
definition StatusNotFound :: nat where "StatusNotFound = 404"
definition StatusPreconditionFailed :: nat where "StatusPreconditionFailed = 412"
definition StatusServiceUnavailable :: nat where "StatusServiceUnavailable = 503"

definition WriteHeader :: "nat \<Rightarrow> responseWriter \<Rightarrow> responseWriter" where
  "WriteHeader code w = (if rw_code w = None then w\<lparr>rw_code := Some code\<rparr> else w)"

definition rw_Write :: "string \<Rightarrow> responseWriter \<Rightarrow> responseWriter" where
  "rw_Write body w = (let w' = WriteHeader StatusOK w in w'\<lparr>rw_body := rw_body w' @ body\<rparr>)"

definition new_response :: responseWriter where
  "new_response = \<lparr>rw_code = None, rw_body = ''''\<rparr>"

section \<open>handler.go\<close>

datatype probe = ProbeStartup | ProbeLiveness | ProbeReadiness

record health_status =
  IsStarted :: bool
  IsTerminating :: bool

type_synonym 'r probe_handler = "probe \<Rightarrow> health_status \<Rightarrow> 'r \<Rightarrow> responseWriter \<Rightarrow> responseWriter"

text \<open>
  The three \<open>http.Handler\<close> fields hold what \<open>probeHTTPHandler\<close> returns: a closure over the handler
  itself, kept as its probe (nil before \<open>init\<close>).
\<close>

record 'r handler =
  StartupHandler :: "probe option"
  LivenessHandler :: "probe option"
  ReadinessHandler :: "probe option"
  StartupProbePath :: string
  LivenessProbePath :: string
  ReadinessProbePath :: string
  h_startupProbe :: bool
  h_probeHandler :: "'r probe_handler option"
  h_isStarted :: bool
  h_isTerminating :: bool

datatype 'r handler_option =
    WithStartupProbe bool
  | WithStartupProbePath string
  | WithLivenessProbePath string
  | WithReadinessProbePath string
  | WithProbeHandler "'r probe_handler option"

fun applyHandlerOption :: "'r handler_option \<Rightarrow> 'r handler \<Rightarrow> 'r handler" where
  "applyHandlerOption (WithStartupProbe b) h = h\<lparr>h_startupProbe := b\<rparr>"
| "applyHandlerOption (WithStartupProbePath p) h = h\<lparr>StartupProbePath := p\<rparr>"
| "applyHandlerOption (WithLivenessProbePath p) h = h\<lparr>LivenessProbePath := p\<rparr>"
| "applyHandlerOption (WithReadinessProbePath p) h = h\<lparr>ReadinessProbePath := p\<rparr>"
| "applyHandlerOption (WithProbeHandler ph) h = h\<lparr>h_probeHandler := ph\<rparr>"

text \<open>The switch on the probe and the status, with the early returns of the source.\<close>

definition DefaultProbeHandler :: "'r probe_handler" where
  "DefaultProbeHandler probe status r w =
     (if probe = ProbeLiveness then WriteHeader StatusOK w
      else if \<not> IsStarted status
      then rw_Write ''service not ready'' (WriteHeader StatusPreconditionFailed w)
      else if probe = ProbeReadiness \<and> IsTerminating status
      then rw_Write ''service shutting down'' (WriteHeader StatusServiceUnavailable w)
      else WriteHeader StatusOK w)"

definition handler_init :: "'r handler \<Rightarrow> 'r handler" where
  "handler_init h =
     (let h = (if \<not> h_startupProbe h then h\<lparr>h_isStarted := True\<rparr> else h)
      in h\<lparr>StartupHandler := Some ProbeStartup, LivenessHandler := Some ProbeLiveness,
           ReadinessHandler := Some ProbeReadiness\<rparr>)"

definition NewHandler :: "'r handler_option list \<Rightarrow> 'r handler" where
  "NewHandler options =
     (let ret = fold applyHandlerOption options
            \<lparr>StartupHandler = None, LivenessHandler = None, ReadinessHandler = None,
             StartupProbePath = ''/startup'', LivenessProbePath = ''/healthz'', ReadinessProbePath = ''/ready'',
             h_startupProbe = False, h_probeHandler = None, h_isStarted = False, h_isTerminating = False\<rparr>;
          ret = (if h_probeHandler ret = None then ret\<lparr>h_probeHandler := Some DefaultProbeHandler\<rparr> else ret)
      in handler_init ret)"

definition handler_ServiceStarted :: "'r handler \<Rightarrow> 'r handler" where
  "handler_ServiceStarted h = h\<lparr>h_isStarted := True\<rparr>"

definition handler_ServiceTerminating :: "'r handler \<Rightarrow> 'r handler" where
  "handler_ServiceTerminating h = h\<lparr>h_isTerminating := True\<rparr>"

definition handler_IsStarted :: "'r handler \<Rightarrow> bool" where
  "handler_IsStarted h = h_isStarted h"

definition handler_IsTerminating :: "'r handler \<Rightarrow> bool" where
  "handler_IsTerminating h = h_isTerminating h"

text \<open>\<open>ServeHTTP\<close> of a probe handler; a nil probe handler panics (\<open>NewHandler\<close> never leaves one).\<close>

definition probe_ServeHTTP :: "'r handler \<Rightarrow> probe \<Rightarrow> 'r \<Rightarrow> responseWriter \<Rightarrow> responseWriter option" where
  "probe_ServeHTTP h probe r w =
     (case h_probeHandler h of
        None \<Rightarrow> None
      | Some ph \<Rightarrow> Some (ph probe \<lparr>IsStarted = h_isStarted h, IsTerminating = h_isTerminating h\<rparr> r w))"

text \<open>The patterns \<open>Register\<close> adds to a mux, in order, each with the handler it is bound to.\<close>

definition Register :: "'r handler \<Rightarrow> (string \<times> probe option) list" where
  "Register h = [(''GET '' @ StartupProbePath h, StartupHandler h),
                 (''GET '' @ LivenessProbePath h, LivenessHandler h),
                 (''GET '' @ ReadinessProbePath h, ReadinessHandler h)]"

section \<open>wrap_http.go\<close>

datatype route = ProbeRoute "probe option" | AppRoute

record 'r httpWrapper =
  hw_httpHandler :: "('r \<Rightarrow> responseWriter \<Rightarrow> responseWriter) option"
  hw_healthHandler :: "'r handler"
  hw_mux :: "(string \<times> route) list"

definition NewHTTPWrapper :: "'r handler \<Rightarrow> 'r httpWrapper" where
  "NewHTTPWrapper h =
     \<lparr>hw_httpHandler = None, hw_healthHandler = h,
      hw_mux = map (\<lambda>(p, pr). (p, ProbeRoute pr)) (Register h) @ [(''/'', AppRoute)]\<rparr>"

definition SetHTTPHandler :: "('r \<Rightarrow> responseWriter \<Rightarrow> responseWriter) \<Rightarrow> 'r httpWrapper \<Rightarrow> 'r httpWrapper" where
  "SetHTTPHandler f hw = hw\<lparr>hw_httpHandler := Some f\<rparr>"

definition NotFound :: "responseWriter \<Rightarrow> responseWriter" where
  "NotFound w = rw_Write (''404 page not found'' @ [CHR 0x0A]) (WriteHeader StatusNotFound w)"

definition serveApp :: "'r httpWrapper \<Rightarrow> 'r \<Rightarrow> responseWriter \<Rightarrow> responseWriter" where
  "serveApp hw r w =
     (if \<not> handler_IsStarted (hw_healthHandler hw)
      then rw_Write ''service not ready'' (WriteHeader StatusPreconditionFailed w)
      else (case hw_httpHandler hw of Some f \<Rightarrow> f r w | None \<Rightarrow> NotFound w))"

text \<open>\<open>mux\<close> is how \<open>http.ServeMux\<close> picks a registered handler for a request, or none.\<close>

definition wrapper_ServeHTTP ::
  "((string \<times> route) list \<Rightarrow> 'r \<Rightarrow> route option) \<Rightarrow> 'r httpWrapper \<Rightarrow> 'r \<Rightarrow> responseWriter \<Rightarrow> responseWriter option" where
  "wrapper_ServeHTTP mux hw r w =
     (case mux (hw_mux hw) r of
        None \<Rightarrow> Some (NotFound w)
      | Some AppRoute \<Rightarrow> Some (serveApp hw r w)
      | Some (ProbeRoute None) \<Rightarrow> None
      | Some (ProbeRoute (Some probe)) \<Rightarrow> probe_ServeHTTP (hw_healthHandler hw) probe r w)"

section \<open>server.go\<close>

text \<open>The fields of the \<open>http.Server\<close> that the package sets.\<close>

record http_server =
  hs_Addr :: string
  hs_ReadHeaderTimeout :: duration
  hs_Handler :: "(string \<times> probe option) list option"
  hs_BaseContext :: "ctx option"

type_synonym 'w server_provider =
  "ctx \<Rightarrow> string \<Rightarrow> 'w \<Rightarrow> http_server option \<times> go_error option \<times> 'w"

record ('r, 'w) server =
  srv_server :: "http_server option"
  srv_handlerOptions :: "'r handler_option list"
  srv_handler :: "'r handler"
  srv_address :: string
  srv_httpServerProvider :: "'w server_provider option"
  srv_taskName :: string

datatype ('r, 'w) server_option =
    HandlerOption "'r handler_option"
  | WithServerAddress string
  | WithServerProvider "'w server_provider option"
  | WithServerTaskName string

fun applyServerOption :: "('r, 'w) server_option \<Rightarrow> ('r, 'w) server \<Rightarrow> ('r, 'w) server" where
  "applyServerOption (HandlerOption ho) s = s\<lparr>srv_handlerOptions := srv_handlerOptions s @ [ho]\<rparr>"
| "applyServerOption (WithServerAddress a) s = s\<lparr>srv_address := a\<rparr>"
| "applyServerOption (WithServerProvider p) s = s\<lparr>srv_httpServerProvider := p\<rparr>"
| "applyServerOption (WithServerTaskName n) s = s\<lparr>srv_taskName := n\<rparr>"

definition NewServer :: "('r, 'w) server_option list \<Rightarrow> ('r, 'w) server" where
  "NewServer options =
     (let ret = fold applyServerOption options
            \<lparr>srv_server = None, srv_handlerOptions = [], srv_handler = NewHandler [], srv_address = '':6060'',
             srv_httpServerProvider = None, srv_taskName = ''health''\<rparr>
      in ret\<lparr>srv_handler := NewHandler (srv_handlerOptions ret)\<rparr>)"

definition server_ServiceStarted :: "('r, 'w) server \<Rightarrow> ('r, 'w) server" where
  "server_ServiceStarted s = s\<lparr>srv_handler := handler_ServiceStarted (srv_handler s)\<rparr>"

definition server_ServiceTerminating :: "('r, 'w) server \<Rightarrow> ('r, 'w) server" where
  "server_ServiceTerminating s = s\<lparr>srv_handler := handler_ServiceTerminating (srv_handler s)\<rparr>"

text \<open>
  \<open>Run\<close>: \<open>listen\<close> and \<open>shutdown\<close> are what \<open>ListenAndServe\<close> and \<open>Shutdown\<close> of the server return. The
  outcome \<open>None\<close> is the panic on a nil server.
\<close>

definition server_Run ::
  "(http_server \<Rightarrow> go_error option) \<Rightarrow> (http_server \<Rightarrow> ctx \<Rightarrow> go_error option) \<Rightarrow> ('r, 'w) server \<Rightarrow> ctx \<Rightarrow> step
    \<Rightarrow> 'w \<Rightarrow> (go_error option \<times> ('r, 'w) server \<times> 'w) option" where
  "server_Run listen shutdown s c st w =
     (case st of
        StepSetup \<Rightarrow>
          (let (srv, err, w') =
                 (case srv_httpServerProvider s of
                    Some p \<Rightarrow> p c (srv_address s) w
                  | None \<Rightarrow> (Some \<lparr>hs_Addr = srv_address s, hs_ReadHeaderTimeout = 5000000000,
                                  hs_Handler = None, hs_BaseContext = None\<rparr>, None, w));
               s' = s\<lparr>srv_server := srv\<rparr>
           in if err \<noteq> None then Some (err, s', w')
              else (case srv of
                      None \<Rightarrow> None
                    | Some hs \<Rightarrow>
                        Some (None, s'\<lparr>srv_server := Some (hs\<lparr>hs_Handler := Some (Register (srv_handler s))\<rparr>)\<rparr>, w')))
      | StepStart \<Rightarrow>
          (case srv_server s of
             None \<Rightarrow> None
           | Some hs \<Rightarrow>
               (let hs' = hs\<lparr>hs_BaseContext := Some c\<rparr>; err = listen hs'
                in Some (if err \<noteq> None \<and> \<not> errors_Is err HttpErrServerClosed then err else None,
                         s\<lparr>srv_server := Some hs'\<rparr>, w)))
      | StepStop \<Rightarrow>
          (case srv_server s of None \<Rightarrow> None | Some hs \<Rightarrow> Some (shutdown hs c, s, w))
      | _ \<Rightarrow> Some (None, s, w))"

definition server_TaskInfo :: "('r, 'w) server \<Rightarrow> 'w task_info" where
  "server_TaskInfo s = zero_task_info\<lparr>ti_Name := srv_taskName s\<rparr>"

section \<open>Properties\<close>

lemma handler_updates [simp]:
  "h_probeHandler (handler_ServiceStarted h) = h_probeHandler h" "h_isStarted (handler_ServiceStarted h)"
  "h_isTerminating (handler_ServiceStarted h) = h_isTerminating h"
  "h_probeHandler (handler_ServiceTerminating h) = h_probeHandler h"
  "h_isStarted (handler_ServiceTerminating h) = h_isStarted h" "h_isTerminating (handler_ServiceTerminating h)"
  by (simp_all add: handler_ServiceStarted_def handler_ServiceTerminating_def)

fun asks_startup :: "'r handler_option list \<Rightarrow> bool \<Rightarrow> bool" where
  "asks_startup [] b = b"
| "asks_startup (WithStartupProbe b' # os) b = asks_startup os b'"
| "asks_startup (_ # os) b = asks_startup os b"

definition default_probes :: "'r handler_option list \<Rightarrow> bool" where
  "default_probes os \<longleftrightarrow> (\<forall>ph. WithProbeHandler ph \<notin> set os)"

lemma applyHandlerOption_fields:
  "h_startupProbe (fold applyHandlerOption os h) = asks_startup os (h_startupProbe h)"
  "h_isStarted (fold applyHandlerOption os h) = h_isStarted h"
  "h_isTerminating (fold applyHandlerOption os h) = h_isTerminating h"
  "default_probes os \<Longrightarrow> h_probeHandler (fold applyHandlerOption os h) = h_probeHandler h"
proof (induction os arbitrary: h)
  case (Cons ho os)
  case 1
  then show ?case using Cons by (cases ho) auto
  case 2
  then show ?case using Cons by (cases ho) auto
  case 3
  then show ?case using Cons by (cases ho) auto
  case 4
  then show ?case using Cons by (cases ho) (auto simp: default_probes_def)
qed auto

lemma NewHandler_fields:
  "h_isStarted (NewHandler os) = (\<not> asks_startup os False)" "\<not> h_isTerminating (NewHandler os)"
  "default_probes os \<Longrightarrow> h_probeHandler (NewHandler os) = Some DefaultProbeHandler"
  "h_probeHandler (NewHandler os) \<noteq> None"
  by (auto simp: NewHandler_def Let_def handler_init_def applyHandlerOption_fields)

text \<open>The calls a manager makes on a health handler, in any order and number.\<close>

datatype health_call = CallStarted | CallTerminating

fun apply_call :: "health_call \<Rightarrow> 'r handler \<Rightarrow> 'r handler" where
  "apply_call CallStarted h = handler_ServiceStarted h"
| "apply_call CallTerminating h = handler_ServiceTerminating h"

lemma health_calls_fields:
  "h_isStarted (fold apply_call hcs h) \<longleftrightarrow> h_isStarted h \<or> CallStarted \<in> set hcs"
  "h_isTerminating (fold apply_call hcs h) \<longleftrightarrow> h_isTerminating h \<or> CallTerminating \<in> set hcs"
  "h_probeHandler (fold apply_call hcs h) = h_probeHandler h"
proof (induction hcs arbitrary: h)
  case (Cons hc hcs)
  case 1
  then show ?case using Cons by (cases hc) auto
  case 2
  then show ?case using Cons by (cases hc) auto
  case 3
  then show ?case using Cons by (cases hc) auto
qed auto

text \<open>
  C32: the answers of the probes over the life of a service, with the default probe handler: liveness
  is always 200; startup is 412 until the service has started (if a startup probe was asked for) and
  200 from then on; readiness is 412 until then, 200 while the service runs, and 503 once it is
  terminating, whatever the order and the number of the calls.
\<close>

theorem probe_responses:
  assumes "default_probes os"
  shows "Option.bind (probe_ServeHTTP (fold apply_call hcs (NewHandler os)) probe r new_response) rw_code =
     Some (if probe = ProbeLiveness then 200
           else if asks_startup os False \<and> CallStarted \<notin> set hcs then 412
           else if probe = ProbeReadiness \<and> CallTerminating \<in> set hcs then 503
           else 200)"
  using assms
  by (cases probe)
    (auto simp: probe_ServeHTTP_def health_calls_fields NewHandler_fields DefaultProbeHandler_def WriteHeader_def
      rw_Write_def Let_def new_response_def StatusOK_def StatusPreconditionFailed_def StatusServiceUnavailable_def)

theorem probe_responses_witness:
  "Option.bind (probe_ServeHTTP (fold apply_call [CallStarted, CallTerminating]
      (NewHandler [WithStartupProbe True] :: unit handler)) ProbeReadiness () new_response) rw_code = Some 503"
  using probe_responses [of "[WithStartupProbe True]" "[CallStarted, CallTerminating]" ProbeReadiness "()"]
  by (simp add: default_probes_def)

text \<open>
  The life of the health server task: when its setup step returned nil, the server has the health
  handler and no other, the start step returns what listening returned but for \<open>ErrServerClosed\<close>, and
  neither the start nor the stop step panics; without a setup, both do.
\<close>

theorem server_lifecycle:
  assumes "server_Run listen shutdown s c StepSetup w = Some (None, s', w')"
  shows "(\<exists>hs. srv_server s' = Some hs \<and> hs_Handler hs = Some (Register (srv_handler s)) \<and>
       srv_handler s' = srv_handler s \<and>
       (\<exists>s''. server_Run listen shutdown s' c2 StepStart w2 =
          Some (case listen (hs\<lparr>hs_BaseContext := Some c2\<rparr>) of
                  Some e \<Rightarrow> if err_is HttpErrServerClosed e then None else Some e
                | None \<Rightarrow> None, s'', w2) \<and>
          server_Run listen shutdown s'' c3 StepStop w3 =
            Some (shutdown (hs\<lparr>hs_BaseContext := Some c2\<rparr>) c3, s'', w3))) \<and>
     server_Run listen shutdown (s\<lparr>srv_server := None\<rparr>) c2 StepStart w2 = None"
  using assms
  by (auto simp: server_Run_def Let_def split: prod.splits option.splits if_splits)

theorem server_lifecycle_witness:
  "\<exists>s' w'. server_Run (\<lambda>_. Some (Sentinel HttpErrServerClosed)) (\<lambda>_ _. None)
      (NewServer [] :: (unit, unit) server) 0 StepSetup () = Some (None, s', w') \<and>
     (\<exists>s''. server_Run (\<lambda>_. Some (Sentinel HttpErrServerClosed)) (\<lambda>_ _. None) s' 1 StepStart () = Some (None, s'', ()))"
proof -
  let ?s = "NewServer [] :: (unit, unit) server" and ?l = "\<lambda>_. Some (Sentinel HttpErrServerClosed)"
  obtain s' where s': "server_Run ?l (\<lambda>_ _. None) ?s 0 StepSetup () = Some (None, s', ())"
    by (simp add: server_Run_def NewServer_def Let_def)
  from server_lifecycle [OF this, of 1 "()" 2 "()"] show ?thesis using s' by fastforce
qed


text \<open>
  The HTTP wrapper never panics and gates the application: for a mux that picks one of the
  registered handlers, a request that goes to the application is answered 412 until the service has
  started, whatever the application is, and by the application (404 without one) from then on.
\<close>

theorem wrapper_gates_application:
  assumes "\<And>ms rt. mux ms r = Some rt \<Longrightarrow> rt \<in> snd ` set ms"
  shows "wrapper_ServeHTTP mux (SetHTTPHandler f (NewHTTPWrapper (NewHandler os))\<lparr>hw_healthHandler :=
        fold apply_call hcs (NewHandler os)\<rparr>) r new_response \<noteq> None \<and>
     (mux (hw_mux (NewHTTPWrapper (NewHandler os))) r = Some AppRoute \<longrightarrow>
       wrapper_ServeHTTP mux (SetHTTPHandler f (NewHTTPWrapper (NewHandler os))\<lparr>hw_healthHandler :=
          fold apply_call hcs (NewHandler os)\<rparr>) r new_response =
       Some (if asks_startup os False \<and> CallStarted \<notin> set hcs
             then \<lparr>rw_code = Some 412, rw_body = ''service not ready''\<rparr> else f r new_response))"
proof -
  let ?ms = "hw_mux (NewHTTPWrapper (NewHandler os))"
  have routes: "rt = AppRoute \<or> (\<exists>probe. rt = ProbeRoute (Some probe))" if "mux ?ms r = Some rt" for rt
    using assms [OF that]
    by (auto simp: NewHTTPWrapper_def Register_def NewHandler_def handler_init_def Let_def)
  have probes: "probe_ServeHTTP (fold apply_call hcs (NewHandler os)) probe r w \<noteq> None" for probe w
    using NewHandler_fields(4) by (auto simp: probe_ServeHTTP_def health_calls_fields split: option.split)
  have same: "hw_mux (SetHTTPHandler f (NewHTTPWrapper (NewHandler os))) = ?ms" by (simp add: SetHTTPHandler_def)
  show ?thesis
  proof (cases "mux ?ms r")
    case None
    then show ?thesis using same by (simp add: wrapper_ServeHTTP_def)
  next
    case (Some rt)
    with routes consider "rt = AppRoute" | probe where "rt = ProbeRoute (Some probe)" by blast
    then show ?thesis
    proof cases
      case 1
      with Some same show ?thesis
        by (simp add: wrapper_ServeHTTP_def serveApp_def handler_IsStarted_def health_calls_fields NewHandler_fields
            rw_Write_def WriteHeader_def Let_def new_response_def StatusPreconditionFailed_def SetHTTPHandler_def)
    next
      case 2
      with Some same probes show ?thesis by (simp add: wrapper_ServeHTTP_def)
    qed
  qed
qed

text \<open>A mux that picks the first registered pattern that is the request, or the last one.\<close>

definition first_match :: "(string \<times> route) list \<Rightarrow> string \<Rightarrow> route option" where
  "first_match ms r = (case map_of ms r of Some rt \<Rightarrow> Some rt | None \<Rightarrow> if ms = [] then None else Some (snd (last ms)))"

theorem wrapper_gates_application_witness:
  "wrapper_ServeHTTP first_match (SetHTTPHandler (\<lambda>_ _. new_response) (NewHTTPWrapper (NewHandler [WithStartupProbe True]))
     \<lparr>hw_healthHandler := fold apply_call [] (NewHandler [WithStartupProbe True])\<rparr>) ''/app'' new_response =
   Some \<lparr>rw_code = Some 412, rw_body = ''service not ready''\<rparr>"
proof -
  have m: "first_match ms r = Some rt \<Longrightarrow> rt \<in> snd ` set ms" for ms r rt
    by (force simp: first_match_def split: option.splits if_splits dest: map_of_SomeD)
  have "first_match (hw_mux (NewHTTPWrapper (NewHandler [WithStartupProbe True] :: string handler))) ''/app'' = Some AppRoute"
    by (simp add: first_match_def NewHTTPWrapper_def Register_def NewHandler_def handler_init_def Let_def)
  then show ?thesis
    using wrapper_gates_application [where mux = first_match and r = "''/app''" and f = "\<lambda>_ _. new_response"
        and os = "[WithStartupProbe True]" and hcs = "[]"] m
    by simp
qed

end
