(* ===== verification/Future.thy ===== *)
theory Future
  imports Contexts
begin

text \<open>
  \<open>future.go\<close>: a value that is resolved once, and the latch under it. A channel is a reference into a
  store that says which channels are closed, because the channel a waiter got from \<open>Done\<close> is the one
  that \<open>resolve\<close> closes later, and because \<open>closedchan\<close> is shared by every latch. Each method of the
  latch holds its mutex, so it is one function; a panic is the outcome \<open>None\<close>.
\<close>

section \<open>Channels\<close>

type_synonym chan = nat
type_synonym chans = "bool list"

definition make_chan :: "chans \<Rightarrow> chan \<times> chans" where
  "make_chan chs = (length chs, chs @ [False])"

definition chan_closed :: "chans \<Rightarrow> chan \<Rightarrow> bool" where
  "chan_closed chs c \<longleftrightarrow> c < length chs \<and> chs ! c"

text \<open>Closing a closed channel panics.\<close>

definition close_chan :: "chan \<Rightarrow> chans \<Rightarrow> chans option" where
  "close_chan c chs = (if chan_closed chs c then None else Some (chs[c := True]))"

text \<open>\<open>closedchan\<close> is the first channel of the program, closed by \<open>init\<close>.\<close>

definition closedchan :: chan where
  "closedchan = 0"

definition chans_init :: chans where
  "chans_init = [True]"

section \<open>The latch\<close>

record latch =
  l_done :: "chan option"

definition zero_latch :: latch where
  "zero_latch = \<lparr>l_done = None\<rparr>"

definition latch_Done :: "latch \<Rightarrow> chans \<Rightarrow> chan \<times> latch \<times> chans" where
  "latch_Done l chs =
     (case l_done l of
        None \<Rightarrow> (let (c, chs') = make_chan chs in (c, l\<lparr>l_done := Some c\<rparr>, chs'))
      | Some c \<Rightarrow> (c, l, chs))"

text \<open>The function that \<open>resolve\<close> gets is applied by the caller of the model, when this does not panic.\<close>

definition latch_resolve :: "latch \<Rightarrow> chans \<Rightarrow> (latch \<times> chans) option" where
  "latch_resolve l chs =
     (case l_done l of
        None \<Rightarrow> Some (l\<lparr>l_done := Some closedchan\<rparr>, chs)
      | Some c \<Rightarrow>
          (if chan_closed chs c then None
           else map_option (Pair l) (close_chan c chs)))"

definition latch_resolved :: "latch \<Rightarrow> chans \<Rightarrow> bool" where
  "latch_resolved l chs \<longleftrightarrow> (case l_done l of None \<Rightarrow> False | Some c \<Rightarrow> chan_closed chs c)"

section \<open>The future\<close>

record 'v future =
  f_l :: latch
  f_v :: 'v
  f_err :: "go_error option"

text \<open>The zero value of the type of the data is an argument where the code says \<open>var empty T\<close>.\<close>

definition NewFuture :: "'v \<Rightarrow> 'v future" where
  "NewFuture zv = \<lparr>f_l = zero_latch, f_v = zv, f_err = None\<rparr>"

definition future_Done :: "'v future \<Rightarrow> chans \<Rightarrow> chan \<times> 'v future \<times> chans" where
  "future_Done f chs = (let (c, l', chs') = latch_Done (f_l f) chs in (c, f\<lparr>f_l := l'\<rparr>, chs'))"

definition future_Resolve :: "'v \<Rightarrow> 'v future \<Rightarrow> chans \<Rightarrow> ('v future \<times> chans) option" where
  "future_Resolve value f chs =
     map_option (\<lambda>(l', chs'). (f\<lparr>f_l := l', f_v := value\<rparr>, chs')) (latch_resolve (f_l f) chs)"

definition future_ResolveError :: "go_error option \<Rightarrow> 'v future \<Rightarrow> chans \<Rightarrow> ('v future \<times> chans) option" where
  "future_ResolveError err f chs =
     map_option (\<lambda>(l', chs'). (f\<lparr>f_l := l', f_err := err\<rparr>, chs')) (latch_resolve (f_l f) chs)"

record futureValueOptions =
  fvo_ctx :: "ctx option"
  fvo_nowait :: bool

datatype future_value_option = WithFutureCtx "ctx option" | WithoutFutureWait

fun applyFutureValueOpt :: "future_value_option \<Rightarrow> futureValueOptions \<Rightarrow> futureValueOptions" where
  "applyFutureValueOpt (WithFutureCtx c) opts = opts\<lparr>fvo_ctx := c\<rparr>"
| "applyFutureValueOpt WithoutFutureWait opts = opts\<lparr>fvo_nowait := True\<rparr>"

text \<open>
  \<open>Value\<close>, at a moment when the contexts are \<open>st\<close>. It blocks when neither channel of its \<open>select\<close> is
  closed, which is the result \<open>None\<close>; when both are, \<open>b\<close> says which one is taken. A nil context has
  a nil channel, which is never ready.
\<close>

definition future_Value ::
  "'v \<Rightarrow> future_value_option list \<Rightarrow> bool \<Rightarrow> ctxs \<Rightarrow> 'v future \<Rightarrow> chans \<Rightarrow>
     ('v \<times> go_error option) option \<times> 'v future \<times> chans" where
  "future_Value zv options b st f chs =
     (let optns = fold applyFutureValueOpt options \<lparr>fvo_ctx = None, fvo_nowait = False\<rparr>;
          (d, f', chs') = future_Done f chs;
          res = (f_v f', f_err f')
      in (if fvo_nowait optns
          then Some (if chan_closed chs' d then res else (zv, Some (Sentinel ErrNotResolved)))
          else (let ctxDone = (case fvo_ctx optns of None \<Rightarrow> False | Some c \<Rightarrow> ctx_Done st c) in
                if ctxDone \<and> (b \<or> \<not> chan_closed chs' d)
                then Some (zv, Option.bind (fvo_ctx optns) (ctx_Err st))
                else if chan_closed chs' d then Some res else None),
          f', chs'))"

section \<open>Sequences of calls\<close>

text \<open>The calls that several goroutines make to one future, in the order they get its mutex.\<close>

datatype 'v future_op = OpDone | OpResolve 'v | OpResolveError "go_error option"

fun is_resolve :: "'v future_op \<Rightarrow> bool" where
  "is_resolve OpDone = False"
| "is_resolve _ = True"

fun resolution :: "'v \<Rightarrow> 'v future_op \<Rightarrow> 'v \<times> go_error option" where
  "resolution zv (OpResolve v) = (v, None)"
| "resolution zv (OpResolveError e) = (zv, e)"
| "resolution zv OpDone = (zv, Some (Sentinel ErrNotResolved))"

fun future_call :: "'v future_op \<Rightarrow> 'v future \<times> chans \<Rightarrow> ('v future \<times> chans) option" where
  "future_call OpDone (f, chs) = Some (snd (future_Done f chs))"
| "future_call (OpResolve v) (f, chs) = future_Resolve v f chs"
| "future_call (OpResolveError e) (f, chs) = future_ResolveError e f chs"

text \<open>Calls one after the other, until one panics.\<close>

fun calls_run :: "('c \<Rightarrow> 's \<Rightarrow> 's option) \<Rightarrow> 'c list \<Rightarrow> 's \<Rightarrow> 's option" where
  "calls_run call [] s = Some s"
| "calls_run call (c # cs) s = (case call c s of None \<Rightarrow> None | Some s' \<Rightarrow> calls_run call cs s')"

definition future_resolved :: "'v future \<times> chans \<Rightarrow> bool" where
  "future_resolved s = latch_resolved (f_l (fst s)) (snd s)"


definition future_outcome :: "'v future \<times> chans \<Rightarrow> 'v \<times> go_error option" where
  "future_outcome s = (f_v (fst s), f_err (fst s))"

text \<open>The store always has \<open>closedchan\<close>, closed, and the channel of the latch.\<close>

definition latch_inv :: "latch \<Rightarrow> chans \<Rightarrow> bool" where
  "latch_inv l chs \<longleftrightarrow> chan_closed chs closedchan \<and> (\<forall>c. l_done l = Some c \<longrightarrow> c < length chs)"

definition future_inv :: "'v \<Rightarrow> 'v future \<times> chans \<Rightarrow> bool" where
  "future_inv zv s \<longleftrightarrow> latch_inv (f_l (fst s)) (snd s) \<and>
     (\<not> future_resolved s \<longrightarrow> future_outcome s = (zv, None))"

section \<open>The contract: resolved at most once\<close>

text \<open>
  What the code relies on of anything that is resolved: a call that resolves panics exactly when it is
  resolved already; it sets the outcome; nothing else changes the outcome.
\<close>

locale resolve_once =
  fixes inv :: "'s \<Rightarrow> bool" and resolved :: "'s \<Rightarrow> bool" and outcome :: "'s \<Rightarrow> 'r"
    and call :: "'c \<Rightarrow> 's \<Rightarrow> 's option" and resolves :: "'c \<Rightarrow> bool" and meaning :: "'c \<Rightarrow> 'r"
  assumes call_None: "inv s \<Longrightarrow> call c s = None \<longleftrightarrow> resolves c \<and> resolved s"
    and call_Some: "inv s \<Longrightarrow> call c s = Some s' \<Longrightarrow>
      inv s' \<and> (resolved s' \<longleftrightarrow> resolved s \<or> resolves c) \<and>
      outcome s' = (if resolves c then meaning c else outcome s)"
begin

lemma stays_resolved:
  "inv s \<Longrightarrow> resolved s \<Longrightarrow>
   (case calls_run call cs s of
      None \<Rightarrow> \<exists>c\<in>set cs. resolves c
    | Some s' \<Rightarrow> (\<forall>c\<in>set cs. \<not> resolves c) \<and> inv s' \<and> resolved s' \<and> outcome s' = outcome s)"
proof (induction cs arbitrary: s)
  case Nil
  then show ?case by simp
next
  case (Cons c cs)
  show ?case
  proof (cases "call c s")
    case None
    with call_None [OF Cons.prems(1), of c] have "resolves c" by simp
    with None show ?thesis by simp
  next
    case (Some s1)
    with call_None [OF Cons.prems(1), of c] Cons.prems have n: "\<not> resolves c" by simp
    with call_Some [OF Cons.prems(1) Some] Cons.prems Cons.IH [of s1] Some show ?thesis
      by (auto split: option.splits)
  qed
qed

lemma first_resolve_wins:
  "inv s \<Longrightarrow> \<not> resolved s \<Longrightarrow>
   (case calls_run call cs s of
      None \<Rightarrow> length (filter resolves cs) > 1
    | Some s' \<Rightarrow> inv s' \<and> length (filter resolves cs) \<le> 1 \<and>
        (case filter resolves cs of
           [] \<Rightarrow> \<not> resolved s' \<and> outcome s' = outcome s
         | c # _ \<Rightarrow> resolved s' \<and> outcome s' = meaning c))"
proof (induction cs arbitrary: s)
  case Nil
  then show ?case by simp
next
  case (Cons c cs)
  obtain s1 where s1: "call c s = Some s1"
    using call_None [OF Cons.prems(1), of c] Cons.prems(2) by (cases "call c s") auto
  note a = call_Some [OF Cons.prems(1) s1]
  show ?case
  proof (cases "resolves c")
    case False
    with a Cons.IH [of s1] Cons.prems s1 show ?thesis by (auto split: option.splits list.splits)
  next
    case True
    with a stays_resolved [of s1 cs] s1 show ?thesis
      by (auto split: option.splits simp: filter_empty_conv dest: split_list)
  qed
qed

end

lemma latch_Done_simps:
  "latch_inv l chs \<Longrightarrow> latch_Done l chs = (d, l', chs') \<Longrightarrow>
     latch_inv l' chs' \<and> latch_resolved l' chs' = latch_resolved l chs \<and> l_done l' = Some d \<and>
     chan_closed chs' d = latch_resolved l chs"
  by (auto simp: latch_Done_def latch_inv_def latch_resolved_def chan_closed_def make_chan_def nth_append
      split: option.splits)

lemma latch_resolve_None: "latch_resolve l chs = None \<longleftrightarrow> latch_resolved l chs"
  by (auto simp: latch_resolve_def latch_resolved_def close_chan_def split: option.split)

lemma latch_resolve_Some:
  "latch_inv l chs \<Longrightarrow> latch_resolve l chs = Some (l', chs') \<Longrightarrow> latch_inv l' chs' \<and> latch_resolved l' chs'"
  by (auto simp: latch_resolve_def latch_resolved_def latch_inv_def close_chan_def chan_closed_def nth_list_update
      split: option.splits if_splits)

text \<open>The latch and the future meet the contract.\<close>

definition latch_call :: "bool \<Rightarrow> latch \<times> chans \<Rightarrow> (latch \<times> chans) option" where
  "latch_call r s = (if r then latch_resolve (fst s) (snd s) else Some (snd (latch_Done (fst s) (snd s))))"

interpretation lat: resolve_once "\<lambda>s. latch_inv (fst s) (snd s)" "\<lambda>s. latch_resolved (fst s) (snd s)"
  "\<lambda>_. ()" latch_call "\<lambda>r. r" "\<lambda>_. ()"
proof
  fix s :: "latch \<times> chans" and c
  show "latch_call c s = None \<longleftrightarrow> c \<and> latch_resolved (fst s) (snd s)"
    by (simp add: latch_call_def latch_resolve_None)
next
  fix s s' :: "latch \<times> chans" and c
  assume "latch_inv (fst s) (snd s)" and "latch_call c s = Some s'"
  then show "latch_inv (fst s') (snd s') \<and>
      latch_resolved (fst s') (snd s') = (latch_resolved (fst s) (snd s) \<or> c) \<and> () = (if c then () else ())"
    using latch_Done_simps [of "fst s" "snd s" "fst (latch_Done (fst s) (snd s))" "fst s'" "snd s'"]
      latch_resolve_Some [of "fst s" "snd s" "fst s'" "snd s'"]
    by (auto simp: latch_call_def split: if_splits)
qed

lemma future_call_None: "future_call c s = None \<longleftrightarrow> is_resolve c \<and> future_resolved s"
  by (cases c; cases s)
    (simp_all add: future_Resolve_def future_ResolveError_def latch_resolve_None future_resolved_def)

lemma future_call_Some:
  assumes "future_inv zv s" and "future_call c s = Some s'"
  shows "future_inv zv s' \<and> (future_resolved s' \<longleftrightarrow> future_resolved s \<or> is_resolve c) \<and>
    future_outcome s' = (if is_resolve c then resolution zv c else future_outcome s)"
proof -
  obtain f chs where s: "s = (f, chs)" by force
  show ?thesis
  proof (cases c)
    case OpDone
    obtain d l' chs' where d: "latch_Done (f_l f) chs = (d, l', chs')" by (metis prod.collapse)
    with assms s OpDone latch_Done_simps [OF _ d] show ?thesis
      by (auto simp: future_inv_def future_resolved_def future_outcome_def future_Done_def)
  next
    case (OpResolve v)
    with assms s latch_resolve_None [of "f_l f" chs] latch_resolve_Some [of "f_l f" chs] show ?thesis
      by (auto simp: future_inv_def future_resolved_def future_outcome_def future_Resolve_def)
  next
    case (OpResolveError e)
    with assms s latch_resolve_None [of "f_l f" chs] latch_resolve_Some [of "f_l f" chs] show ?thesis
      by (auto simp: future_inv_def future_resolved_def future_outcome_def future_ResolveError_def)
  qed
qed

interpretation fut: resolve_once "future_inv zv" future_resolved future_outcome future_call is_resolve "resolution zv"
  for zv
  by unfold_locales (rule future_call_None, rule future_call_Some)

section \<open>Laws of \<open>Value\<close> and \<open>Done\<close>\<close>

lemma NewFuture_inv:
  assumes "chan_closed chs closedchan"
  shows "future_inv zv (NewFuture zv, chs)" and "\<not> future_resolved (NewFuture zv, chs)"
  using assms by (simp_all add: future_inv_def NewFuture_def latch_inv_def zero_latch_def future_resolved_def
      latch_resolved_def future_outcome_def)

fun last_ctx :: "future_value_option list \<Rightarrow> ctx option \<Rightarrow> ctx option" where
  "last_ctx [] c = c"
| "last_ctx (WithFutureCtx c' # os) c = last_ctx os c'"
| "last_ctx (WithoutFutureWait # os) c = last_ctx os c"

lemma fold_value_options:
  "fold applyFutureValueOpt os opts =
     \<lparr>fvo_ctx = last_ctx os (fvo_ctx opts), fvo_nowait = (fvo_nowait opts \<or> WithoutFutureWait \<in> set os)\<rparr>"
proof (induction os arbitrary: opts)
  case Nil
  then show ?case by simp
next
  case (Cons x os)
  show ?case by (cases x) (simp_all add: Cons.IH)
qed

text \<open>\<open>Value\<close> changes nothing a later call could see, and reads the outcome.\<close>

lemma future_Value_eq:
  assumes "latch_inv (f_l f) chs"
  shows "fst (future_Value zv os b st f chs) =
    (let res = future_resolved (f, chs); done = (case last_ctx os None of None \<Rightarrow> False | Some c \<Rightarrow> ctx_Done st c) in
     if WithoutFutureWait \<in> set os
     then Some (if res then future_outcome (f, chs) else (zv, Some (Sentinel ErrNotResolved)))
     else if done \<and> (b \<or> \<not> res) then Some (zv, Option.bind (last_ctx os None) (ctx_Err st))
     else if res then Some (future_outcome (f, chs)) else None)"
proof -
  obtain d l' chs' where d: "latch_Done (f_l f) chs = (d, l', chs')" by (metis prod.collapse)
  from latch_Done_simps [OF assms d] d show ?thesis
    by (simp add: future_Value_def future_Done_def fold_value_options Let_def future_resolved_def future_outcome_def)
qed

lemma l_done_stable:
  assumes "future_call c s = Some s'" and "l_done (f_l (fst s)) = Some d"
  shows "l_done (f_l (fst s')) = Some d"
  using assms
  by (cases c; cases s)
    (auto simp: future_Resolve_def future_ResolveError_def future_Done_def latch_Done_def latch_resolve_def
      split: if_splits)

lemma l_done_stable_run:
  "calls_run future_call cs s = Some s' \<Longrightarrow> l_done (f_l (fst s)) = Some d \<Longrightarrow> l_done (f_l (fst s')) = Some d"
  by (induction cs arbitrary: s) (auto split: option.splits intro: l_done_stable)

lemma calls_run_append:
  "calls_run call (as @ bs) s = Option.bind (calls_run call as s) (calls_run call bs)"
  by (induction as arbitrary: s) (simp_all split: option.split)

section \<open>Properties\<close>

text \<open>
  C33: a future is assigned once: from a new future, a sequence of calls panics exactly when it resolves
  twice (so no sequence closes a channel twice), and otherwise \<open>Value\<close> gives \<open>ErrNotResolved\<close> until the
  call that resolves, and the value or the error of that call from then on.
\<close>

theorem future_assigned_once:
  assumes "chan_closed chs closedchan"
  shows "case calls_run future_call cs (NewFuture zv, chs) of
      None \<Rightarrow> length (filter is_resolve cs) > 1
    | Some (f, chs') \<Rightarrow> length (filter is_resolve cs) \<le> 1 \<and>
        fst (future_Value zv [WithoutFutureWait] b st f chs') =
          Some (case filter is_resolve cs of
                  [] \<Rightarrow> (zv, Some (Sentinel ErrNotResolved)) | c # _ \<Rightarrow> resolution zv c)"
proof -
  note a = fut.first_resolve_wins [OF NewFuture_inv [OF assms], where zv = zv and cs = cs]
  show ?thesis
  proof (cases "calls_run future_call cs (NewFuture zv, chs)")
    case None
    with a show ?thesis by simp
  next
    case (Some s')
    obtain f chs' where s': "s' = (f, chs')" by force
    from a Some have "future_inv zv (f, chs')" unfolding s' by simp
    then have "latch_inv (f_l f) chs'" by (simp add: future_inv_def)
    from future_Value_eq [OF this, of zv "[WithoutFutureWait]" b st] a Some show ?thesis
      unfolding s' by (auto split: list.splits)
  qed
qed

theorem future_assigned_once_witness:
  "calls_run future_call [OpDone, OpResolve (7::int), OpDone, OpResolveError None] (NewFuture 0, chans_init) = None \<and>
   fst (future_Value (0::int) [WithoutFutureWait] True []
     (fst (the (calls_run future_call [OpDone, OpResolve (7::int)] (NewFuture 0, chans_init))))
     (snd (the (calls_run future_call [OpDone, OpResolve (7::int)] (NewFuture 0, chans_init))))) = Some (7, None)"
proof -
  have c: "chan_closed chans_init closedchan" by (simp add: chan_closed_def chans_init_def closedchan_def)
  have "fst (future_Value (0::int) [WithoutFutureWait] True []
     (fst (the (calls_run future_call [OpDone, OpResolve (7::int)] (NewFuture 0, chans_init))))
     (snd (the (calls_run future_call [OpDone, OpResolve (7::int)] (NewFuture 0, chans_init))))) = Some (7, None)"
    using future_assigned_once [OF c, of "[OpDone, OpResolve (7::int)]" "0::int" True "[]"]
    by (auto split: option.splits)
  moreover have "calls_run future_call [OpDone, OpResolve (7::int), OpDone, OpResolveError None]
      (NewFuture 0, chans_init) = None"
    by code_simp
  ultimately show ?thesis by blast
qed

text \<open>
  the channel a waiter got from \<open>Done\<close>, at any time, is closed exactly when the future is resolved:
  a waiter that came before the resolution is woken by it, one that came after does not wait.
\<close>

theorem future_done_wakes:
  assumes "chan_closed chs closedchan"
    and "calls_run future_call cs (NewFuture zv, chs) = Some (f, chs1)"
    and "future_Done f chs1 = (d, s2)" and "calls_run future_call cs' s2 = Some (f3, chs3)"
  shows "chan_closed chs3 d \<longleftrightarrow> (\<exists>c\<in>set (cs @ cs'). is_resolve c)"
proof -
  have run: "calls_run future_call (cs @ OpDone # cs') (NewFuture zv, chs) = Some (f3, chs3)"
    using assms(2-4) by (simp add: calls_run_append)
  have "l_done (f_l (fst s2)) = Some d"
    using assms(3) by (auto simp: future_Done_def latch_Done_def Let_def split: prod.splits option.splits)
  from l_done_stable_run [OF assms(4) this] have "l_done (f_l f3) = Some d" by simp
  then have "chan_closed chs3 d \<longleftrightarrow> future_resolved (f3, chs3)"
    by (simp add: future_resolved_def latch_resolved_def)
  moreover have "future_resolved (f3, chs3) \<longleftrightarrow> filter is_resolve (cs @ OpDone # cs') \<noteq> []"
    using fut.first_resolve_wins [OF NewFuture_inv [OF assms(1)], where zv = zv and cs = "cs @ OpDone # cs'"] run
    by (auto split: list.splits)
  ultimately show ?thesis by (simp add: filter_empty_conv) blast
qed

theorem future_done_wakes_witness:
  "chan_closed (snd (the (calls_run future_call [OpResolveError None]
     (snd (future_Done (NewFuture (0::int)) chans_init))))) (fst (future_Done (NewFuture (0::int)) chans_init))"
proof -
  have c: "chan_closed chans_init closedchan" by (simp add: chan_closed_def chans_init_def closedchan_def)
  obtain f3 chs3 where r: "calls_run future_call [OpResolveError None]
     (snd (future_Done (NewFuture (0::int)) chans_init)) = Some (f3, chs3)"
    by (simp add: future_Done_def NewFuture_def latch_Done_def zero_latch_def chans_init_def make_chan_def
        future_ResolveError_def latch_resolve_def chan_closed_def close_chan_def)
  have "calls_run future_call [] (NewFuture (0::int), chans_init) = Some (NewFuture 0, chans_init)" by simp
  from future_done_wakes [OF c this prod.collapse [symmetric] r] r show ?thesis by simp
qed

text \<open>
  What \<open>Value\<close> does with its options: \<open>WithoutFutureWait\<close> never blocks and never looks at the
  context, whatever context is passed (the comment of \<open>WithFutureCtx\<close> says the opposite); without it,
  the call blocks exactly while the future is not resolved and the last context passed is not done,
  and it returns the outcome, or the zero value with the \<open>Err\<close> of that context.
\<close>

theorem future_value_options:
  fixes f :: "'v future" and zv :: 'v and os :: "future_value_option list" and st :: ctxs
  assumes "latch_inv (f_l f) chs"
  defines "v \<equiv> \<lambda>b. fst (future_Value zv os b st f chs)"
    and "ctx_is_done \<equiv> (case last_ctx os None of None \<Rightarrow> False | Some c \<Rightarrow> ctx_Done st c)"
  shows "if WithoutFutureWait \<in> set os
     then v b = Some (if future_resolved (f, chs) then future_outcome (f, chs)
                      else (zv, Some (Sentinel ErrNotResolved)))
     else {r. \<exists>b. v b = Some r} =
         (if future_resolved (f, chs) then {future_outcome (f, chs)} else {}) \<union>
         (if ctx_is_done then {(zv, Option.bind (last_ctx os None) (ctx_Err st))} else {}) \<and>
       (v b = None \<longleftrightarrow> \<not> future_resolved (f, chs) \<and> \<not> ctx_is_done)"
  unfolding v_def future_Value_eq [OF assms(1)] ctx_is_done_def [symmetric] Let_def ex_bool_eq
  by (cases "WithoutFutureWait \<in> set os"; cases "future_resolved (f, chs)"; cases ctx_is_done; cases b)
    (simp_all add: insert_commute, blast+)

theorem future_value_options_witness:
  "fst (future_Value (0::int) [WithFutureCtx (Some 0), WithoutFutureWait] True [] (NewFuture 0) chans_init) =
     Some (0, Some (Sentinel ErrNotResolved))"
proof -
  have c: "chan_closed chans_init closedchan" by (simp add: chan_closed_def chans_init_def closedchan_def)
  have i: "latch_inv (f_l (NewFuture (0::int))) chans_init"
    using NewFuture_inv(1) [OF c, of "0::int"] by (simp add: future_inv_def)
  show ?thesis
    using future_value_options [OF i, where os = "[WithFutureCtx (Some 0), WithoutFutureWait]" and zv = 0 and st = "[]" and b = True]
      NewFuture_inv(2) [OF c, of "0::int"] by simp
qed

end
