(* ===== verification/InstanceTask.thy ===== *)
theory InstanceTask
  imports Build
begin

text \<open>
  \<open>instancetask\<close>: a task whose setup step makes the data its other steps get. The mutable fields of
  \<open>Task\<close> (the data, and the parent and the state of the inner build, which \<open>runSetup\<close> replaces) are a
  cell beside the world of the user code: the world of the task is a pair. Callbacks and parents are
  user code on the second component. The data may implement \<open>Task\<close>: the type assertion is the field
  \<open>it_asTask\<close>, which gives the task a value is.
\<close>

section \<open>The cell\<close>

record 'd cell =
  c_data :: "'d option"
  c_parent :: "'d option"
  c_state :: taskBuildState

definition zero_cell :: "'d cell" where
  "zero_cell = \<lparr>c_data = None, c_parent = None, c_state = \<lparr>bs_steps = [], bs_initError = None\<rparr>\<rparr>"

text \<open>A task of the user, seen as a task on the pair.\<close>

definition lift_info :: "'u task_info \<Rightarrow> ('c \<times> 'u) task_info" where
  "lift_info ti = \<lparr>ti_Name = ti_Name ti, ti_Steps = ti_Steps ti, ti_Options = ti_Options ti,
     ti_InitError = ti_InitError ti,
     ti_Skipped = map_option (\<lambda>f c cause (x, u). (x, f c cause u)) (ti_Skipped ti)\<rparr>"

definition lift_task :: "'u task \<Rightarrow> ('c \<times> 'u) task" where
  "lift_task t = \<lparr>
     task_Run = (\<lambda>c st (x, u). let (e, u') = task_Run t c st u in (e, (x, u'))),
     task_TaskInfo = map_option (\<lambda>ti (x, u). lift_info (ti u)) (task_TaskInfo t),
     task_Stringer = map_option (\<lambda>str (x, u). str u) (task_Stringer t),
     task_type = task_type t\<rparr>"

lemma lift_task_simps [simp]:
  "GetTaskInfo (lift_task t) (x, u) = lift_info (GetTaskInfo t u)"
  "taskSteps (lift_task t) (x, u) = taskSteps t u"
  "taskHasStep (lift_task t) st (x, u) = taskHasStep t st u"
  "ti_InitError (lift_info ti) = ti_InitError ti"
  by (auto simp: lift_task_def GetTaskInfo_def lift_info_def taskSteps_def taskHasStep_def zero_task_info_def
      split: option.split)

section \<open>Options\<close>

text \<open>A callback that gets the data; nil is \<open>None\<close>.\<close>

type_synonym ('d, 'u) inst_func = "(ctx \<Rightarrow> 'd \<Rightarrow> 'u \<Rightarrow> go_error option \<times> 'u) option"
type_synonym ('d, 'u) setup_func = "ctx \<Rightarrow> 'u \<Rightarrow> ('d \<times> go_error option) \<times> 'u"

record ('d, 'u) buildOptions =
  bo_stepFunc :: "(step \<times> ('d, 'u) inst_func) list"
  bo_parentFromSetup :: bool
  bo_tbOptions :: "('d cell \<times> 'u) build_option list"

type_synonym ('d, 'u) inst_option = "('d, 'u) buildOptions \<Rightarrow> ('d, 'u) buildOptions"

definition withBuildOption :: "('d cell \<times> 'u) build_option \<Rightarrow> ('d, 'u) inst_option" where
  "withBuildOption option o1 = o1\<lparr>bo_tbOptions := bo_tbOptions o1 @ [option]\<rparr>"

definition inst_withStep :: "step \<Rightarrow> ('d, 'u) inst_func \<Rightarrow> ('d, 'u) inst_option" where
  "inst_withStep step f o1 = o1\<lparr>bo_stepFunc := AList.update step f (bo_stepFunc o1)\<rparr>"

definition inst_WithName :: "string \<Rightarrow> ('d, 'u) inst_option" where
  "inst_WithName name = withBuildOption (WithName name)"

definition inst_WithStart :: "('d, 'u) inst_func \<Rightarrow> ('d, 'u) inst_option" where
  "inst_WithStart f = inst_withStep StepStart f"

definition inst_WithStop :: "('d, 'u) inst_func \<Rightarrow> ('d, 'u) inst_option" where
  "inst_WithStop f = inst_withStep StepStop f"

definition inst_WithTeardown :: "('d, 'u) inst_func \<Rightarrow> ('d, 'u) inst_option" where
  "inst_WithTeardown f = inst_withStep StepTeardown f"

definition inst_WithParent :: "'u task option \<Rightarrow> ('d, 'u) inst_option" where
  "inst_WithParent parent = withBuildOption (WithParent (map_option lift_task parent))"

definition WithParentFromSetup :: "bool \<Rightarrow> ('d, 'u) inst_option" where
  "WithParentFromSetup b o1 = o1\<lparr>bo_parentFromSetup := b\<rparr>"

definition inst_WithTaskOptions :: "instance_option list \<Rightarrow> ('d, 'u) inst_option" where
  "inst_WithTaskOptions options = withBuildOption (WithTaskOptions options)"

definition inst_WithSkipped :: "'u skipped_func option \<Rightarrow> ('d, 'u) inst_option" where
  "inst_WithSkipped f = withBuildOption (WithSkipped (map_option (\<lambda>g c cause (x, u). (x, g c cause u)) f))"

section \<open>The task\<close>

text \<open>
  What does not change after \<open>Build\<close>: the setup function, the options applied, the type assertion and
  the order in which the map of callbacks is iterated.
\<close>

record ('d, 'u) instanceTask =
  it_setupFunc :: "('d, 'u) setup_func option"
  it_options :: "('d, 'u) buildOptions"
  it_asTask :: "'d \<Rightarrow> 'u task option"
  it_keys :: "step list"

definition inst_options :: "('d, 'u) inst_option list \<Rightarrow> ('d, 'u) buildOptions" where
  "inst_options options = fold (\<lambda>opt. opt) options
     \<lparr>bo_stepFunc = [], bo_parentFromSetup = False, bo_tbOptions = []\<rparr>"

definition TaskData :: "'d cell \<Rightarrow> 'd + go_error" where
  "TaskData cl = (case c_data cl of
     None \<Rightarrow> Inr (Errorf ''%w: data not initialized'' [defs_err ErrNotInitialized]) | Some d \<Rightarrow> Inl d)"

text \<open>The callback that \<open>Build\<close> wraps around a step function.\<close>

definition step_callback :: "('d, 'u) inst_func \<Rightarrow> ('d cell \<times> 'u) build_func" where
  "step_callback stepFn = (case stepFn of
     None \<Rightarrow> None
   | Some f \<Rightarrow> Some (\<lambda>c (cl, u).
       case TaskData cl of
         Inr err \<Rightarrow> (Some err, (cl, u))
       | Inl data \<Rightarrow> (let (err, u') = f c data u in (err, (cl, u')))))"

text \<open>The options that \<open>Build\<close> passes to \<open>BuildTask\<close>, over the setup callback.\<close>

definition instance_build :: "('d, 'u) instanceTask \<Rightarrow> ('d cell \<times> 'u) build_func \<Rightarrow> ('d cell \<times> 'u) taskBuild" where
  "instance_build it setup =
     fold (\<lambda>opt. opt)
       (bo_tbOptions (it_options it) @ [WithSetup setup] @
        map (\<lambda>(step, stepFn). WithStep step (step_callback stepFn)) (bo_stepFunc (it_options it)))
       empty_build"

text \<open>
  \<open>t.build.SetParent\<close> from \<open>runSetup\<close>. It computes the state of the build, for which only the
  presence of the setup callback matters, not what it does (see \<open>build_state_shape\<close>), so the callback
  itself is not needed here.
\<close>

definition present :: "('c \<times> 'u) build_func" where
  "present = Some (\<lambda>_ w. (None, w))"

definition set_parent :: "('d, 'u) instanceTask \<Rightarrow> 'd \<Rightarrow> 'u task \<Rightarrow> 'd cell \<times> 'u \<Rightarrow>
    go_error option \<times> ('d cell \<times> 'u)" where
  "set_parent it d tt = (\<lambda>(cl, u).
     let cl' = cl\<lparr>c_parent := Some d\<rparr>;
         (t, err) = SetParent (it_keys it) (cl', u) (Some (lift_task tt)) (instance_build it present)
     in (err, (cl'\<lparr>c_state := tb_state t\<rparr>, u)))"

definition runSetup :: "('d, 'u) instanceTask \<Rightarrow> ('d, 'u) setup_func \<Rightarrow> ctx \<Rightarrow> 'd cell \<times> 'u \<Rightarrow>
    go_error option \<times> ('d cell \<times> 'u)" where
  "runSetup it setupFunc c = (\<lambda>(cl, u).
     if c_data cl \<noteq> None then (Some (defs_err ErrAlreadyInitialized), (cl, u))
     else (case setupFunc c u of
             ((data, Some err), u') \<Rightarrow> (Some err, (cl, u'))
           | ((data, None), u') \<Rightarrow>
               (let cl' = cl\<lparr>c_data := Some data\<rparr> in
                if bo_parentFromSetup (it_options it)
                then (case it_asTask it data of
                        None \<Rightarrow> (Some (Errorf
                            ''%w: data returned from setup doesn't implement Task to be set as parent''
                            [defs_err ErrInitialization]), (cl', u'))
                      | Some tt \<Rightarrow> set_parent it data tt (cl', u'))
                else (None, (cl', u')))))"

definition setup_callback :: "('d, 'u) instanceTask \<Rightarrow> ('d cell \<times> 'u) build_func" where
  "setup_callback it = (case it_setupFunc it of None \<Rightarrow> None | Some f \<Rightarrow> Some (runSetup it f))"

text \<open>The build at a moment: its parent and its state are read from the cell.\<close>

definition current_build :: "('d, 'u) instanceTask \<Rightarrow> 'd cell \<Rightarrow> ('d cell \<times> 'u) taskBuild" where
  "current_build it cl =
     (let t = instance_build it (setup_callback it)
      in t\<lparr>tb_parent := (case c_parent cl of
                           None \<Rightarrow> tb_parent t | Some d \<Rightarrow> map_option lift_task (it_asTask it d)),
           tb_state := c_state cl\<rparr>)"

text \<open>\<open>Build\<close>: the task and its cell. The world is needed to read the info of a parent.\<close>

definition inst_Build :: "step list \<Rightarrow> ('d \<Rightarrow> 'u task option) \<Rightarrow> ('d, 'u) setup_func option \<Rightarrow>
    ('d, 'u) inst_option list \<Rightarrow> 'u \<Rightarrow> ('d, 'u) instanceTask \<times> 'd cell" where
  "inst_Build ks asTask setupFunc options u =
     (let it = \<lparr>it_setupFunc = setupFunc, it_options = inst_options options, it_asTask = asTask, it_keys = ks\<rparr>
      in (it, zero_cell\<lparr>c_state := build_state ks (zero_cell, u) (instance_build it (setup_callback it))\<rparr>))"

definition inst_Run :: "('d, 'u) instanceTask \<Rightarrow> ctx \<Rightarrow> step \<Rightarrow> 'd cell \<times> 'u \<Rightarrow>
    (go_error option \<times> ('d cell \<times> 'u)) option" where
  "inst_Run it c st w = taskBuild_Run (current_build it (fst w)) c st w"

text \<open>
  The methods promoted from the embedded build. A panic is not a return; as in \<open>build_task\<close> it does
  not occur for a build without initialization error.
\<close>

definition instance_task :: "('d, 'u) instanceTask \<Rightarrow> ('d cell \<times> 'u) task" where
  "instance_task it = \<lparr>
     task_Run = (\<lambda>c st w. case inst_Run it c st w of Some r \<Rightarrow> r | None \<Rightarrow> (None, w)),
     task_TaskInfo = Some (\<lambda>w. taskBuild_TaskInfo (current_build it (fst w)) w),
     task_Stringer = Some (\<lambda>w. taskBuild_String (current_build it (fst w)) w),
     task_type = ''*instancetask.Task''\<rparr>"

text \<open>\<open>provider.go\<close>: the data of a provider is a task, which may be nil.\<close>

definition Provider :: "step list \<Rightarrow> ('u task option, 'u) setup_func option \<Rightarrow>
    ('u task option, 'u) inst_option list \<Rightarrow> 'u \<Rightarrow> ('u task option, 'u) instanceTask \<times> 'u task option cell" where
  "Provider ks provider options = inst_Build ks (\<lambda>d. d) provider (options @ [WithParentFromSetup True])"


section \<open>The exported options\<close>

text \<open>The only options a client can make; they leave the callbacks of the inner build alone.\<close>

inductive inst_exported :: "('d, 'u) inst_option \<Rightarrow> bool" where
  "inst_exported (inst_WithName n)"
| "inst_exported (inst_WithStart f)"
| "inst_exported (inst_WithStop f)"
| "inst_exported (inst_WithTeardown f)"
| "inst_exported (inst_WithParent p)"
| "inst_exported (WithParentFromSetup b)"
| "inst_exported (inst_WithTaskOptions os)"
| "inst_exported (inst_WithSkipped g)"

lemmas inst_option_defs = inst_WithName_def inst_WithStart_def inst_WithStop_def inst_WithTeardown_def
  inst_WithParent_def WithParentFromSetup_def inst_WithTaskOptions_def inst_WithSkipped_def
  withBuildOption_def inst_withStep_def

definition keeps_steps :: "'w build_option \<Rightarrow> bool" where
  "keeps_steps opt \<longleftrightarrow> (\<forall>t. tb_stepFunc (opt t) = tb_stepFunc t)"

definition options_ok :: "('d, 'u) buildOptions \<Rightarrow> bool" where
  "options_ok o1 \<longleftrightarrow> (\<forall>opt\<in>set (bo_tbOptions o1). keeps_steps opt) \<and> distinct (map fst (bo_stepFunc o1)) \<and>
     StepSetup \<notin> fst ` set (bo_stepFunc o1)"

lemma keeps_steps_intros [intro]:
  "keeps_steps (WithName n)" "keeps_steps (WithParent p)" "keeps_steps (WithTaskOptions os)"
  "keeps_steps (WithSkipped g)"
  by (simp_all add: keeps_steps_def WithName_def WithParent_def WithTaskOptions_def WithSkipped_def
      split: option.split)

lemma exported_ok: "inst_exported opt \<Longrightarrow> options_ok o1 \<Longrightarrow> options_ok (opt o1)"
  by (induction rule: inst_exported.induct)
    (auto simp: inst_option_defs options_ok_def distinct_update dom_update)

lemma inst_options_ok: "\<forall>opt\<in>set options. inst_exported opt \<Longrightarrow> options_ok (inst_options options)"
proof -
  have "options_ok o1 \<Longrightarrow> options_ok (fold (\<lambda>opt. opt) options o1)"
    if "\<forall>opt\<in>set options. inst_exported opt" for o1
    using that by (induction options arbitrary: o1) (simp_all add: exported_ok)
  moreover have "options_ok \<lparr>bo_stepFunc = [], bo_parentFromSetup = False, bo_tbOptions = []\<rparr>"
    by (simp add: options_ok_def)
  ultimately show "\<forall>opt\<in>set options. inst_exported opt \<Longrightarrow> ?thesis" by (simp add: inst_options_def)
qed

section \<open>The inner build\<close>

lemma keeps_steps_fold:
  "\<forall>opt\<in>set os. keeps_steps opt \<Longrightarrow> tb_stepFunc (fold (\<lambda>opt. opt) os t) = tb_stepFunc t"
  by (induction os arbitrary: t) (simp_all add: keeps_steps_def)

lemma fold_step_options:
  "tb_stepFunc (fold (\<lambda>(step, f). WithStep step (h f)) l t) =
     fold (\<lambda>(step, f). AList.update step (h f)) l (tb_stepFunc t)"
  "tb_parent (fold (\<lambda>(step, f). WithStep step (h f)) l t) = tb_parent t"
  by (induction l arbitrary: t) (auto simp: WithStep_def)

lemma map_of_fold_update:
  "distinct (map fst l) \<Longrightarrow>
   map_of (fold (\<lambda>(step, f). AList.update step (h f)) l al) =
     (\<lambda>st. case map_of l st of None \<Rightarrow> map_of al st | Some f \<Rightarrow> Some (h f))"
proof (induction l arbitrary: al)
  case Nil
  then show ?case by simp
next
  case (Cons x l)
  obtain a b where x: "x = (a, b)" by force
  with Cons.prems have "map_of l a = None" by (simp add: map_of_eq_None_iff)
  with Cons.prems show ?case
    by (intro ext) (simp add: x Cons.IH update_conv' split: option.split)
qed

lemma fold_as_map: "fold (\<lambda>opt. opt) (map (\<lambda>(a, b). g a b) l) t = fold (\<lambda>(a, b). g a b) l t"
  by (induction l arbitrary: t) auto

lemma instance_build_steps:
  assumes "options_ok (it_options it)"
  shows "map_of (tb_stepFunc (instance_build it setup)) =
    (\<lambda>st. if st = StepSetup then Some setup
          else map_option step_callback (map_of (bo_stepFunc (it_options it)) st))"
proof -
  have k: "\<forall>opt\<in>set (bo_tbOptions (it_options it)). keeps_steps opt"
    and d: "distinct (map fst (bo_stepFunc (it_options it)))"
    and n: "map_of (bo_stepFunc (it_options it)) StepSetup = None"
    using assms by (simp_all add: options_ok_def map_of_eq_None_iff)
  show ?thesis
  proof
    fix st
    have "tb_stepFunc (fold (\<lambda>opt. opt) (bo_tbOptions (it_options it)) empty_build) = []"
      using keeps_steps_fold [OF k, of empty_build] by (simp add: empty_build_def)
    then have "map_of (tb_stepFunc (instance_build it setup)) st =
        (case map_of (bo_stepFunc (it_options it)) st of
           None \<Rightarrow> (if st = StepSetup then Some setup else None) | Some f \<Rightarrow> Some (step_callback f))"
      by (simp add: instance_build_def fold_as_map fold_step_options map_of_fold_update [OF d] WithSetup_def
          WithStep_def split: option.split)
    with n show "map_of (tb_stepFunc (instance_build it setup)) st =
        (if st = StepSetup then Some setup
         else map_option step_callback (map_of (bo_stepFunc (it_options it)) st))"
      by (simp split: option.split)
  qed
qed

lemma instance_build_parent:
  "tb_parent (instance_build it s) = tb_parent (instance_build it s')"
  by (simp add: instance_build_def fold_as_map fold_step_options WithSetup_def WithStep_def)

section \<open>What \<open>SetParent\<close> reads of a build\<close>

definition shape :: "'w taskBuild \<Rightarrow> (step \<times> bool) list" where
  "shape t = map (\<lambda>(st, f). (st, f = None)) (tb_stepFunc t)"

lemma hasMissingStep_shape: "hasMissingStep t = (if shape t = [] then tb_parent t = None else list_ex snd (shape t))"
proof -
  have "list_ex (\<lambda>(st, f). f = None) l = list_ex snd (map (\<lambda>(st, f). (st, f = None)) l)" for l :: "(step \<times> 'x option) list"
    by (induction l) auto
  from this [of "tb_stepFunc t"] show ?thesis by (simp add: hasMissingStep_def shape_def loadParent_def)
qed

lemma build_state_shape:
  assumes "shape t = shape t'" and "tb_parent t = tb_parent t'"
  shows "build_state ks w t = build_state ks w t'"
  using assms by (simp add: build_state_def hasMissingStep_shape loadParent_def)

lemma shape_WithStep: "shape (WithStep st f t) = AList.update st (f = None) (shape t)"
proof -
  have "map (\<lambda>(st, f). (st, f = None)) (AList.update st f l) =
      AList.update st (f = None) (map (\<lambda>(st, f). (st, f = None)) l)" for l and f :: "'x option"
    by (induction l) auto
  then show ?thesis by (simp add: shape_def WithStep_def)
qed

lemma shape_fold:
  "shape t = shape t' \<Longrightarrow>
   shape (fold (\<lambda>(step, f). WithStep step (h f)) l t) = shape (fold (\<lambda>(step, f). WithStep step (h f)) l t')"
proof (induction l arbitrary: t t')
  case Nil
  then show ?case by simp
next
  case (Cons x l)
  obtain a b where x: "x = (a, b)" by force
  have "shape (WithStep a (h b) t) = shape (WithStep a (h b) t')" by (simp add: shape_WithStep Cons.prems)
  from Cons.IH [OF this] show ?case by (simp add: x)
qed

text \<open>
  The callback that \<open>set_parent\<close> leaves out makes no difference: it gives the state and the error of
  \<open>SetParent\<close> on the build with the setup callback of the task.
\<close>

lemma set_parent_build:
  assumes "it_setupFunc it = Some f"
  shows "set_parent it d tt (cl, u) =
    (let cl' = cl\<lparr>c_parent := Some d\<rparr>;
         (t, err) = SetParent (it_keys it) (cl', u) (Some (lift_task tt)) (instance_build it (setup_callback it))
     in (err, (cl'\<lparr>c_state := tb_state t\<rparr>, u)))"
proof -
  have "shape (instance_build it present) = shape (instance_build it (setup_callback it))"
    using assms by (auto simp: instance_build_def fold_as_map WithSetup_def shape_WithStep present_def
        setup_callback_def intro: shape_fold)
  then have "build_state ks w (instance_build it present\<lparr>tb_parent := p\<rparr>) =
      build_state ks w (instance_build it (setup_callback it)\<lparr>tb_parent := p\<rparr>)" for ks w p
    by (intro build_state_shape) (simp_all add: shape_def)
  then show ?thesis by (simp add: set_parent_def SetParent_def build_init_def Let_def)
qed

section \<open>One call\<close>

definition no_data :: go_error where
  "no_data = Errorf ''%w: data not initialized'' [defs_err ErrNotInitialized]"

text \<open>A task without a parent, neither static nor from the setup.\<close>

definition standalone :: "('d, 'u) instanceTask \<Rightarrow> bool" where
  "standalone it \<longleftrightarrow>
     \<not> bo_parentFromSetup (it_options it) \<and> tb_parent (instance_build it present) = None"

lemma inst_Run_standalone:
  assumes ok: "options_ok (it_options it)" and "standalone it" and "c_parent cl = None"
  shows "inst_Run it c st (cl, u) =
    (if st = StepSetup
     then (case it_setupFunc it of
             None \<Rightarrow> None
           | Some f \<Rightarrow> Some (if c_data cl \<noteq> None then (Some (defs_err ErrAlreadyInitialized), (cl, u))
               else (snd (fst (f c u)),
                     (if snd (fst (f c u)) = None then cl\<lparr>c_data := Some (fst (fst (f c u)))\<rparr> else cl,
                      snd (f c u)))))
     else (case map_of (bo_stepFunc (it_options it)) st of
             None \<Rightarrow> Some (Some (newInvalidTaskStep st), (cl, u))
           | Some None \<Rightarrow> None
           | Some (Some g) \<Rightarrow> Some (case c_data cl of
               None \<Rightarrow> (Some no_data, (cl, u)) | Some d \<Rightarrow> (fst (g c d u), (cl, snd (g c d u))))))"
proof -
  let ?t = "current_build it cl"
  have np: "\<not> bo_parentFromSetup (it_options it)"
    and par: "tb_parent (instance_build it (setup_callback it)) = None"
    using assms(2) instance_build_parent [of it present "setup_callback it"] by (simp_all add: standalone_def)
  have "tb_parent ?t = None" using par assms(3) by (simp add: current_build_def Let_def)
  moreover have "map_of (tb_stepFunc ?t) st = (if st = StepSetup then Some (setup_callback it)
      else map_option step_callback (map_of (bo_stepFunc (it_options it)) st))"
    by (simp add: current_build_def Let_def instance_build_steps [OF ok])
  ultimately show ?thesis
    using np
    by (auto simp: inst_Run_def taskBuild_Run_def loadParent_def setup_callback_def runSetup_def step_callback_def
        TaskData_def no_data_def split: option.split prod.split)
qed

section \<open>Sequences of calls\<close>

text \<open>
  The calls of \<open>Run\<close> on a task, with the world of the user code at each (it may change between calls),
  and a log of them.
\<close>

record ('d, 'u) call_log =
  ce_ctx :: ctx
  ce_step :: step
  ce_data :: "'d option"
  ce_before :: 'u
  ce_err :: "go_error option"
  ce_after :: 'u

fun inst_calls :: "('d, 'u) instanceTask \<Rightarrow> (ctx \<times> step \<times> 'u) list \<Rightarrow> 'd cell \<Rightarrow>
    ('d cell \<times> ('d, 'u) call_log list) option" where
  "inst_calls it [] cl = Some (cl, [])"
| "inst_calls it ((c, st, u) # cs) cl =
     (case inst_Run it c st (cl, u) of
        None \<Rightarrow> None
      | Some (err, (cl1, u1)) \<Rightarrow>
          (case inst_calls it cs cl1 of
             None \<Rightarrow> None
           | Some (cl', l) \<Rightarrow> Some (cl',
               \<lparr>ce_ctx = c, ce_step = st, ce_data = c_data cl, ce_before = u, ce_err = err, ce_after = u1\<rparr> # l)))"

text \<open>What one call did, given the data there was.\<close>

definition inst_call_ok :: "('d, 'u) instanceTask \<Rightarrow> ('d, 'u) setup_func \<Rightarrow> ('d, 'u) call_log \<Rightarrow> bool" where
  "inst_call_ok it f e \<longleftrightarrow>
     (if ce_step e = StepSetup
      then (if ce_data e = None
            then (ce_err e, ce_after e) = (snd (fst (f (ce_ctx e) (ce_before e))), snd (f (ce_ctx e) (ce_before e)))
            else (ce_err e, ce_after e) = (Some (defs_err ErrAlreadyInitialized), ce_before e))
      else (case (map_of (bo_stepFunc (it_options it)) (ce_step e), ce_data e) of
              (Some (Some g), Some d) \<Rightarrow> (ce_err e, ce_after e) = g (ce_ctx e) d (ce_before e)
            | (Some (Some g), None) \<Rightarrow> (ce_err e, ce_after e) = (Some no_data, ce_before e)
            | _ \<Rightarrow> (ce_err e, ce_after e) = (Some (newInvalidTaskStep (ce_step e)), ce_before e)))"

definition sets_up :: "('d, 'u) call_log \<Rightarrow> bool" where
  "sets_up e \<longleftrightarrow> ce_step e = StepSetup \<and> ce_err e = None"

lemma inst_calls_log:
  assumes "options_ok (it_options it)" and "standalone it" and "it_setupFunc it = Some f"
  shows "c_parent cl0 = None \<Longrightarrow> inst_calls it cs cl0 = Some (cl, l) \<Longrightarrow>
    (\<forall>e\<in>set l. inst_call_ok it f e) \<and>
    (case c_data cl0 of
       Some d \<Rightarrow> c_data cl = Some d \<and> (\<forall>e\<in>set l. ce_data e = Some d \<and> \<not> sets_up e)
     | None \<Rightarrow>
         (case c_data cl of
            None \<Rightarrow> \<forall>e\<in>set l. ce_data e = None \<and> \<not> sets_up e
          | Some d \<Rightarrow> \<exists>l1 e l2. l = l1 @ e # l2 \<and> sets_up e \<and> ce_data e = None \<and>
              d = fst (fst (f (ce_ctx e) (ce_before e))) \<and>
              (\<forall>e\<in>set l1. ce_data e = None \<and> \<not> sets_up e) \<and>
              (\<forall>e\<in>set l2. ce_data e = Some d \<and> \<not> sets_up e)))"
proof (induction cs arbitrary: cl0 l)
  case Nil
  then show ?case by (simp split: option.split)
next
  case (Cons x cs)
  obtain c st u where x: "x = (c, st, u)" by (cases x) auto
  from Cons.prems(2) obtain err cl1 u1 l' where r: "inst_Run it c st (cl0, u) = Some (err, (cl1, u1))"
    and cs: "inst_calls it cs cl1 = Some (cl, l')"
    and l: "l = \<lparr>ce_ctx = c, ce_step = st, ce_data = c_data cl0, ce_before = u, ce_err = err, ce_after = u1\<rparr> # l'"
    unfolding x by (auto split: option.splits)
  define e where "e = \<lparr>ce_ctx = c, ce_step = st, ce_data = c_data cl0, ce_before = u, ce_err = err, ce_after = u1\<rparr>"
  have e: "ce_data e = c_data cl0" "ce_ctx e = c" "ce_before e = u" and l: "l = e # l'"
    by (simp_all add: e_def l)
  note run = r [unfolded inst_Run_standalone [OF assms(1,2) Cons.prems(1)]]
  have p: "c_parent cl1 = None" using run Cons.prems(1) assms(3) by (auto split: if_splits option.splits)
  have ok: "inst_call_ok it f e"
    using run assms(3) by (auto simp: inst_call_ok_def e_def split: if_splits option.splits)
  note ih = Cons.IH [OF p cs]
  have "(c_data cl0 = None \<and> sets_up e \<and> c_data cl1 = Some (fst (fst (f c u)))) \<or>
      (\<not> sets_up e \<and> c_data cl1 = c_data cl0)"
    using run assms(3)
    by (auto simp: sets_up_def e_def no_data_def newInvalidTaskStep_def split: if_splits option.splits)
  then show ?case
  proof
    assume a: "c_data cl0 = None \<and> sets_up e \<and> c_data cl1 = Some (fst (fst (f c u)))"
    with ih ok have "l = [] @ e # l' \<and> sets_up e \<and> ce_data e = None \<and>
        c_data cl = Some (fst (fst (f (ce_ctx e) (ce_before e)))) \<and>
        (\<forall>e\<in>set l'. ce_data e = c_data cl \<and> \<not> sets_up e)"
      by (simp add: l e)
    with a ih ok show ?thesis by (fastforce simp: l)
  next
    assume a: "\<not> sets_up e \<and> c_data cl1 = c_data cl0"
    show ?thesis
    proof (cases "c_data cl0 = None \<and> c_data cl \<noteq> None")
      case False
      with a ih ok show ?thesis by (auto simp: l e split: option.splits)
    next
      case True
      then obtain d where d: "c_data cl = Some d" by blast
      with True a ih obtain l1 e' l2 where s: "l' = l1 @ e' # l2" "sets_up e'" "ce_data e' = None"
        "d = fst (fst (f (ce_ctx e') (ce_before e')))" "\<forall>e\<in>set l1. ce_data e = None \<and> \<not> sets_up e"
        "\<forall>e\<in>set l2. ce_data e = Some d \<and> \<not> sets_up e"
        by auto
      have "l = (e # l1) @ e' # l2" "\<forall>e\<in>set (e # l1). ce_data e = None \<and> \<not> sets_up e"
        using s a True e l by simp_all
      with s have "\<exists>l1 e l2. l = l1 @ e # l2 \<and> sets_up e \<and> ce_data e = None \<and>
          d = fst (fst (f (ce_ctx e) (ce_before e))) \<and> (\<forall>e\<in>set l1. ce_data e = None \<and> \<not> sets_up e) \<and>
          (\<forall>e\<in>set l2. ce_data e = Some d \<and> \<not> sets_up e)"
        by blast
      with True d ih ok l show ?thesis by simp
    qed
  qed
qed

section \<open>Parents from the setup\<close>

abbreviation own_steps :: "('d, 'u) inst_option list \<Rightarrow> step set" where
  "own_steps options \<equiv> insert StepSetup (fst ` set (bo_stepFunc (inst_options options)))"

lemma inst_Build_simps:
  assumes "inst_Build ks asTask sf options u0 = (it, cl0)"
  shows "it_setupFunc it = sf" "it_options it = inst_options options" "it_asTask it = asTask" "it_keys it = ks"
    "c_data cl0 = None" "c_parent cl0 = None"
    "c_state cl0 = build_state ks (zero_cell, u0) (instance_build it (setup_callback it))"
  using assms by (auto simp: inst_Build_def Let_def zero_cell_def)

lemma instance_build_keys:
  assumes "options_ok (it_options it)"
  shows "fst ` set (tb_stepFunc (instance_build it s)) = insert StepSetup (fst ` set (bo_stepFunc (it_options it)))"
proof -
  have "dom (map_of (tb_stepFunc (instance_build it s))) = insert StepSetup (dom (map_of (bo_stepFunc (it_options it))))"
    by (auto simp: instance_build_steps [OF assms] dom_def)
  then show ?thesis by (simp add: dom_map_of_conv_image_fst)
qed

lemma current_build_steps:
  "tb_stepFunc (current_build it cl) = tb_stepFunc (instance_build it (setup_callback it))"
  "tb_state (current_build it cl) = c_state cl"
  "c_parent cl = Some d \<Longrightarrow> tb_parent (current_build it cl) = map_option lift_task (it_asTask it d)"
  by (simp_all add: current_build_def Let_def)

lemma instance_task_simps [simp]:
  "taskSteps (instance_task it) (cl, u) = bs_steps (c_state cl)"
  "taskHasStep (instance_task it) st (cl, u) \<longleftrightarrow> st \<in> set (bs_steps (c_state cl))"
  "GetTaskInfo (instance_task it) (cl, u) = taskBuild_TaskInfo (current_build it cl) (cl, u)"
  by (simp_all add: instance_task_def GetTaskInfo_def taskSteps_def taskHasStep_def taskBuild_TaskInfo_def Let_def
      current_build_steps)

text \<open>What \<open>set_parent\<close> leaves in the cell.\<close>

lemma set_parent_spec:
  assumes "options_ok (it_options it)" and "it_setupFunc it = Some f" and "it_asTask it d = Some p"
    and "key_order (it_keys it) (instance_build it present)" and "set_parent it d p (cl, u) = (err, (cl', u'))"
  shows "u' = u \<and> c_data cl' = c_data cl \<and> c_parent cl' = Some d \<and>
    (err = None \<longleftrightarrow> (\<forall>(st, g)\<in>set (tb_stepFunc (instance_build it present)). g \<noteq> None) \<and>
       distinct (taskSteps p u) \<and>
       set (taskSteps p u) \<inter> insert StepSetup (fst ` set (bo_stepFunc (it_options it))) = {} \<and>
       ti_InitError (GetTaskInfo p u) = None) \<and>
    set (bs_steps (c_state cl')) = insert StepSetup (fst ` set (bo_stepFunc (it_options it))) \<union> set (taskSteps p u)"
proof -
  let ?t = "(instance_build it present)\<lparr>tb_parent := Some (lift_task p)\<rparr>"
  have key: "key_order (it_keys it) ?t" using assms(4) by (simp add: key_order_def)
  have e: "err = bs_initError (build_state (it_keys it) (cl\<lparr>c_parent := Some d\<rparr>, u) ?t)"
    and c: "cl' = cl\<lparr>c_parent := Some d, c_state := build_state (it_keys it) (cl\<lparr>c_parent := Some d\<rparr>, u) ?t\<rparr>"
    and u: "u' = u"
    using assms(5) by (auto simp: set_parent_def SetParent_def Let_def build_init_def)
  have "tb_stepFunc (instance_build it present) \<noteq> []"
    using instance_build_keys [OF assms(1), of present] by auto
  with build_state_ok [OF key] have "err = None \<longleftrightarrow> (\<forall>(st, g)\<in>set (tb_stepFunc (instance_build it present)). g \<noteq> None) \<and>
       distinct (taskSteps p u) \<and>
       set (taskSteps p u) \<inter> insert StepSetup (fst ` set (bo_stepFunc (it_options it))) = {} \<and>
       ti_InitError (GetTaskInfo p u) = None"
    by (simp add: e build_ok_def instance_build_keys [OF assms(1)])
  moreover have "set (bs_steps (c_state cl')) =
      insert StepSetup (fst ` set (bo_stepFunc (it_options it))) \<union> set (taskSteps p u)"
    using build_state_steps [OF key, of "(cl\<lparr>c_parent := Some d\<rparr>, u)"]
    by (simp add: c instance_build_keys [OF assms(1)])
  ultimately show ?thesis using u c by simp
qed

lemma inst_Run_setup:
  assumes "options_ok (it_options it)" and "it_setupFunc it = Some f" and "c_parent cl = None"
    and "tb_parent (instance_build it present) = None"
  shows "inst_Run it c StepSetup (cl, u) = Some (runSetup it f c (cl, u))"
proof -
  have "tb_parent (current_build it cl) = None"
    using assms(3,4) instance_build_parent [of it present "setup_callback it"] by (simp add: current_build_def Let_def)
  then show ?thesis
    using assms(2) by (simp add: inst_Run_def taskBuild_Run_def loadParent_def Let_def current_build_steps
        instance_build_steps [OF assms(1)] setup_callback_def)
qed

text \<open>A step that the parent has and the task has not is forwarded, with the parent's effect on the world.\<close>

lemma inst_Run_forward:
  assumes "options_ok (it_options it)" and "c_parent cl = Some d" and "it_asTask it d = Some p"
    and "st \<notin> insert StepSetup (fst ` set (bo_stepFunc (it_options it)))" and "taskHasStep p st u"
  shows "inst_Run it c st (cl, u) = Some (fst (task_Run p c st u), (cl, snd (task_Run p c st u)))"
proof -
  have "map_of (tb_stepFunc (current_build it cl)) st = None"
    using assms(4) by (simp add: current_build_steps instance_build_steps [OF assms(1)] map_of_eq_None_iff)
  moreover have "loadParent (current_build it cl) = Some (lift_task p)"
    using assms(2,3) by (simp add: loadParent_def current_build_steps)
  ultimately show ?thesis
    using assms(5) by (simp add: inst_Run_def taskBuild_Run_def Let_def lift_task_def [of p] case_prod_beta
        taskHasStep_def taskSteps_def GetTaskInfo_def lift_info_def zero_task_info_def split: option.splits)
qed

section \<open>Properties\<close>


text \<open>A task whose setup gives 5 and whose start step returns its data as an error.\<close>

definition demo_start :: "ctx \<Rightarrow> int \<Rightarrow> unit \<Rightarrow> go_error option \<times> unit" where
  "demo_start = (\<lambda>_ d w. (Some (TimeoutErr d), w))"

definition demo_instance :: "(int, unit) instanceTask \<times> int cell" where
  "demo_instance = inst_Build [StepSetup, StepStart] (\<lambda>_. None) (Some (\<lambda>_ w. ((5, None), w)))
     [inst_WithStart (Some demo_start)] ()"

lemmas demo_instance_eval = demo_instance_def inst_Build_def Let_def inst_options_def inst_option_defs
  instance_build_def WithSetup_def WithStep_def empty_build_def zero_cell_def


text \<open>
  C35: a provider forwards. Its setup returns the error of the provider; it fails with
  \<open>ErrInitialization\<close> for a nil task; else the provided task becomes the parent, and the setup succeeds
  exactly when no step of it is set here too (setup included), it has no initialization error and no
  callback is nil. From then on the steps of the task are its own and those of the provided task,
  which get forwarded.
\<close>

theorem provider_forwards:
  assumes "\<forall>opt\<in>set options. inst_exported opt" and "Provider ks (Some f) options u0 = (it, cl0)"
    and "tb_parent (instance_build it present) = None" and "key_order ks (instance_build it present)"
    and "c_data cl = None" and "c_parent cl = None"
    and "inst_Run it c StepSetup (cl, u) = Some (err, (cl', u'))"
  shows "case f c u of
      ((d, Some e), u1) \<Rightarrow> err = Some e \<and> cl' = cl \<and> u' = u1
    | ((None, None), u1) \<Rightarrow> errors_Is err (Defs ErrInitialization) \<and> c_parent cl' = None \<and> u' = u1
    | ((Some p, None), u1) \<Rightarrow> u' = u1 \<and>
        (err = None \<longleftrightarrow> (\<forall>(st, g)\<in>set (tb_stepFunc (instance_build it present)). g \<noteq> None) \<and>
           distinct (taskSteps p u1) \<and> set (taskSteps p u1) \<inter> own_steps options = {} \<and>
           ti_InitError (GetTaskInfo p u1) = None) \<and>
        set (taskSteps (instance_task it) (cl', u2)) = own_steps options \<union> set (taskSteps p u1) \<and>
        (st \<notin> own_steps options \<and> taskHasStep p st u2 \<longrightarrow>
           inst_Run it c2 st (cl', u2) = Some (fst (task_Run p c2 st u2), (cl', snd (task_Run p c2 st u2))))"
proof -
  let ?os = "options @ [WithParentFromSetup True]"
  have "\<forall>opt\<in>set ?os. inst_exported opt" using assms(1) by (auto intro: inst_exported.intros)
  note ok = inst_options_ok [OF this]
  note b = inst_Build_simps [OF assms(2) [unfolded Provider_def]]
  have steps: "bo_stepFunc (inst_options ?os) = bo_stepFunc (inst_options options)"
    and pfs: "bo_parentFromSetup (inst_options ?os)"
    by (simp_all add: inst_options_def WithParentFromSetup_def)
  have ok: "options_ok (it_options it)" using ok by (simp add: b)
  have run: "runSetup it f c (cl, u) = (err, (cl', u'))"
    using assms(7) inst_Run_setup [OF ok b(1) assms(6,3)] by simp
  obtain d e u1 where f: "f c u = ((d, e), u1)" by (metis prod.collapse)
  show ?thesis
  proof (cases e)
    case (Some e')
    from run f [unfolded Some] assms(5) have "err = Some e' \<and> cl' = cl \<and> u' = u1" by (auto simp: runSetup_def)
    with f Some show ?thesis by (cases d) simp_all
  next
    case None
    show ?thesis
    proof (cases d)
      case None
      with run f \<open>e = None\<close> assms(5,6) pfs show ?thesis
        by (auto simp: runSetup_def Let_def b)
    next
      case (Some p)
      with run f \<open>e = None\<close> assms(5) pfs
      have "set_parent it d p (cl\<lparr>c_data := Some d\<rparr>, u1) = (err, (cl', u'))"
        by (simp add: runSetup_def Let_def b)
      moreover have a: "it_asTask it d = Some p" by (simp add: b Some)
      moreover have k: "key_order (it_keys it) (instance_build it present)" by (simp add: b assms(4))
      ultimately have sp: "u' = u1 \<and> c_parent cl' = Some d \<and>
          (err = None \<longleftrightarrow> (\<forall>(st, g)\<in>set (tb_stepFunc (instance_build it present)). g \<noteq> None) \<and>
             distinct (taskSteps p u1) \<and> set (taskSteps p u1) \<inter> own_steps options = {} \<and>
             ti_InitError (GetTaskInfo p u1) = None) \<and>
          set (bs_steps (c_state cl')) = own_steps options \<union> set (taskSteps p u1)"
        using set_parent_spec [OF ok b(1) a k] by (simp add: b steps)
      have "inst_Run it c2 st (cl', u2) = Some (fst (task_Run p c2 st u2), (cl', snd (task_Run p c2 st u2)))"
        if "st \<notin> own_steps options \<and> taskHasStep p st u2"
        using inst_Run_forward [OF ok _ a, of cl' st u2 c2] sp that by (simp add: b steps)
      with sp f Some \<open>e = None\<close> show ?thesis by simp
    qed
  qed
qed

theorem provider_forwards_witness:
  "\<exists>it cl0 cl'. Provider [StepSetup, StepStart] (Some (\<lambda>_ w. ((Some (stop_task [StepStop]), None), w)))
      [inst_WithStart (Some (\<lambda>_ _ w. (None, w)))] () = (it, cl0) \<and>
     inst_Run it 0 StepSetup (cl0, ()) = Some (None, (cl', ())) \<and>
     inst_Run it 0 StepStop (cl', ()) = Some (Some (UserError ''parent''), (cl', ()))"
proof -
  let ?f = "\<lambda>_ w. ((Some (stop_task [StepStop]), None), w)"
  let ?os = "[inst_WithStart (Some (\<lambda>_ _ w. (None, w)))] :: (unit task option, unit) inst_option list"
  obtain it cl0 where b: "Provider [StepSetup, StepStart] (Some ?f) ?os () = (it, cl0)" by force
  note s = inst_Build_simps [OF b [unfolded Provider_def]]
  have ex: "\<forall>opt\<in>set ?os. inst_exported opt" by (simp add: inst_exported.intros)
  have steps: "tb_stepFunc (instance_build it present) =
      [(StepSetup, present), (StepStart, step_callback (Some (\<lambda>_ _ w. (None, w))))]"
    and par: "tb_parent (instance_build it present) = None"
    by (simp_all add: instance_build_def s inst_options_def inst_option_defs WithSetup_def WithStep_def empty_build_def)
  have key: "key_order [StepSetup, StepStart] (instance_build it present)" by (simp add: key_order_def steps)
  have own: "own_steps ?os = {StepSetup, StepStart}"
    by (simp add: inst_options_def inst_option_defs)
  have ok: "options_ok (it_options it)"
    using inst_options_ok [of "?os @ [WithParentFromSetup True]"] by (simp add: s inst_exported.intros)
  obtain err cl' where rs: "runSetup it ?f 0 (cl0, ()) = (err, (cl', ()))"
    by (cases "runSetup it ?f 0 (cl0, ())") auto
  have r: "inst_Run it 0 StepSetup (cl0, ()) = Some (err, (cl', ()))"
    by (simp only: inst_Run_setup [OF ok s(1) s(6) par] rs)
  have st: "taskSteps (stop_task [StepStop]) w = [StepStop]" "taskHasStep (stop_task [StepStop]) StepStop w"
    "ti_InitError (GetTaskInfo (stop_task [StepStop]) w) = None"
    "task_Run (stop_task [StepStop]) c st w = (Some (UserError ''parent''), w)" for w c st
    by (simp_all add: stop_task_def taskSteps_def taskHasStep_def GetTaskInfo_def zero_task_info_def)
  have nn: "\<forall>(st, g)\<in>set (tb_stepFunc (instance_build it present)). g \<noteq> None"
    unfolding steps by (simp add: present_def step_callback_def)
  have "(err = None \<longleftrightarrow> (\<forall>(st, g)\<in>set (tb_stepFunc (instance_build it present)). g \<noteq> None) \<and>
           distinct (taskSteps (stop_task [StepStop]) ()) \<and>
           set (taskSteps (stop_task [StepStop]) ()) \<inter> own_steps ?os = {} \<and>
           ti_InitError (GetTaskInfo (stop_task [StepStop]) ()) = None) \<and>
      (StepStop \<notin> own_steps ?os \<and> taskHasStep (stop_task [StepStop]) StepStop () \<longrightarrow>
           inst_Run it 0 StepStop (cl', ()) = Some (fst (task_Run (stop_task [StepStop]) 0 StepStop ()),
             (cl', snd (task_Run (stop_task [StepStop]) 0 StepStop ()))))"
    using provider_forwards [OF ex b par key s(5,6) r] by (simp only: prod.case option.case) blast
  then have "err = None" "inst_Run it 0 StepStop (cl', ()) = Some (Some (UserError ''parent''), (cl', ()))"
    unfolding own using nn st by auto
  then show ?thesis using b r by blast
qed

end
