(* ===== verification/FutureTask.thy ===== *)
theory FutureTask
  imports Future InstanceTask RunTheorems
begin

text \<open>
  \<open>futuretask\<close>: an instance task whose setup resolves a future. The future and the channels are a part
  of the world of the instance task, beside the world of the user code. Resolving a resolved future
  panics; the callbacks then leave the world alone and the fact is kept in a flag of the cell.
\<close>

declare split_paired_All [simp del] split_paired_Ex [simp del]

section \<open>The task\<close>

record 'v future_cell =
  fc_future :: "'v future"
  fc_chans :: chans
  fc_panicked :: bool

definition resolve_cell :: "'v future_op \<Rightarrow> 'v future_cell \<Rightarrow> 'v future_cell" where
  "resolve_cell c fc =
     (case future_call c (fc_future fc, fc_chans fc) of
        None \<Rightarrow> fc\<lparr>fc_panicked := True\<rparr>
      | Some (f, chs) \<Rightarrow> fc\<lparr>fc_future := f, fc_chans := chs\<rparr>)"

text \<open>The setup function that \<open>New\<close> wraps around the one of the user; a nil one fails with \<open>ErrNilTask\<close>.\<close>

definition checked_setup :: "'v \<Rightarrow> ('v, 'x) setup_func option \<Rightarrow> ('v, 'x) setup_func" where
  "checked_setup zv setupFunc =
     (case setupFunc of None \<Rightarrow> (\<lambda>_ x. ((zv, Some (defs_err ErrNilTask)), x)) | Some f \<Rightarrow> f)"

definition future_setup :: "'v \<Rightarrow> ('v, 'x) setup_func option \<Rightarrow> ('v, 'v future_cell \<times> 'x) setup_func" where
  "future_setup zv setupFunc c = (\<lambda>(fc, x).
     case checked_setup zv setupFunc c x of
       ((data, Some err), x') \<Rightarrow> ((zv, Some err), (resolve_cell (OpResolveError (Some err)) fc, x'))
     | ((data, None), x') \<Rightarrow> ((data, None), (resolve_cell (OpResolve data) fc, x')))"

text \<open>The skip callback: it looks at the future first, because resolving twice panics.\<close>

definition skipped_error :: "go_error option \<Rightarrow> go_error" where
  "skipped_error cause = (case cause of
     None \<Rightarrow> defs_err ErrTaskSkipped | Some e \<Rightarrow> Errorf ''%w: %w'' [defs_err ErrTaskSkipped, e])"

definition future_skipped :: "('v future_cell \<times> 'x) skipped_func" where
  "future_skipped c cause = (\<lambda>(fc, x).
     let (d, f, chs) = future_Done (fc_future fc) (fc_chans fc);
         fc' = fc\<lparr>fc_future := f, fc_chans := chs\<rparr>
     in (if chan_closed chs d then fc' else resolve_cell (OpResolveError (Some (skipped_error cause))) fc', x))"

definition futuretask_New :: "step list \<Rightarrow> ('v \<Rightarrow> ('v future_cell \<times> 'x) task option) \<Rightarrow> 'v \<Rightarrow>
    ('v, 'x) setup_func option \<Rightarrow> ('v, 'v future_cell \<times> 'x) inst_option list \<Rightarrow> 'v future_cell \<times> 'x \<Rightarrow>
    ('v, 'v future_cell \<times> 'x) instanceTask \<times> 'v cell" where
  "futuretask_New ks asTask zv setupFunc options w =
     inst_Build ks asTask (Some (future_setup zv setupFunc)) (options @ [inst_WithSkipped (Some future_skipped)]) w"

definition new_future_cell :: "'v \<Rightarrow> chans \<Rightarrow> 'v future_cell" where
  "new_future_cell zv chs = \<lparr>fc_future = NewFuture zv, fc_chans = chs, fc_panicked = False\<rparr>"

text \<open>\<open>Value\<close> wraps the error of the future.\<close>

definition data_error :: "'v \<times> go_error option \<Rightarrow> 'v \<times> go_error option" where
  "data_error r = (case r of
     (ret, Some e) \<Rightarrow> (ret, Some (Errorf ''error resolving task data: %w'' [e])) | (ret, None) \<Rightarrow> (ret, None))"

definition futuretask_Value :: "'v \<Rightarrow> future_value_option list \<Rightarrow> bool \<Rightarrow> ctxs \<Rightarrow> 'v future_cell \<Rightarrow>
    ('v \<times> go_error option) option \<times> 'v future_cell" where
  "futuretask_Value zv options b st fc =
     (let (r, f, chs) = future_Value zv options b st (fc_future fc) (fc_chans fc)
      in (map_option data_error r, fc\<lparr>fc_future := f, fc_chans := chs\<rparr>))"

definition futuretask_Done :: "'v future_cell \<Rightarrow> chan \<times> 'v future_cell" where
  "futuretask_Done fc =
     (let (d, f, chs) = future_Done (fc_future fc) (fc_chans fc) in (d, fc\<lparr>fc_future := f, fc_chans := chs\<rparr>))"


section \<open>A future task in a run\<close>

text \<open>
  What the events of a run do to the future of the task \<open>r\<close>: its setup step, when it has returned, has
  called the setup function once; a skip notification has called the skip callback. The trace has the
  newest event first.
\<close>

fun play_event :: "'v \<Rightarrow> ('v, 'x) setup_func option \<Rightarrow> ctx \<Rightarrow> tref \<Rightarrow> event \<Rightarrow>
    'v future_cell \<times> 'x \<Rightarrow> 'v future_cell \<times> 'x" where
  "play_event zv sf c r (EvReturn r' st e) w =
     (if r' = r \<and> st = StepSetup then snd (future_setup zv sf c w) else w)"
| "play_event zv sf c r (EvSkipped r' cause) w = (if r' = r then future_skipped c cause w else w)"
| "play_event zv sf c r _ w = w"

fun play :: "'v \<Rightarrow> ('v, 'x) setup_func option \<Rightarrow> ctx \<Rightarrow> tref \<Rightarrow> event list \<Rightarrow>
    'v future_cell \<times> 'x \<Rightarrow> 'v future_cell \<times> 'x" where
  "play zv sf c r [] w = w"
| "play zv sf c r (ev # t) w = play_event zv sf c r ev (play zv sf c r t w)"

definition fc_resolved :: "'v future_cell \<Rightarrow> bool" where
  "fc_resolved fc = future_resolved (fc_future fc, fc_chans fc)"

definition fc_outcome :: "'v future_cell \<Rightarrow> 'v \<times> go_error option" where
  "fc_outcome fc = future_outcome (fc_future fc, fc_chans fc)"

definition fc_inv :: "'v \<Rightarrow> 'v future_cell \<Rightarrow> bool" where
  "fc_inv zv fc \<longleftrightarrow> \<not> fc_panicked fc \<and> future_inv zv (fc_future fc, fc_chans fc)"

lemma resolve_cell_ok:
  assumes "fc_inv zv fc" and "\<not> fc_resolved fc" and "is_resolve c"
  shows "fc_inv zv (resolve_cell c fc) \<and> fc_resolved (resolve_cell c fc) \<and>
    fc_outcome (resolve_cell c fc) = resolution zv c"
proof -
  have i: "future_inv zv (fc_future fc, fc_chans fc)" using assms(1) by (simp add: fc_inv_def)
  obtain f chs where s: "future_call c (fc_future fc, fc_chans fc) = Some (f, chs)"
    using fut.call_None [OF i, of c] assms(2)
    by (cases "future_call c (fc_future fc, fc_chans fc)") (auto simp: fc_resolved_def)
  from fut.call_Some [OF i s] assms s show ?thesis
    by (simp add: resolve_cell_def fc_inv_def fc_resolved_def fc_outcome_def)
qed

text \<open>The setup resolves the future with what the user's function returned.\<close>

definition setup_result :: "'v \<Rightarrow> 'v \<times> go_error option \<Rightarrow> 'v \<times> go_error option" where
  "setup_result zv r = (case snd r of None \<Rightarrow> (fst r, None) | Some e \<Rightarrow> (zv, Some e))"

lemma future_setup_ok:
  assumes "fc_inv zv fc" and "\<not> fc_resolved fc"
  shows "fc_inv zv (fst (snd (future_setup zv sf c (fc, x)))) \<and> fc_resolved (fst (snd (future_setup zv sf c (fc, x)))) \<and>
    fc_outcome (fst (snd (future_setup zv sf c (fc, x)))) = setup_result zv (fst (checked_setup zv sf c x)) \<and>
    fst (future_setup zv sf c (fc, x)) = setup_result zv (fst (checked_setup zv sf c x))"
  using resolve_cell_ok [OF assms]
  by (auto simp: future_setup_def setup_result_def split: prod.split option.split)

lemma fc_Done:
  assumes "fc_inv zv fc" and "future_Done (fc_future fc) (fc_chans fc) = (d, f, chs)"
  defines "fc' \<equiv> fc\<lparr>fc_future := f, fc_chans := chs\<rparr>"
  shows "fc_inv zv fc' \<and> fc_resolved fc' = fc_resolved fc \<and> fc_outcome fc' = fc_outcome fc \<and>
    chan_closed chs d = fc_resolved fc"
proof -
  have i: "future_inv zv (fc_future fc, fc_chans fc)" using assms(1) by (simp add: fc_inv_def)
  have s: "future_call OpDone (fc_future fc, fc_chans fc) = Some (f, chs)" by (simp add: assms(2))
  have "chan_closed chs d = future_resolved (f, chs)"
    using assms(2) i latch_Done_simps [of "f_l (fc_future fc)" "fc_chans fc"]
    by (auto simp: future_Done_def Let_def future_inv_def future_resolved_def split: prod.splits)
  with fut.call_Some [OF i s] assms(1) show ?thesis
    by (simp add: fc'_def fc_inv_def fc_resolved_def fc_outcome_def)
qed

lemma future_skipped_ok:
  assumes "fc_inv zv fc"
  shows "fc_inv zv (fst (future_skipped c cause (fc, x))) \<and> fc_resolved (fst (future_skipped c cause (fc, x))) \<and>
    fc_outcome (fst (future_skipped c cause (fc, x))) =
      (if fc_resolved fc then fc_outcome fc else (zv, Some (skipped_error cause))) \<and>
    snd (future_skipped c cause (fc, x)) = x"
proof -
  obtain d f chs where d: "future_Done (fc_future fc) (fc_chans fc) = (d, f, chs)" by (metis prod_cases3)
  note a = fc_Done [OF assms d]
  show ?thesis
  proof (cases "fc_resolved fc")
    case True
    with a d show ?thesis by (simp add: future_skipped_def)
  next
    case False
    with a d resolve_cell_ok [of zv "fc\<lparr>fc_future := f, fc_chans := chs\<rparr>" "OpResolveError (Some (skipped_error cause))"]
    show ?thesis by (simp add: future_skipped_def)
  qed
qed


lemma play_ok:
  assumes "legal b all t" and "fc_inv zv fc" and "\<not> fc_resolved fc"
  shows "case play zv sf c r t (fc, x) of (fc', x') \<Rightarrow>
    fc_inv zv fc' \<and> (fc_resolved fc' \<longleftrightarrow> returned_in t r StepSetup \<or> skipped_in t r) \<and>
    (skipped_in t r \<longrightarrow> (\<exists>cause. EvSkipped r cause \<in> set t \<and> fc_outcome fc' = (zv, Some (skipped_error cause)))) \<and>
    (returned_in t r StepSetup \<longrightarrow> (\<exists>y. fc_outcome fc' = setup_result zv (fst (checked_setup zv sf c y))))"
  using assms(1)
proof (induction t)
  case Nil
  with assms(2,3) show ?case by simp
next
  case (Cons ev t)
  obtain fc' x' where p: "play zv sf c r t (fc, x) = (fc', x')" by force
  have leg: "legal b all t" using Cons.prems by simp
  note ih = Cons.IH [OF leg, unfolded p prod.case]
  show ?case
  proof (cases "(\<exists>e. ev = EvReturn r StepSetup e) \<or> (\<exists>cause. ev = EvSkipped r cause)")
    case False
    then have "play_event zv sf c r ev w = w" "returned_in (ev # t) r StepSetup = returned_in t r StepSetup"
      "skipped_in (ev # t) r = skipped_in t r" for w
      by (cases ev; auto)+
    with ih p show ?thesis by auto
  next
    case True
    then show ?thesis
    proof (elim disjE exE)
      fix e assume ev: "ev = EvReturn r StepSetup e"
      then have "was_called t r StepSetup" "\<not> returned_in t r StepSetup" using Cons.prems by simp_all
      moreover from this have "\<not> skipped_in t r" using legal_called_not_skipped [OF leg] by blast
      ultimately have "\<not> fc_resolved fc'" using ih by simp
      with future_setup_ok [of zv fc' sf c x'] ih p ev \<open>\<not> skipped_in t r\<close> show ?thesis
        by (auto split: prod.split)
    next
      fix cause assume ev: "ev = EvSkipped r cause"
      then have "\<not> skipped_in t r" "\<not> was_called t r StepSetup" using Cons.prems by (auto simp: was_called_def)
      moreover from this have "\<not> returned_in t r StepSetup" using legal_was_called [OF leg] by blast
      ultimately have "\<not> fc_resolved fc'" using ih by simp
      with future_skipped_ok [of zv fc' c cause x'] ih p ev \<open>\<not> returned_in t r StepSetup\<close> show ?thesis
        by (auto split: prod.split)
    qed
  qed
qed

lemma new_future_cell_ok:
  assumes "chan_closed chs closedchan"
  shows "fc_inv zv (new_future_cell zv chs)" "\<not> fc_resolved (new_future_cell zv chs)"
  using NewFuture_inv [OF assms] by (simp_all add: fc_inv_def fc_resolved_def new_future_cell_def)

section \<open>A future task is tracked\<close>

text \<open>The inner build has the setup step, as long as its state was computed by \<open>init\<close>.\<close>

definition has_setup :: "'v cell \<times> 'w \<Rightarrow> bool" where
  "has_setup w \<longleftrightarrow> StepSetup \<in> set (bs_steps (c_state (fst w)))"

lemma fold_step_skipped: "tb_skipped (fold (\<lambda>(step, f). WithStep step (h f)) l t) = tb_skipped t"
  by (induction l arbitrary: t) (auto simp: WithStep_def)

lemma futuretask_tracked:
  assumes "futuretask_New ks asTask zv sf options w = (it, cl0)"
  shows "tracked has_setup (instance_task it)"
proof -
  note b = inst_Build_simps [OF assms [unfolded futuretask_New_def]]
  let ?g = "map_option (\<lambda>g c cause (x, u). (x, g c cause u)) (Some future_skipped)"
  have "bo_tbOptions (it_options it) = bo_tbOptions (inst_options options) @ [WithSkipped ?g]"
    by (simp add: b inst_options_def inst_WithSkipped_def withBuildOption_def)
  then have "tb_skipped (fold (\<lambda>opt. opt) (bo_tbOptions (it_options it)) empty_build) \<noteq> []"
    by (simp add: WithSkipped_def)
  then have "tb_skipped (instance_build it s) \<noteq> []" for s
    by (simp add: instance_build_def fold_as_map fold_step_skipped WithSetup_def WithStep_def)
  then have "ti_Skipped (taskBuild_TaskInfo (current_build it cl) w) \<noteq> None" for cl w
    by (simp add: taskBuild_TaskInfo_def current_build_def Let_def)
  then show ?thesis by (auto simp: tracked_def has_setup_in_def has_setup_def)
qed

text \<open>\<open>Build\<close> establishes it, and no call of the task takes it away.\<close>

lemma futuretask_has_setup:
  assumes "\<forall>opt\<in>set options. inst_exported opt" and "futuretask_New ks asTask zv sf options w = (it, cl0)"
    and "key_order ks (instance_build it (setup_callback it))"
  shows "has_setup (cl0, w')"
proof -
  note b = inst_Build_simps [OF assms(2) [unfolded futuretask_New_def]]
  have "options_ok (it_options it)"
    unfolding b by (rule inst_options_ok) (use assms(1) in \<open>auto intro: inst_exported.intros\<close>)
  from instance_build_keys [OF this] build_state_steps [OF assms(3), of "(zero_cell, w)"] show ?thesis
    by (auto simp: has_setup_def b)
qed


section \<open>Properties\<close>

text \<open>
  C12: a future task never resolves its future twice, in any run of the manager: its setup resolves it at
  most once, the skip notification does not resolve what is resolved, and the manager never calls the
  setup of a task it has notified. The future is resolved exactly when the setup has returned or the
  task was notified.
\<close>

theorem futuretask_resolves_once:
  assumes "reachable s" and "chan_closed chs closedchan"
  shows "case play zv sf c r (s_trace s) (new_future_cell zv chs, x) of (fc, x') \<Rightarrow>
    \<not> fc_panicked fc \<and> (fc_resolved fc \<longleftrightarrow> returned_in (s_trace s) r StepSetup \<or> skipped_in (s_trace s) r)"
  using play_ok [OF reachable_legal [OF assms(1)] new_future_cell_ok [OF assms(2)], where zv = zv and sf = sf and c = c and r = r and x = x]
  by (auto simp: fc_inv_def split: prod.split)

theorem futuretask_resolves_once_witness:
  "\<exists>s :: unit sys. reachable s \<and> returned_in (s_trace s) (StageDefault, 0) StepSetup \<and>
     fc_resolved (fst (play (0::int) (Some (\<lambda>_ x. ((7, None), x))) 0 (StageDefault, 0) (s_trace s)
       (new_future_cell 0 chans_init, ())))"
proof (rule reachable_end [OF setup_fails_ends])
  fix s :: "unit sys"
  assume s: "reachable s" and "(case s_pc s of PReturned (Some _) None \<Rightarrow> True | _ \<Rightarrow> False) \<and>
       EvReturn (StageDefault, 0) StepSetup (Some db_error) \<in> set (s_trace s) \<and> m_afterRun (s_mgr s) = [] \<and>
       list_all (\<lambda>ev. case ev of EvReturn r st (Some e) \<Rightarrow> e = db_error | _ \<Rightarrow> True) (s_trace s)"
  then have r: "returned_in (s_trace s) (StageDefault, 0) StepSetup" by (auto simp: returned_in_iff)
  have "chan_closed chans_init closedchan" by (simp add: chan_closed_def chans_init_def closedchan_def)
  from futuretask_resolves_once [OF s this, where zv = "0::int" and sf = "Some (\<lambda>_ x. ((7, None), x))" and c = 0 and r = "(StageDefault, 0)" and x = "()"] r s
  show ?thesis by (auto split: prod.splits)
qed

text \<open>
  C11: waiters are released: when \<open>Run\<close> has returned, \<open>Value\<close> of a future task of the manager does not
  block, whatever happened. It gives what the setup function returned, or, when the manager never came
  to the task, an error that wraps \<open>ErrTaskSkipped\<close> and the cause.
\<close>

theorem futuretask_waiters_released:
  assumes "futuretask_New ks asTask zv sf options w = (it, cl0)" and "reachable_in has_setup s"
    and "s_pc s = PReturned e se" and "tw_valid (s_tasks s) r"
    and "tw_task (tw_at (s_tasks s) r) = instance_task it" and "chan_closed chs closedchan"
  shows "case play zv sf c r (s_trace s) (new_future_cell zv chs, x) of (fc, x') \<Rightarrow>
    (\<exists>cause. EvSkipped r cause \<in> set (s_trace s) \<and> fst (futuretask_Value zv [] b st fc) =
       Some (data_error (zv, Some (skipped_error cause)))) \<or>
    (\<exists>y. fst (futuretask_Value zv [] b st fc) =
       Some (data_error (setup_result zv (fst (checked_setup zv sf c y)))))"
proof -
  obtain fc x' where p: "play zv sf c r (s_trace s) (new_future_cell zv chs, x) = (fc, x')" by force
  have reach: "reachable s" by (rule reachable_in_reachable [OF assms(2)])
  note ok = play_ok [OF reachable_legal [OF reach] new_future_cell_ok [OF assms(6)], where zv = zv and sf = sf and c = c and r = r and x = x,
      unfolded p prod.case]
  have "tracked has_setup (tw_task (tw_at (s_tasks s) r))" using futuretask_tracked [OF assms(1)] assms(5) by simp
  from covered_returned [OF assms(2,3,4) this] have cov: "returned_in (s_trace s) r StepSetup \<or> skipped_in (s_trace s) r"
    by (auto simp: returned_in_iff)
  have "latch_inv (f_l (fc_future fc)) (fc_chans fc)" using ok by (simp add: fc_inv_def future_inv_def)
  from future_Value_eq [OF this, of zv "[]" b st] cov ok
  have v: "fst (future_Value zv [] b st (fc_future fc) (fc_chans fc)) = Some (fc_outcome fc)"
    by (simp add: fc_resolved_def fc_outcome_def Let_def)
  obtain f chs where fv: "future_Value zv [] b st (fc_future fc) (fc_chans fc) = (Some (fc_outcome fc), f, chs)"
    using v by (metis prod.collapse)
  then have "fst (futuretask_Value zv [] b st fc) = Some (data_error (fc_outcome fc))"
    unfolding futuretask_Value_def by simp
  with cov ok show ?thesis unfolding p prod.case by (auto simp: data_error_def)
qed

definition demo_future :: "(int, int future_cell \<times> unit) instanceTask \<times> int cell" where
  "demo_future = futuretask_New [StepSetup] (\<lambda>_. None) 0 (Some (\<lambda>_ x. ((7, None), x))) []
     (new_future_cell 0 chans_init, ())"

definition demo_future_sys :: "(int cell \<times> int future_cell \<times> unit) sys" where
  "demo_future_sys = solo (instance_task (fst demo_future)) (snd demo_future, new_future_cell 0 chans_init, ())"


definition demo_ends :: "(int cell \<times> int future_cell \<times> unit) sys \<Rightarrow> bool" where
  "demo_ends s \<longleftrightarrow> (case s_pc s of PReturned (Some _) None \<Rightarrow> True | _ \<Rightarrow> False) \<and> tw_valid (s_tasks s) (StageDefault, 0)"

lemma demo_future_ends:
  "case exec_in has_setup [ARun 0 None, AMain True] demo_future_sys of Some s \<Rightarrow> demo_ends s | None \<Rightarrow> False"
  by code_simp

lemma demo_future_has_setup: "has_setup (s_world demo_future_sys)"
  by code_simp

lemma run_starts_task:
  assumes "exec_in I [ARun c x, AMain b] s = Some s'" and "initial s"
  shows "task_of s' r = task_of s r"
proof -
  obtain s1 where s1: "exec (ARun c x) s = Some s1" "exec (AMain b) s1 = Some s'"
    using assms(1) by (auto split: option.splits if_splits)
  have step: "sys_step s (ARun c x) s1" "sys_step s1 (AMain b) s'" using s1 by (auto intro: exec_step)
  then have r1: "s_pc s1 \<noteq> PIdle" "task_of s1 r = task_of s r" by (auto elim: sys_step.cases)
  have "reachable s1" unfolding reachable_def using assms(2) step(1) by (blast intro: runs_to_cons runs_nil)
  then have "sched_inv s1" by (rule invs)
  from step_task_fixed [OF step(2) this r1(1)] r1(2) show ?thesis by simp
qed

lemma solo_task: "ti_InitError (GetTaskInfo t w) = None \<Longrightarrow> task_of (solo t w) (StageDefault, 0) = t"
  by (simp add: solo_def AddTask_def default_manager_def initial_sys_def tw_at_def stageTasks_get_def
      stageTasks_add_def newStageTasks_def newTaskWrapper_def)

lemma demo_future_init:
  "ti_InitError (GetTaskInfo (instance_task (fst demo_future)) (snd demo_future, new_future_cell 0 chans_init, ())) = None"
  by code_simp

theorem futuretask_waiters_released_witness:
  "\<exists>s :: (int cell \<times> int future_cell \<times> unit) sys. reachable_in has_setup s \<and>
     fst (futuretask_Value (0::int) [] True background (fst (play 0 (Some (\<lambda>_ x. ((7::int, None), x))) 0 (StageDefault, 0) (s_trace s)
       (new_future_cell 0 chans_init, ())))) \<noteq> None"
proof -
  obtain s where s: "exec_in has_setup [ARun 0 None, AMain True] demo_future_sys = Some s" "demo_ends s"
    using demo_future_ends by (auto split: option.splits)
  have r: "reachable_in has_setup s"
    by (rule exec_in_reachable [OF _ demo_future_has_setup s(1)]) (simp add: demo_future_sys_def solo_initial)
  obtain e se where pc: "s_pc s = PReturned e se" using s(2) by (auto simp: demo_ends_def split: pc.splits)
  have v: "tw_valid (s_tasks s) (StageDefault, 0)" using s(2) by (simp add: demo_ends_def)
  have t: "tw_task (tw_at (s_tasks s) (StageDefault, 0)) = instance_task (fst demo_future)"
    using run_starts_task [OF s(1), of "(StageDefault, 0)"] solo_task [OF demo_future_init]
    unfolding demo_future_sys_def by (simp only: solo_initial)
  have c: "chan_closed chans_init closedchan" by (simp add: chan_closed_def chans_init_def closedchan_def)
  have n: "futuretask_New [StepSetup] (\<lambda>_. None) 0 (Some (\<lambda>_ x. ((7, None), x))) []
     (new_future_cell 0 chans_init, ()) = (fst demo_future, snd demo_future)"
    by (simp add: demo_future_def)
  from futuretask_waiters_released [OF n r pc v t c, where x = "()" and b = True and st = background and c = 0]
  have "fst (futuretask_Value (0::int) [] True background (fst (play 0 (Some (\<lambda>_ x. ((7::int, None), x))) 0
      (StageDefault, 0) (s_trace s) (new_future_cell 0 chans_init, ())))) \<noteq> None"
    by (auto split: prod.splits)
  with r show ?thesis by blast
qed

end
