(* ===== verification/RunReady.thy ===== *)
theory RunReady
  imports RunTheorems
begin

text \<open>
  What a step of a stage may rely on: every task of the stages before it that has a setup step has been
  set up, with success, before the step is called.
\<close>

declare split_paired_All [simp del] split_paired_Ex [simp del]

section \<open>The setup goroutines of the passed stages\<close>

definition spawned_inv :: "('w \<Rightarrow> bool) \<Rightarrow> 'w sys \<Rightarrow> bool" where
  "spawned_inv I s \<longleftrightarrow> (\<not> past_start (s_pc s) \<longrightarrow>
     (\<forall>r. valid s r \<and> has_setup_in I (task_of s r) \<and> passed (s_stages s) (s_pc s) StepSetup r \<longrightarrow>
        (StepSetup, r) \<in> set (keys s)))"

lemma passed_due: "pc_ok all pc \<Longrightarrow> \<not> past_start pc \<Longrightarrow> passed all pc StepSetup r = due all pc r"
  by (cases pc) (auto simp: passed_def split: step.splits elim: step_known.elims)

lemma spawned_inv_step:
  assumes step: "sys_step s a s'" and sch: "sched_inv s" and now: "I (s_world s)" and inv: "spawned_inv I s"
  shows "spawned_inv I s'"
  unfolding spawned_inv_def
proof (intro impI allI; elim conjE)
  fix r assume np': "\<not> past_start (s_pc s')" and v': "valid s' r" and t': "has_setup_in I (task_of s' r)"
    and p': "passed (s_stages s') (s_pc s') StepSetup r"
  have ok: "pc_ok (s_stages s) (s_pc s)" by (rule sched_invD(2) [OF sch])
  have ok': "pc_ok (s_stages s') (s_pc s')"
    using sched_inv_step [OF sch step] by (rule sched_invD(2))
  have all: "s_stages s' = s_stages s" by (rule step_stages [OF step])
  have d: "due (s_stages s) (s_pc s') r" using passed_due [OF ok' np'] p' all by simp
  have np: "\<not> past_start (s_pc s)" using np' past_start_flow sched_flow [OF sch step] by metis
  have ni: "s_pc s \<noteq> PIdle"
    using sched_flow [OF sch step] d by (auto elim: flow.cases)
  have v: "valid s r" and t: "has_setup_in I (task_of s r)"
    using step_task_fixed [OF step sch ni] v' t' by simp_all
  have old: "(StepSetup, r) \<in> set (keys s')" if "due (s_stages s) (s_pc s) r"
    using inv np v t passed_due [OF ok np] that step_keys_mono [OF step] by (auto simp: spawned_inv_def)
  show "(StepSetup, r) \<in> set (keys s')"
  proof (cases "s_pc s' = s_pc s")
    case True
    then show ?thesis using old d by simp
  next
    case False
    then have "flow (s_stages s) (s_pc s) (s_pc s')" using sched_flow [OF sch step] by blast
    from due_flow [OF this ok d] np' show ?thesis
    proof (elim disjE exE conjE)
      assume "due (s_stages s) (s_pc s) r"
      then show ?thesis by (rule old)
    next
      fix ss i assume pc: "s_pc s = PRun StepSetup ss (RSpawn i)" and r: "fst r = hd ss" "i \<le> snd r"
        and pc': "s_pc s' = PRun StepSetup ss (RSpawn (Suc i))" "snd r = i"
      have ri: "r = (hd ss, i)" using r pc' by (cases r) simp
      have i: "i < length (stageTasks_get (s_tasks s) (hd ss))" using v ri by (simp add: tw_valid_def)
      from step have "s' = loop_task StepSetup ss i s"
        by (cases rule: sys_step.cases) (use pc pc' False in simp_all)
      with loop_task_spawns [where I = I, OF sch pc i] now t ri show ?thesis by simp
    next
      fix ss i assume pc: "s_pc s = PRun StepSetup ss (RSpawn i)" and r: "fst r = hd ss" "i \<le> snd r"
        and pc': "s_pc s' = PRun StepSetup ss RWait"
      have "\<not> i < length (stageTasks_get (s_tasks s) (hd ss))"
        using step by (cases rule: sys_step.cases) (use pc pc' in simp_all)
      with v r show ?thesis by (simp add: tw_valid_def)
    qed simp_all
  qed
qed

section \<open>What a step relies on\<close>

text \<open>The setup of every task that a called setup or start step comes after has a goroutine.\<close>

definition spawn_order_inv :: "('w \<Rightarrow> bool) \<Rightarrow> 'w sys \<Rightarrow> bool" where
  "spawn_order_inv I s \<longleftrightarrow> (\<forall>st r' r. (st, r') \<in> set (keys s) \<and> (st = StepSetup \<or> st = StepStart) \<and> valid s r \<and>
     has_setup_in I (task_of s r) \<and>
     step_precedes (m_enforceShutdownTimeout (s_mgr s)) (s_stages s) StepSetup (fst r) st (fst r') \<longrightarrow>
     (StepSetup, r) \<in> set (keys s))"

lemma precedes_passed:
  assumes "pc_ok all (PRun st ss at)" and "distinct all" and "fst r \<in> set all" and "st = StepSetup \<or> st = StepStart"
    and pre: "step_precedes e all StepSetup (fst r) st (hd ss)"
  shows "passed all (PRun st ss at) StepSetup r"
proof -
  obtain p where p: "p @ ss = all" and ss: "ss \<noteq> []" using assms(1,4) by auto
  then have all: "all = p @ hd ss # tl ss" by simp
  have later: "earlier all (hd ss) (fst r)" if x: "fst r \<in> set (tl ss)"
  proof -
    from x obtain a b where "tl ss = a @ fst r # b" by (auto dest: split_list)
    with all have "all = (p @ hd ss # a) @ fst r # b" by simp
    with assms(2) earlier_split [of "p @ hd ss # a" "fst r" b "hd ss"] show ?thesis by simp
  qed
  have pre_mem: "earlier all (fst r) (hd ss) \<longleftrightarrow> fst r \<in> set p"
    using earlier_split [of p "hd ss" "tl ss"] assms(2) all by simp
  have "fst r \<notin> set (tl ss) \<and> (st = StepSetup \<longrightarrow> fst r \<noteq> hd ss)"
    using assms(2,4) pre later pre_mem by (subst (asm) all) auto
  then show ?thesis using assms(3,4) by (cases at) (auto simp: passed_def)
qed

lemma keys_step:
  assumes "sys_step s a s'" and "k \<in> set (keys s')"
  shows "k \<in> set (keys s) \<or> (\<exists>st ss i. s_pc s = PRun st ss (RSpawn i) \<and> k = (st, (hd ss, i)))"
  using assms(1)
proof (cases rule: step_shape)
  case same
  with assms(2) show ?thesis by simp
next
  case (loop st ss i)
  with assms(2) show ?thesis by (auto simp: loop_task_gos new_goroutine_def g_key_def split: if_splits)
next
  case (move j p)
  then obtain g' where g': "s_gos s' = (s_gos s)[j := g']" "g_key g' = g_key (s_gos s ! j)"
    by (auto simp: moved_def)
  then have "keys s' = keys s" by (simp add: map_update) (metis list_update_id map_update)
  with assms(2) show ?thesis by simp
qed

lemma spawn_order_inv_step:
  assumes step: "sys_step s a s'" and sch: "sched_inv s" and sp: "spawned_inv I s" and inv: "spawn_order_inv I s"
  shows "spawn_order_inv I s'"
  unfolding spawn_order_inv_def
proof (intro allI impI; elim conjE)
  fix st r' r assume k: "(st, r') \<in> set (keys s')" and st: "st = StepSetup \<or> st = StepStart" and v': "valid s' r"
    and t': "has_setup_in I (task_of s' r)"
    and pre': "step_precedes (m_enforceShutdownTimeout (s_mgr s')) (s_stages s') StepSetup (fst r) st (fst r')"
  have ni: "s_pc s \<noteq> PIdle" using keys_step [OF step k] sched_inv_gos_idle [OF sch] by auto
  have v: "valid s r" and t: "has_setup_in I (task_of s r)" using step_task_fixed [OF step sch ni] v' t' by simp_all
  have pre: "step_precedes (m_enforceShutdownTimeout (s_mgr s)) (s_stages s) StepSetup (fst r) st (fst r')"
    using pre' step_enforce [OF step] step_stages [OF step] by simp
  have "(StepSetup, r) \<in> set (keys s)"
    using keys_step [OF step k]
  proof (elim disjE exE conjE)
    assume "(st, r') \<in> set (keys s)"
    then show ?thesis using inv st v t pre unfolding spawn_order_inv_def by blast
  next
    fix st' ss i assume pc: "s_pc s = PRun st' ss (RSpawn i)" and "(st, r') = (st', (hd ss, i))"
    then have eq: "st' = st" "fst r' = hd ss" by simp_all
    have ok: "pc_ok (s_stages s) (PRun st ss (RSpawn i))" using sched_invD(2) [OF sch] pc eq by simp
    have "passed (s_stages s) (s_pc s) StepSetup r"
      using precedes_passed [OF ok sched_invD(13) [OF sch] sched_invD(5) [OF sch v] st] pre pc eq by simp
    then show ?thesis using sp v t pc st eq by (auto simp: spawned_inv_def)
  qed
  then show "(StepSetup, r) \<in> set (keys s')" by (rule step_keys_mono [OF step])
qed

definition ready_inv :: "('w \<Rightarrow> bool) \<Rightarrow> 'w sys \<Rightarrow> bool" where
  "ready_inv I s \<longleftrightarrow> complete_inv I s \<and> spawned_inv I s \<and> spawn_order_inv I s"

interpretation ready: invariant_machine "step_in I" "initial_in I" "ready_inv I" for I
proof
  show "ready_inv I s" if "initial_in I s" for s :: "'a sys"
    using initial_complete_inv [OF that] that
    by (auto simp: ready_inv_def spawned_inv_def spawn_order_inv_def initial_in_def initial_def passed_def)
  fix s a s' assume i: "ready_inv I s" and st: "step_in I s a s'"
  then have step: "sys_step s a s'" by (simp add: step_in_def)
  from i have c: "complete_inv I s" "spawned_inv I s" "spawn_order_inv I s" by (simp_all add: ready_inv_def)
  then have sch: "sched_inv s" and w: "I (s_world s)" using outcome_sched by (auto simp: complete_inv_def)
  show "ready_inv I s'"
    using complete.inv_step [OF c(1) st] spawned_inv_step [OF step sch w c(2)]
      spawn_order_inv_step [OF step sch c(2,3)] by (simp add: ready_inv_def)
qed

lemma reachable_ready_inv: "reachable_in I s \<Longrightarrow> ready_inv I s"
  unfolding reachable_in_def using ready.inv_run by blast

text \<open>
  Whenever the setup or the start step of a task is called, the setup step of every task of an
  earlier stage (and, for a start step, of the own stage) that has one was called before and returned
  without error.
\<close>

theorem earlier_stages_set_up:
  assumes "reachable_in I s" and "s_trace s = later @ EvCall r' st # before" and "st = StepSetup \<or> st = StepStart"
    and "valid s r" and "has_setup_in I (task_of s r)"
    and pre: "step_precedes (m_enforceShutdownTimeout (s_mgr s)) (s_stages s) StepSetup (fst r) st (fst r')"
  shows "was_called before r StepSetup \<and> setup_succeeded before r"
proof -
  let ?e = "m_enforceShutdownTimeout (s_mgr s)"
  note inv = reachable_ready_inv [OF assms(1)] and reach = reachable_in_reachable [OF assms(1)]
  have lnk: "link_inv s" by (rule invs(2) [OF reach])
  have ok: "call_ok ?e (s_stages s) before r' st"
    using invs(8) [OF reach] legal_suffix unfolding legal_inv_def assms(2) by fastforce
  have "EvCall r' st \<in> set (s_trace s)" using assms(2) by simp
  then obtain g where g: "g \<in> set (s_gos s)" "g_tw g = r'" "g_step g = st" using called_goroutine [OF lnk] by metis
  then have "(st, r') \<in> set (keys s)" by (auto simp: g_key_def)
  with inv assms(3-6) have "(StepSetup, r) \<in> set (keys s)" unfolding ready_inv_def spawn_order_inv_def by blast
  then obtain h where h: "h \<in> set (s_gos s)" "g_step h = StepSetup" "g_tw h = r" by (auto simp: g_key_def)
  have "done_phase (g_phase h)"
    using invs(6) [OF reach] g h pre by (simp add: order_inv_def must_precede_def)
  moreover have "g_phase h \<noteq> GDone None"
    using inv h assms(5) by (auto simp: ready_inv_def complete_inv_def calls_setup_def)
  ultimately obtain e where e: "result (g_phase h) = Some e" by (cases "g_phase h") auto
  have "log_of s (StepSetup, r) = calls_at h" using lnk h by (auto simp: link_inv_def g_linked_def g_key_def)
  then have "EvCall r StepSetup \<in> set (log_of s (StepSetup, r))" using e h by (simp add: calls_at_def)
  then have call: "EvCall r StepSetup \<in> set (s_trace s)" by (auto simp: calls_of_def)
  have "EvCall r StepSetup \<in> set before"
  proof (rule ccontr)
    assume "EvCall r StepSetup \<notin> set before"
    moreover have "(r, StepSetup) \<noteq> (r', st)" using pre assms(3) by (auto simp: not_earlier_self)
    ultimately have "EvCall r StepSetup \<in> set later" using call assms(2) by auto
    then obtain l1 l2 where "s_trace s = l1 @ EvCall r StepSetup # (l2 @ EvCall r' st # before)"
      using assms(2) by (auto dest: split_list)
    then have "call_ok ?e (s_stages s) (l2 @ EvCall r' st # before) r StepSetup"
      using invs(8) [OF reach] legal_suffix unfolding legal_inv_def by fastforce
    with pre show False by (auto simp: call_ok_def)
  qed
  with ok pre assms(3) show ?thesis by (auto simp: call_ok_def was_called_def)
qed

end
