(* ===== verification/RunLife.thy ===== *)
theory RunLife
  imports RunReady
begin

text \<open>
  The life of one task: its other steps come after its setup step, and while the run shuts down every
  task that waits to be set up or skipped has been.
\<close>

declare split_paired_All [simp del] split_paired_Ex [simp del]

section \<open>What a step marks\<close>

lemma step_marks:
  assumes step: "sys_step s a s'" and sch: "sched_inv s" and run: "s_pc s \<noteq> PIdle"
  obtains (same) "marks s' r = marks s r"
  | (loop) st ss i where "s_pc s = PRun st ss (RSpawn i)" "r = (hd ss, i)" "i < length (stageTasks_get (s_tasks s) (hd ss))"
      "s' = loop_task st ss i s"
  | (gone) g where "g \<in> set (s_gos s)" "g_tw g = r" "marks s' r = insert (g_step g) (marks s r)"
      "g_step g = StepSetup \<Longrightarrow> g_phase g = GReturned None"
proof -
  have running: "m_isRunning (s_mgr s)" using sched_invD(4) [OF sch run] .
  have gv: "j < length (s_gos s) \<Longrightarrow> valid s (g_tw (s_gos s ! j))" for j
    using sched_invD(6) [OF sch] by simp
  from step show thesis
  proof (cases rule: sys_step.cases)
    case (st_loop st ss i b)
    then have v: "valid s (hd ss, i)" by (simp add: tw_valid_def)
    show ?thesis
    proof (cases "r = (hd ss, i)")
      case True
      with st_loop show ?thesis by (intro loop) simp_all
    next
      case False
      with st_loop loop_task_marks(1) [OF v, of st r] loop_task_marks(2) [OF v, of r st] show ?thesis
        by (intro same) auto
    qed
  next
    case (st_mark j)
    with same gone [of "s_gos s ! j"] go_mark_marks(1) [OF gv, of j r] show ?thesis
      by (cases "r = g_tw (s_gos s ! j)"; cases "g_step (s_gos s ! j) = StepSetup") simp_all
  next
    case (st_after j err)
    with same gone [of "s_gos s ! j"] go_after_marks(1) [OF gv, of j err r] show ?thesis
      by (cases "r = g_tw (s_gos s ! j)"; cases "g_step (s_gos s ! j) = StepSetup"; cases err) simp_all
  next
    case (st_begin j)
    with same go_begin_marks(1) [OF gv, of j r] show ?thesis by simp
  qed (use run same in \<open>simp_all add: marks_def set_mgr_ctxs_running [OF running]\<close>)
qed

section \<open>Setup first\<close>

text \<open>
  The start mark of a task is only set over its setup mark, and the setup mark of a task that has the
  step is set by its goroutine.
\<close>

definition life_inv :: "('w \<Rightarrow> bool) \<Rightarrow> 'w sys \<Rightarrow> bool" where
  "life_inv I s \<longleftrightarrow> ready_inv I s \<and> (\<forall>r. valid s r \<longrightarrow>
     (StepStart \<in> marks s r \<longrightarrow> StepSetup \<in> marks s r) \<and>
     (has_setup_in I (task_of s r) \<and> StepSetup \<in> marks s r \<longrightarrow> (StepSetup, r) \<in> set (keys s)))"

lemma loop_task_marks_at:
  assumes "valid s (hd ss, i)" and "st' \<in> marks (loop_task st ss i s) (hd ss, i)" and "st' \<notin> marks s (hd ss, i)"
  shows "st' = st \<and> \<not> internalCanStartStep (tw_at (s_tasks s) (hd ss, i)) (s_world s) st \<and>
    (\<forall>p. prev_step st = Some p \<longrightarrow> p \<in> marks s (hd ss, i))"
proof -
  let ?tw = "tw_at (s_tasks s) (hd ss, i)"
  have "marks (loop_task st ss i s) (hd ss, i) = set (tw_executeSteps (fst (checkStartStep ?tw (s_world s) st)))"
    using assms(1) by (simp add: marks_def loop_task_tasks tw_at_update)
  with assms(2,3) show ?thesis
    by (cases st) (auto simp: checkStartStep_def Let_def marks_def internalAddStepDone_def internalStepIsDone_def
        split: if_splits sum.splits)
qed

lemma life_inv_step:
  assumes step: "step_in I s a s'" and inv: "life_inv I s"
  shows "life_inv I s'"
proof -
  have sys: "sys_step s a s'" and w: "I (s_world s')" using step by (simp_all add: step_in_def)
  have ready: "ready_inv I s" using inv by (simp add: life_inv_def)
  then have run: "run_inv s" and sch: "sched_inv s" and now: "I (s_world s)"
    using outcome_sched by (auto simp: ready_inv_def complete_inv_def outcome_inv_def dest: ctx_invD)
  have ready': "ready_inv I s'" by (rule ready.inv_step [OF ready step])
  show ?thesis
  proof (cases "s_pc s = PIdle")
    case True
    have sch': "sched_inv s'" using ready' outcome_sched by (auto simp: ready_inv_def complete_inv_def)
    have "s_pc s' = PIdle \<or> s_pc s' = PEntered" using sched_flow [OF sch sys] True by (auto elim: flow.cases)
    then have "\<not> passed (s_stages s') (s_pc s') st r" for st r by (auto simp: passed_def)
    then have "marks s' r = {}" if "valid s' r" for r using sched_invD(10) [OF sch' that] by blast
    with ready' show ?thesis by (simp add: life_inv_def)
  next
    case False
    note fixed = step_task_fixed [OF sys sch False]
    have link: "link_inv s" by (rule run_invD(6) [OF run])
    have "(StepStart \<in> marks s' r \<longrightarrow> StepSetup \<in> marks s' r) \<and>
      (has_setup_in I (task_of s' r) \<and> StepSetup \<in> marks s' r \<longrightarrow> (StepSetup, r) \<in> set (keys s'))" if v': "valid s' r" for r
    proof -
      have v: "valid s r" and t: "task_of s' r = task_of s r" using fixed v' by simp_all
      have mono: "(StepSetup, r) \<in> set (keys s) \<Longrightarrow> (StepSetup, r) \<in> set (keys s')" by (rule step_keys_mono [OF sys])
      have old: "StepStart \<in> marks s r \<Longrightarrow> StepSetup \<in> marks s r"
        "has_setup_in I (task_of s r) \<Longrightarrow> StepSetup \<in> marks s r \<Longrightarrow> (StepSetup, r) \<in> set (keys s)"
        using inv v by (simp_all add: life_inv_def)
      show ?thesis
        using sys sch False
      proof (cases rule: step_marks [where r = r])
        case same
        with old mono t show ?thesis by auto
      next
        case (loop st ss i)
        have can: "has_setup_in I (task_of s r) \<Longrightarrow> st = StepSetup \<Longrightarrow>
            internalCanStartStep (tw_at (s_tasks s) (hd ss, i)) (s_world s) st"
          using now loop(2) by (simp add: internalCanStartStep_def has_setup_in_def)
        have vl: "valid s (hd ss, i)" using v loop by simp
        note at = loop_task_marks_at [OF vl, of _ st, folded loop(2,4)]
        note up = loop_task_marks(2) [OF vl, of r st, folded loop(4)]
        show ?thesis
        proof (intro conjI impI; (elim conjE)?)
          assume m: "StepStart \<in> marks s' r"
          show "StepSetup \<in> marks s' r" using at [OF m] old(1) up by (cases "StepStart \<in> marks s r") auto
        next
          assume h: "has_setup_in I (task_of s' r)" and m: "StepSetup \<in> marks s' r"
          show "(StepSetup, r) \<in> set (keys s')"
            using at [OF m] old(2) mono t h can loop(2) by (cases "StepSetup \<in> marks s r") auto
        qed
      next
        case (gone g)
        have "(g_step g, r) \<in> set (keys s)" using gone(1,2) by (auto simp: g_key_def)
        moreover have "g_step g = StepStart \<Longrightarrow> StepSetup \<in> marks s r"
          using link gone(1,2) by (auto simp: link_inv_def g_linked_def)
        ultimately show ?thesis using gone(3) old mono t by (auto simp del: set_map)
      qed
    qed
    with ready' show ?thesis by (simp add: life_inv_def)
  qed
qed

interpretation life: invariant_machine "step_in I" "initial_in I" "life_inv I" for I
proof
  show "life_inv I s" if "initial_in I s" for s :: "'a sys"
  proof -
    have "ready_inv I s" by (rule ready.inv_start [OF that])
    moreover have "marks s r = {}" if "valid s r" for r
      using \<open>initial_in I s\<close> that by (auto simp: initial_in_def initial_def idle_manager_def wrappers_fresh_def marks_def)
    ultimately show ?thesis by (simp add: life_inv_def)
  qed
qed (rule life_inv_step)

lemma reachable_life_inv: "reachable_in I s \<Longrightarrow> life_inv I s"
  unfolding reachable_in_def using life.inv_run by blast

text \<open>A goroutine of a start, stop or teardown step comes after the setup of its task.\<close>

lemma gone_after_setup:
  assumes inv: "life_inv I s" and link: "link_inv s" and g: "g \<in> set (s_gos s)" "g_step g \<noteq> StepSetup"
    and v: "valid s (g_tw g)" and t: "has_setup_in I (task_of s (g_tw g))" and known: "step_known (g_step g)"
  shows "EvReturn (g_tw g) StepSetup None \<in> set (s_trace s)"
proof -
  have "StepSetup \<in> marks s (g_tw g)"
    using link g known inv v by (cases "g_step g") (auto simp: link_inv_def g_linked_def life_inv_def)
  moreover from this have "(StepSetup, g_tw g) \<in> set (keys s)" using inv v t by (simp add: life_inv_def)
  then obtain h where h: "h \<in> set (s_gos s)" "g_step h = StepSetup" "g_tw h = g_tw g" by (auto simp: g_key_def)
  ultimately have "result (g_phase h) = Some None" using link by (auto simp: link_inv_def g_linked_def settled_def)
  then have "EvReturn (g_tw g) StepSetup None \<in> set (log_of s (StepSetup, g_tw g))"
    using link h by (auto simp: link_inv_def g_linked_def calls_at_def g_key_def)
  then show ?thesis using in_log [of "EvReturn (g_tw g) StepSetup None" "(StepSetup, g_tw g)" "s_trace s"] by simp
qed

text \<open>While the run shuts down, every tracked task was set up or skipped.\<close>

lemma covered_at_stop:
  assumes reach: "reachable_in I s" and g: "g \<in> set (s_gos s)" "g_step g = StepStop \<or> g_step g = StepTeardown"
    and v: "valid s r" and t: "tracked I (task_of s r)"
  shows "skipped_in (s_trace s) r \<or> returned_in (s_trace s) r StepSetup"
proof -
  note inv = reachable_life_inv [OF reach] and r = reachable_in_reachable [OF reach]
  have "\<not> ahead (s_stages s) (s_pc s) (g_step g) (fst (g_tw g)) \<and> fst (g_tw g) \<in> set (s_stages s)"
    using sched_invD(8) [OF invs(1) [OF r] g(1)] by (simp add: passed_def)
  then have pc: "due (s_stages s) (s_pc s) r \<and> \<not> in_stage (s_pc s) StepSetup (fst r)"
    using g(2) sched_invD(5) [OF invs(1) [OF r] v] sched_invD(2) [OF invs(1) [OF r]]
    by (cases "s_pc s") (auto split: step.splits)
  then have "covered s r" using inv v t by (simp add: life_inv_def ready_inv_def complete_inv_def cover_inv_def)
  then show ?thesis unfolding covered_def
  proof
    assume "(StepSetup, r) \<in> set (keys s)"
    then obtain h where h: "h \<in> set (s_gos s)" "g_step h = StepSetup" "g_tw h = r" by (auto simp: g_key_def)
    have "done_phase (g_phase h)" using invs(4) [OF r] h pc by (auto simp: barrier_inv_def waited_def)
    moreover have "g_phase h \<noteq> GDone None"
      using inv h tracked_has_setup [OF t] by (auto simp: life_inv_def ready_inv_def complete_inv_def calls_setup_def)
    ultimately obtain e where e: "result (g_phase h) = Some e" by (cases "g_phase h") auto
    have "log_of s (StepSetup, r) = calls_at h"
      using invs(2) [OF r] h by (auto simp: link_inv_def g_linked_def g_key_def)
    then have "EvReturn r StepSetup e \<in> set (log_of s (StepSetup, r))" using e h by (simp add: calls_at_def)
    then show ?thesis using in_log [of "EvReturn r StepSetup e" "(StepSetup, r)" "s_trace s"] by (auto simp: returned_in_iff)
  qed simp
qed

section \<open>Property\<close>

text \<open>
  C4: in every run, whatever the tasks and the schedule do, the start, the stop and the teardown step of a
  task that has a setup step are called only after its setup step was called and returned without an
  error.
\<close>

theorem setup_before_other_steps:
  assumes "reachable_in I s" and "s_trace s = later @ EvCall r st # before" and "st \<noteq> StepSetup"
    and "tw_valid (s_tasks s) r" and "has_setup_in I (tw_task (tw_at (s_tasks s) r))"
  shows "EvCall r StepSetup \<in> set before \<and> EvReturn r StepSetup None \<in> set before"
proof -
  let ?e = "m_enforceShutdownTimeout (s_mgr s)"
  note reach = reachable_in_reachable [OF assms(1)]
  note link = invs(2) [OF reach]
  have leg: "legal ?e (s_stages s) (s_trace s)" by (rule reachable_legal [OF reach])
  have "EvCall r st \<in> set (s_trace s)" using assms(2) by simp
  then obtain g where g: "g \<in> set (s_gos s)" "g_tw g = r" "g_step g = st" using called_goroutine [OF link] by metis
  have known: "step_known st" using sched_invD(7) [OF invs(1) [OF reach] g(1)] g(3) by simp
  have ret: "EvReturn r StepSetup None \<in> set (s_trace s)"
    using gone_after_setup [OF reachable_life_inv [OF assms(1)] link g(1)] g assms(3,4,5) known by simp
  have pre: "step_precedes ?e (s_stages s) StepSetup (fst r) st (fst r)"
    using assms(3) known by (cases st) (simp_all add: not_earlier_self)
  have "returned_in (s_trace s) r StepSetup" using ret by (auto simp: returned_in_iff)
  then have call: "EvCall r StepSetup \<in> set (s_trace s)"
    using legal_was_called [OF leg] by (auto simp: was_called_def)
  have before: "EvCall r StepSetup \<in> set before"
  proof (rule ccontr)
    assume "EvCall r StepSetup \<notin> set before"
    with call assms(2,3) have "EvCall r StepSetup \<in> set later" by auto
    then obtain l1 l2 where "s_trace s = l1 @ EvCall r StepSetup # (l2 @ EvCall r st # before)"
      using assms(2) by (auto dest: split_list)
    then have "call_ok ?e (s_stages s) (l2 @ EvCall r st # before) r StepSetup"
      using leg legal_suffix by fastforce
    with pre show False by (auto simp: call_ok_def)
  qed
  have "call_ok ?e (s_stages s) before r st" using leg legal_suffix unfolding assms(2) by fastforce
  then have "returned_in before r StepSetup" using before pre by (auto simp: call_ok_def)
  then obtain e where e: "EvReturn r StepSetup e \<in> set before" by (auto simp: returned_in_iff)
  moreover have "e = None"
  proof -
    obtain h where h: "h \<in> set (s_gos s)" "log_of s (StepSetup, r) = calls_at h" "g_tw h = r" "g_step h = StepSetup"
      using called_goroutine [OF link call] by metis
    have "EvReturn r StepSetup e' \<in> set (calls_at h)" if "EvReturn r StepSetup e' \<in> set (s_trace s)" for e'
      using in_log [of "EvReturn r StepSetup e'" "(StepSetup, r)" "s_trace s"] that h(2) by simp
    moreover have "EvReturn r StepSetup e \<in> set (s_trace s)" using e assms(2) by simp
    ultimately have "EvReturn r StepSetup e \<in> set (calls_at h)" "EvReturn r StepSetup None \<in> set (calls_at h)" using ret by simp_all
    then show ?thesis by (auto simp: calls_at_def split: option.splits if_splits)
  qed
  ultimately show ?thesis using before by simp
qed

theorem setup_before_other_steps_witness:
  "\<exists>s :: unit sys. reachable s \<and> (\<exists>later before. s_trace s = later @ EvCall (StageDefault, 0) StepTeardown # before \<and>
     EvReturn (StageDefault, 0) StepSetup None \<in> set before)"
proof -
  have "ends_in (\<lambda>s. EvCall (StageDefault, 0) StepTeardown \<in> set (s_trace s) \<and>
       tw_valid (s_tasks s) (StageDefault, 0) \<and>
       taskHasStep (tw_task (tw_at (s_tasks s) (StageDefault, 0))) StepSetup ()) good_run (one_task True [] allSteps)"
    by code_simp
  then obtain s :: "unit sys" where s: "reachable s" "tw_valid (s_tasks s) (StageDefault, 0)"
    "EvCall (StageDefault, 0) StepTeardown \<in> set (s_trace s)"
    "taskHasStep (tw_task (tw_at (s_tasks s) (StageDefault, 0))) StepSetup ()"
    by (rule reachable_end) auto
  then have t: "has_setup_in (\<lambda>_. True) (tw_task (tw_at (s_tasks s) (StageDefault, 0)))" by (simp add: has_setup_in_def)
  obtain later before where tr: "s_trace s = later @ EvCall (StageDefault, 0) StepTeardown # before"
    using s(3) by (auto dest: split_list)
  have "reachable_in (\<lambda>_. True) s" using s(1) by (simp add: reachable_in_True)
  from setup_before_other_steps [OF this tr _ s(2) t] s(1) tr show ?thesis by auto
qed

end
