(* ===== verification/Programs.thy ===== *)
theory Programs
  imports RunLife
begin

text \<open>
  Programs: managers whose tasks really run. The run machine lets a task return anything and change the
  world in any way; here a return is what the code of the task computes, on the world at that moment, and
  nothing else changes the world. An invariant of a program is a property of the trace and the world that
  every call of a task and every skip notification keeps.
\<close>

declare split_paired_All [simp del] split_paired_Ex [simp del]

section \<open>Real steps\<close>

text \<open>
  What is outside of the tasks: things that happen while a task runs (its own progress, the network),
  given as partial functions on the world, and when a call that waits for them may return. Both may
  look at the trace.
\<close>

record ('e, 'w) environment =
  env_do :: "'e \<Rightarrow> event list \<Rightarrow> 'w \<Rightarrow> 'w option"
  env_returns :: "event list \<Rightarrow> tref \<Rightarrow> step \<Rightarrow> 'w \<Rightarrow> bool"

text \<open>Nothing happens outside, and no call waits.\<close>

definition no_environment :: "(unit, 'w) environment" where
  "no_environment = \<lparr>env_do = \<lambda>_ _ _. None, env_returns = \<lambda>_ _ _ _. True\<rparr>"

text \<open>
  A task returns what \<open>run_call\<close> computes; the code of the program does not add tasks or errors after the
  registration, and no other code changes the world.
\<close>

definition real_return :: "nat \<Rightarrow> 'w sys \<Rightarrow> go_error option \<times> 'w" where
  "real_return j s =
     (let g = s_gos s ! j in run_call (g_ctx g) (g_step g) (tw_at (s_tasks s) (g_tw g)) (s_world s))"

definition may_return :: "('e, 'w) environment \<Rightarrow> nat \<Rightarrow> 'w sys \<Rightarrow> bool" where
  "may_return E j s = env_returns E (s_trace s) (g_tw (s_gos s ! j)) (g_step (s_gos s ! j)) (s_world s)"

fun real_action :: "('e, 'w) environment \<Rightarrow> 'w sys \<Rightarrow> 'w action \<Rightarrow> bool" where
  "real_action E s (AReturn j err w) = ((err, w) = real_return j s \<and> may_return E j s)"
| "real_action E s (AWorld w) = (\<exists>e. env_do E e (s_trace s) (s_world s) = Some w)"
| "real_action E s (AAddTask stage t opts) = False"
| "real_action E s (AAddInitError e) = False"
| "real_action E s _ = True"

definition real_step :: "('e, 'w) environment \<Rightarrow> 'w sys \<Rightarrow> 'w action \<Rightarrow> 'w sys \<Rightarrow> bool" where
  "real_step E s a s' \<longleftrightarrow> sys_step s a s' \<and> real_action E s a"

definition real_run :: "('e, 'w) environment \<Rightarrow> 'w sys \<Rightarrow> 'w sys \<Rightarrow> bool" where
  "real_run E s0 s \<longleftrightarrow> (\<exists>as. runs_to (real_step E) s0 as s)"

lemma real_runs_sys: "runs_to (real_step E) s as s' \<Longrightarrow> runs_to sys_step s as s'"
  by (induction rule: runs_to.induct) (auto simp: real_step_def intro: runs_to.intros)

lemma real_run_reachable: "real_run E s0 s \<Longrightarrow> initial s0 \<Longrightarrow> reachable s"
  unfolding real_run_def reachable_def using real_runs_sys by blast

text \<open>
  Schedules of a program: the actions of the run machine, with the results of the returns filled in, and
  the events of the environment.
\<close>

datatype ('e, 'w) move = Act "'w action" | Env 'e

fun harmless :: "'w action \<Rightarrow> bool" where
  "harmless (AWorld w) = False"
| "harmless (AAddTask stage t opts) = False"
| "harmless (AAddInitError e) = False"
| "harmless _ = True"

fun move_action :: "('e, 'w) environment \<Rightarrow> 'w sys \<Rightarrow> ('e, 'w) move \<Rightarrow> 'w action option" where
  "move_action E s (Env e) = map_option AWorld (env_do E e (s_trace s) (s_world s))"
| "move_action E s (Act (AReturn j err w)) =
     (if may_return E j s then Some (let (err', w') = real_return j s in AReturn j err' w') else None)"
| "move_action E s (Act a) = (if harmless a then Some a else None)"

fun exec_real :: "('e, 'w) environment \<Rightarrow> ('e, 'w) move list \<Rightarrow> 'w sys \<Rightarrow> 'w sys option" where
  "exec_real E [] s = Some s"
| "exec_real E (m # ms) s =
     (case move_action E s m of
        None \<Rightarrow> None
      | Some a \<Rightarrow> (case exec a s of None \<Rightarrow> None | Some s' \<Rightarrow> exec_real E ms s'))"

lemma move_action_real: "move_action E s m = Some a \<Longrightarrow> real_action E s a"
proof (cases m)
  case (Act a')
  assume "move_action E s m = Some a"
  with Act show ?thesis by (cases a') (auto split: if_splits prod.splits)
qed auto

lemma exec_real_run: "exec_real E ms s = Some s' \<Longrightarrow> real_run E s s'"
proof (induction ms arbitrary: s)
  case Nil
  then show ?case by (auto simp: real_run_def intro: runs_nil)
next
  case (Cons m ms)
  then obtain a t where t: "move_action E s m = Some a" "exec a s = Some t" "exec_real E ms t = Some s'"
    by (auto split: option.splits)
  have "real_step E s a t"
    using t move_action_real by (auto simp: real_step_def intro: exec_step)
  with Cons.IH [OF t(3)] show ?case unfolding real_run_def by (blast intro: runs_to_cons)
qed

section \<open>What a program keeps\<close>

text \<open>No callbacks, handlers or error handler: every change of the world is a call of a task.\<close>

definition bare :: "'w sys \<Rightarrow> bool" where
  "bare s \<longleftrightarrow> m_managerCallbacks (s_mgr s) = [] \<and> m_taskCallbacks (s_mgr s) = [] \<and> m_taskErrorHandler (s_mgr s) = None \<and>
     (\<forall>r. valid s r \<longrightarrow> handler (tw_addOptions (tw_at (s_tasks s) r)) = None \<and>
        callbacks (tw_addOptions (tw_at (s_tasks s) r)) = [])"

abbreviation opts_of :: "'w sys \<Rightarrow> tref \<Rightarrow> 'w taskOptions" where
  "opts_of s r \<equiv> tw_addOptions (tw_at (s_tasks s) r)"

lemma run_mark_opts [simp]:
  "tw_addOptions (run_mark st tw) = tw_addOptions tw" "tw_addOptions (run_mark_setup st e tw) = tw_addOptions tw"
  by (simp_all add: run_mark_def run_mark_setup_def)

lemma go_opts:
  assumes "valid s (g_tw (s_gos s ! j))"
  shows "opts_of (go_begin j s) r = opts_of s r" "opts_of (go_mark j s) r = opts_of s r"
    "opts_of (go_after j e s) r = opts_of s r"
  using assms
  by (auto simp: go_begin_def go_mark_def go_after_def begin_start_step_def begin_stop_step_def Let_def split_beta
      tw_at_update split: step.split)

lemma loop_task_opts: "valid s (hd ss, i) \<Longrightarrow> opts_of (loop_task st ss i s) r = opts_of s r"
  by (auto simp: loop_task_tasks tw_at_update)

lemma real_step_wiring:
  assumes "real_step E s a s'" and sch: "sched_inv s"
  shows "task_of s' r = task_of s r \<and> valid s' r = valid s r \<and> opts_of s' r = opts_of s r"
proof (cases "s_pc s = PIdle")
  case True
  have step: "sys_step s a s'" and act: "real_action E s a" using assms(1) by (simp_all add: real_step_def)
  have "s_gos s = []" using sched_inv_gos_idle [OF sch True] .
  with step True act have "s_tasks s' = s_tasks s"
    by (cases rule: sys_step.cases) (auto simp: run_enter_def set_mgr_ctxs_def Shutdown_def requestStartupCancel_def
        split: option.split)
  then show ?thesis by simp
next
  case False
  have step: "sys_step s a s'" using assms(1) by (simp add: real_step_def)
  have running: "m_isRunning (s_mgr s)" using sched_invD(4) [OF sch False] .
  have gv: "j < length (s_gos s) \<Longrightarrow> valid s (g_tw (s_gos s ! j))" for j
    using sched_invD(6) [OF sch] by simp
  from step have "opts_of s' r = opts_of s r"
  proof (cases rule: sys_step.cases)
    case (st_loop st ss i b)
    then have v: "valid s (hd ss, i)" by (simp add: tw_valid_def)
    with st_loop show ?thesis using loop_task_opts [OF v] by simp
  qed (use False gv in \<open>simp_all add: go_opts set_mgr_ctxs_running [OF running]\<close>)
  with step_task_fixed [OF step sch False] show ?thesis by simp
qed

lemma step_callback_fields:
  "sys_step s a s' \<Longrightarrow> m_managerCallbacks (s_mgr s') = m_managerCallbacks (s_mgr s) \<and>
     m_taskCallbacks (s_mgr s') = m_taskCallbacks (s_mgr s) \<and> m_taskErrorHandler (s_mgr s') = m_taskErrorHandler (s_mgr s)"
  by (induction rule: sys_step.induct)
    (simp_all add: run_enter_def set_mgr_ctxs_def Shutdown_def AddTask_def AddInitError_def addInitError_def
      requestStartupCancel_def split: option.split)

lemma bare_step: "real_step E s a s' \<Longrightarrow> sched_inv s \<Longrightarrow> bare s \<Longrightarrow> bare s'"
  using real_step_wiring [of E s a s'] step_callback_fields [of s a s']
  by (auto simp: bare_def real_step_def)

lemma bare_callbacks [simp]:
  "bare s \<Longrightarrow> s_world (runManagerCallbacks x st cs s) = s_world s"
  "bare s \<Longrightarrow> s_trace (runManagerCallbacks x st cs s) = s_trace s"
  "bare s \<Longrightarrow> s_world (stage_callbacks_after st x s) = s_world s"
  "bare s \<Longrightarrow> s_trace (stage_callbacks_after st x s) = s_trace s"
  "bare s \<Longrightarrow> valid s (g_tw g) \<Longrightarrow> s_world (task_callbacks g cs e s) = s_world s"
  "bare s \<Longrightarrow> valid s (g_tw g) \<Longrightarrow> s_trace (task_callbacks g cs e s) = s_trace s"
  by (simp_all add: bare_def runManagerCallbacks_def stage_callbacks_after_def task_callbacks_def runCallbacks_def
      currentOptions_def Let_def split_beta)

lemma bare_s_stepCb: "bare (s\<lparr>s_stepCb := b\<rparr>) = bare s"
  by (simp add: bare_def)

lemma bare_loop_task:
  assumes "bare s" and "valid s (hd ss, i)"
  shows "s_world (loop_task st ss i s) = s_world s" "s_trace (loop_task st ss i s) = s_trace s"
  using assms by (auto simp: loop_task_def Let_def split_beta spawn_def step_callback_once_def wg_add_def
      bare_def runManagerCallbacks_def set_tw_def split: sum.split)

text \<open>What a real step does to the world and the trace.\<close>

lemma real_step_cases:
  assumes real: "real_step E s a s'" and sch: "sched_inv s" and bare: "bare s"
  obtains (silent) "s_world s' = s_world s" "s_trace s' = s_trace s"
  | (call) r st where "s_world s' = s_world s" "s_trace s' = EvCall r st # s_trace s"
  | (return) g e where "g \<in> set (s_gos s)" "g_phase g = GRunning"
      "task_Run (task_of s (g_tw g)) (g_ctx g) (g_step g) (s_world s) = (e, s_world s')"
      "s_trace s' = EvReturn (g_tw g) (g_step g) e # s_trace s"
      "env_returns E (s_trace s) (g_tw g) (g_step g) (s_world s)"
  | (outside) e where "env_do E e (s_trace s) (s_world s) = Some (s_world s')" "s_trace s' = s_trace s"
  | (skip) s0 c ss e where "s_world s0 = s_world s" "s_trace s0 = s_trace s" "s_mgr s0 = s_mgr s"
      "s_world s' = s_world (notifyTasksSkipped c ss e s0)" "s_trace s' = s_trace (notifyTasksSkipped c ss e s0)"
proof -
  have step: "sys_step s a s'" and act: "real_action E s a" using real by (simp_all add: real_step_def)
  have gv: "j < length (s_gos s) \<Longrightarrow> valid s (g_tw (s_gos s ! j))" for j
    using sched_invD(6) [OF sch] by simp
  from step show thesis
  proof (cases rule: sys_step.cases)
    case (st_checks b)
    then show thesis using silent skip [of s "s_ctx s" "s_stages s"]
      by (auto simp: run_checks_def early_return_def Let_def split_beta split: if_splits)
  next
    case (st_before i co b)
    obtain st' co' er where f: "(m_beforeRun (s_mgr s) ! i) co (s_ctxs s) = (st', co', er)" by (metis prod_cases3)
    show thesis
    proof (cases "er \<noteq> None \<and> co' \<noteq> None")
      case True
      then obtain e c where "er = Some e" "co' = Some c" by blast
      with st_before f show thesis
        by (intro skip [of "s\<lparr>s_ctxs := st', s_ctx := c\<rparr>" c "s_stages s" "Some e"])
          (simp_all add: run_beforeRun_def early_return_def)
    next
      case False
      with st_before f show thesis by (intro silent) (auto simp: run_beforeRun_def split: option.split)
    qed
  next
    case (st_pending p b)
    have "start_loop (s_stages s) u = begin_stage StepSetup (s_stages s) (u\<lparr>s_setupErr := []\<rparr>)" for u :: "'b sys"
      using sched_invD(12) [OF sch] by (simp add: start_loop_def)
    with st_pending show thesis
      by (intro silent) (simp_all add: run_pending_def begin_stage_def cancel_opt_def split: option.split)
  next
    case (st_loop st ss i b)
    then have "valid s (hd ss, i)" by (simp add: tw_valid_def)
    with st_loop bare_loop_task [OF bare] show thesis by (intro silent) simp_all
  next
    case (st_stage_end st ss b)
    have at: "s_mgr (stage_callbacks_after st (hd ss) s) = s_mgr s"
      by (simp add: stage_callbacks_after_def runManagerCallbacks_def Let_def split_beta)
    show thesis
    proof (cases "st = StepSetup \<and> mb_hasErrors (s_setupErr (stage_callbacks_after st (hd ss) s))")
      case True
      with st_stage_end bare at show thesis
        by (intro skip [of "stage_callbacks_after st (hd ss) s"])
          (simp_all add: stage_end_def next_stage_def start_returns_def)
    next
      case False
      then have "s_world (next_stage st ss u) = s_world u \<and> s_trace (next_stage st ss u) = s_trace u"
        if "u = stage_callbacks_after st (hd ss) s" for u
        using that by (cases st) (auto simp: next_stage_def begin_stage_def start_loop_def start_returns_def
            notifyTasksSkipped_def stage_refs_def run_finish_def cancel_opt_def Let_def split_beta split: option.split)
      with st_stage_end bare show thesis by (intro silent) (simp_all add: stage_end_def)
    qed
  next
    case (st_check j)
    then show thesis using bare gv by (intro silent) (simp_all add: go_check_def Let_def)
  next
    case (st_call j)
    then show thesis by (intro call) (simp_all add: go_call_def Let_def)
  next
    case (st_return j err w)
    let ?g = "s_gos s ! j"
    have v: "valid s (g_tw ?g)" using gv st_return by simp
    have "task_Run (task_of s (g_tw ?g)) (g_ctx ?g) (g_step ?g) (s_world s) = (err, w)"
      using act st_return bare v by (simp add: real_return_def run_call_def currentOptions_def bare_def Let_def)
    moreover have "env_returns E (s_trace s) (g_tw ?g) (g_step ?g) (s_world s)" using act st_return by (simp add: may_return_def)
    ultimately show thesis using st_return bare
      by (intro return [of ?g err]) (simp_all add: go_return_def run_handle_error_def bare_def Let_def)
  next
    case (st_world w)
    then show thesis using act outside by auto
  next
    case (st_after j err)
    let ?s = "set_tw (g_tw (s_gos s ! j)) (run_mark_setup (g_step (s_gos s ! j)) err (tw_at (s_tasks s) (g_tw (s_gos s ! j)))) s"
    have "bare ?s" using bare gv [of j] st_after by (auto simp: bare_def tw_at_update)
    then show thesis using st_after gv by (intro silent) (simp_all add: go_after_def Let_def)
  qed (use act in \<open>auto intro!: silent simp: run_enter_def set_mgr_ctxs_def ssm_user_cancel_def Let_def\<close>)
qed

section \<open>Invariants of a program\<close>

lemma legal_append: "legal b all (later @ before) \<Longrightarrow> legal b all before"
  by (induction later) auto

lemma notify_trace: "\<exists>l. s_trace (fold (notify_one c e) rs s) = l @ s_trace s"
proof (induction rs arbitrary: s)
  case Nil
  then show ?case by simp
next
  case (Cons r rs)
  from Cons.IH [of "notify_one c e r s"] show ?case
    by (auto simp: notify_one_def split: option.splits)
qed

text \<open>
  What a step of a task may rely on, in the trace before it returns. \<open>T\<close> gives the task of each reference
  of \<open>V\<close>. A setup or start step comes after the setup steps of the earlier stages (a start step also
  after those of the own stage), a step after the setup of its own task, and while the run shuts down
  every task was set up or skipped.
\<close>

definition may_rely_on :: "bool \<Rightarrow> string list \<Rightarrow> (tref \<Rightarrow> bool) \<Rightarrow> (tref \<Rightarrow> 'w task) \<Rightarrow> ('w \<Rightarrow> bool) \<Rightarrow>
    event list \<Rightarrow> tref \<Rightarrow> step \<Rightarrow> bool" where
  "may_rely_on enforce all V T I t r st \<longleftrightarrow>
     (st = StepSetup \<or> st = StepStart \<longrightarrow> (\<forall>r'. V r' \<and> has_setup_in I (T r') \<and>
        step_precedes enforce all StepSetup (fst r') st (fst r) \<longrightarrow> setup_succeeded t r')) \<and>
     (st \<noteq> StepSetup \<and> has_setup_in I (T r) \<longrightarrow> EvReturn r StepSetup None \<in> set t) \<and>
     (st = StepStop \<or> st = StepTeardown \<longrightarrow>
        (\<forall>r'. V r' \<and> tracked I (T r') \<longrightarrow> skipped_in t r' \<or> returned_in t r' StepSetup))"

text \<open>\<open>P\<close> relates the trace and the world; its laws say that it is kept by what may happen next.\<close>

locale program =
  fixes E :: "('e, 'w) environment" and enforce :: bool and all :: "string list" and V :: "tref \<Rightarrow> bool"
    and T :: "tref \<Rightarrow> 'w task" and I :: "'w \<Rightarrow> bool" and P :: "event list \<Rightarrow> 'w \<Rightarrow> bool"
  assumes keeps_world: "P t w \<Longrightarrow> I w"
    and keeps_call: "P t w \<Longrightarrow> P (EvCall r st # t) w"
    and keeps_outside: "P t w \<Longrightarrow> env_do E ev t w = Some w' \<Longrightarrow> P t w'"
    and keeps_return: "\<lbrakk>P t w; V r; was_called t r st; \<not> returned_in t r st; \<not> skipped_in t r;
      may_rely_on enforce all V T I t r st; env_returns E t r st w; task_Run (T r) c st w = (e, w')\<rbrakk> \<Longrightarrow>
        P (EvReturn r st e # t) w'"
    and keeps_skip: "\<lbrakk>P t w; V r; \<not> skipped_in t r; \<And>st. \<not> was_called t r st; \<And>st. \<not> returned_in t r st;
      ti_Skipped (GetTaskInfo (T r) w) = Some f\<rbrakk> \<Longrightarrow> P (EvSkipped r cause # t) (f c cause w)"
begin

definition runs :: "'w sys \<Rightarrow> bool" where
  "runs s \<longleftrightarrow> reachable_in I s \<and> bare s \<and> (\<forall>r. valid s r = V r) \<and> (\<forall>r. V r \<longrightarrow> task_of s r = T r) \<and>
     m_enforceShutdownTimeout (s_mgr s) = enforce \<and> s_stages s = all \<and> P (s_trace s) (s_world s)"

lemma keeps_fold:
  assumes "\<forall>r\<in>set rs. V r" and "\<And>r. V r \<Longrightarrow> task_of s r = T r" and "P (s_trace s) (s_world s)"
    and "legal enforce all (s_trace (fold (notify_one c e) rs s))"
  shows "P (s_trace (fold (notify_one c e) rs s)) (s_world (fold (notify_one c e) rs s))"
  using assms
proof (induction rs arbitrary: s)
  case Nil
  then show ?case by simp
next
  case (Cons r rs)
  let ?s = "notify_one c e r s"
  have V: "V r" and task: "task_of s r = T r" using Cons.prems(1,2) by auto
  obtain l where "s_trace (fold (notify_one c e) rs ?s) = l @ s_trace ?s" using notify_trace by blast
  then have leg: "legal enforce all (s_trace ?s)" using Cons.prems(4) legal_append [of enforce all l "s_trace ?s"] by simp
  have "P (s_trace ?s) (s_world ?s)"
  proof (cases "ti_Skipped (GetTaskInfo (T r) (s_world s))")
    case None
    with Cons.prems(3) task show ?thesis by (simp add: notify_one_def)
  next
    case (Some f)
    with leg task have "\<not> skipped_in (s_trace s) r" "\<And>st. \<not> was_called (s_trace s) r st"
      by (auto simp: notify_one_def was_called_def)
    moreover from this(2) leg Some task have "\<And>st. \<not> returned_in (s_trace s) r st"
      using legal_was_called [of enforce all "s_trace s" r] by (auto simp: notify_one_def)
    ultimately have "P (EvSkipped r e # s_trace s) (f c e (s_world s))"
      using keeps_skip [OF Cons.prems(3) V _ _ _ Some] by blast
    with Some task show ?thesis by (simp add: notify_one_def)
  qed
  moreover have "task_of ?s r' = T r'" if "V r'" for r' using Cons.prems(2) that by (simp add: notify_one_def split: option.split)
  ultimately show ?case using Cons.IH [of ?s] Cons.prems(1,4) by simp
qed

lemma returns_after:
  assumes reach: "reachable_in I s" and g: "g \<in> set (s_gos s)" "g_phase g = GRunning"
  shows "was_called (s_trace s) (g_tw g) (g_step g)" "\<not> returned_in (s_trace s) (g_tw g) (g_step g)"
    "\<not> skipped_in (s_trace s) (g_tw g)"
proof -
  note r = reachable_in_reachable [OF reach]
  have log: "log_of s (g_key g) = [EvCall (g_tw g) (g_step g)]"
    using invs(2) [OF r] g by (auto simp: link_inv_def g_linked_def calls_at_def)
  then have "EvCall (g_tw g) (g_step g) \<in> set (log_of s (g_key g))" by simp
  then have call: "EvCall (g_tw g) (g_step g) \<in> set (s_trace s)" by (auto simp: calls_of_def)
  show "was_called (s_trace s) (g_tw g) (g_step g)" using call by (simp add: was_called_def)
  show "\<not> returned_in (s_trace s) (g_tw g) (g_step g)"
  proof
    assume "returned_in (s_trace s) (g_tw g) (g_step g)"
    then obtain e where "EvReturn (g_tw g) (g_step g) e \<in> set (s_trace s)" by (auto simp: returned_in_iff)
    then have "EvReturn (g_tw g) (g_step g) e \<in> set (log_of s (g_key g))"
      using in_log [of "EvReturn (g_tw g) (g_step g) e" "g_key g" "s_trace s"] by (simp add: g_key_def)
    with log show False by simp
  qed
  show "\<not> skipped_in (s_trace s) (g_tw g)" using invs(7) [OF r] g(1) by (auto simp: skip_inv_def untouched_def)
qed

lemma relies:
  assumes runs: "runs s" and g: "g \<in> set (s_gos s)" "g_phase g = GRunning"
  shows "may_rely_on enforce all V T I (s_trace s) (g_tw g) (g_step g)"
proof -
  have d: "reachable_in I s" "\<And>r. valid s r = V r" "\<And>r. V r \<Longrightarrow> task_of s r = T r"
    "m_enforceShutdownTimeout (s_mgr s) = enforce" "s_stages s = all"
    using runs by (simp_all add: runs_def)
  note r = reachable_in_reachable [OF d(1)]
  have v: "valid s (g_tw g)" by (rule sched_invD(6) [OF invs(1) [OF r] g(1)])
  have "EvCall (g_tw g) (g_step g) \<in> set (s_trace s)" using returns_after(1) [OF d(1) g] by (simp add: was_called_def)
  then obtain l b where split: "s_trace s = l @ EvCall (g_tw g) (g_step g) # b" by (auto dest: split_list)
  have "setup_succeeded (s_trace s) r'" if "V r'" "has_setup_in I (T r')" "g_step g = StepSetup \<or> g_step g = StepStart"
    "step_precedes enforce all StepSetup (fst r') (g_step g) (fst (g_tw g))" for r'
    using earlier_stages_set_up [OF d(1) split that(3)] that d(2-5) split by (auto simp: setup_succeeded_def)
  moreover have "EvReturn (g_tw g) StepSetup None \<in> set (s_trace s)"
    if "g_step g \<noteq> StepSetup" "has_setup_in I (T (g_tw g))"
    using gone_after_setup [OF reachable_life_inv [OF d(1)] invs(2) [OF r] g(1) that(1) v _ sched_invD(7) [OF invs(1) [OF r] g(1)]]
      that(2) v d(2,3) by simp
  moreover have "skipped_in (s_trace s) r' \<or> returned_in (s_trace s) r' StepSetup"
    if "V r'" "tracked I (T r')" "g_step g = StepStop \<or> g_step g = StepTeardown" for r'
    using covered_at_stop [OF d(1) g(1) that(3)] that(1,2) d(2,3) by simp
  ultimately show ?thesis unfolding may_rely_on_def by blast
qed

lemma runs_step:
  assumes runs: "runs s" and real: "real_step E s a s'"
  shows "runs s'"
proof -
  have d: "reachable_in I s" "bare s" "\<And>r. valid s r = V r" "\<And>r. V r \<Longrightarrow> task_of s r = T r"
    "m_enforceShutdownTimeout (s_mgr s) = enforce" "s_stages s = all" "P (s_trace s) (s_world s)"
    using runs by (simp_all add: runs_def)
  note r = reachable_in_reachable [OF d(1)]
  note sch = invs(1) [OF r]
  have step: "sys_step s a s'" using real by (simp add: real_step_def)
  have w: "\<And>r. task_of s' r = task_of s r" "\<And>r. valid s' r = V r" using real_step_wiring [OF real sch] d(3) by simp_all
  have leg: "legal enforce all (s_trace s')"
    using invs(8) [OF reachable_step [OF r step]] step_enforce [OF step] step_stages [OF step] d(5,6)
    by (simp add: legal_inv_def)
  have P: "P (s_trace s') (s_world s')"
    using real sch d(2)
  proof (cases rule: real_step_cases)
    case silent
    with d(7) show ?thesis by simp
  next
    case (call r st)
    with keeps_call [OF d(7)] show ?thesis by simp
  next
    case (return g e)
    have v: "V (g_tw g)" using sched_invD(6) [OF sch return(1)] d(3) by simp
    show ?thesis unfolding return(4)
      by (rule keeps_return [OF d(7) v returns_after [OF d(1) return(1,2)] relies [OF runs return(1,2)] return(5)])
        (use return(3) d(4) v in simp)
  next
    case (outside ev)
    with keeps_outside [OF d(7)] show ?thesis by simp
  next
    case (skip s0 c ss e)
    let ?s0 = "s0\<lparr>s_ctxs := fst (ctx_WithoutCancel c (s_ctxs s0))\<rparr>" and ?c = "snd (ctx_WithoutCancel c (s_ctxs s0))"
    have n: "notifyTasksSkipped c ss e s0 = fold (notify_one ?c e) (stage_refs (s_tasks s) ss) ?s0"
      using skip(3) by (simp add: notifyTasksSkipped_def split_beta)
    show ?thesis unfolding skip(4,5) n
      using skip leg d by (intro keeps_fold) (auto simp: set_stage_refs n)
  qed
  have "reachable_in I s'"
    using d(1) step keeps_world [OF P] unfolding reachable_in_def
    by (blast intro: runs_to.runs_snoc step_in_def [THEN iffD2])
  with P w d bare_step [OF real sch d(2)] step_enforce [OF step] step_stages [OF step] show ?thesis by (simp add: runs_def)
qed

end

sublocale program \<subseteq> machine: invariant_machine "real_step E" runs runs
  by unfold_locales (auto intro: runs_step)

context program
begin

lemma runs_from:
  assumes "initial s0" and "bare s0" and "\<And>r. valid s0 r = V r" and "\<And>r. V r \<Longrightarrow> task_of s0 r = T r"
    and "m_enforceShutdownTimeout (s_mgr s0) = enforce" and "s_stages s0 = all" and "P [] (s_world s0)" and "real_run E s0 s"
  shows "runs s"
proof -
  have "runs s0"
    using assms keeps_world [OF assms(7)]
    by (auto simp: runs_def reachable_in_def initial_in_def initial_def intro: runs_to.runs_nil)
  moreover obtain as where "runs_to (real_step E) s0 as s" using assms(8) by (auto simp: real_run_def)
  ultimately show ?thesis using machine.inv_run by blast
qed

end

end
