(* ===== verification/FutureReady.thy ===== *)
theory FutureReady
  imports FutureTask RunReady Programs
begin

text \<open>
  The pattern that \<open>futuretask\<close> is for: a task of a stage resolves a future, and the tasks of the later
  stages read it. They never wait for it.
\<close>

declare split_paired_All [simp del] split_paired_Ex [simp del]

lemma reachable_returned_called:
  assumes "reachable s" and "s_trace s = later @ before"
  shows "legal (m_enforceShutdownTimeout (s_mgr s)) (s_stages s) before"
proof -
  have "legal b all (later @ before) \<Longrightarrow> legal b all before" for b all
    by (induction later) auto
  then show ?thesis using reachable_legal [OF assms(1)] assms(2) by metis
qed


text \<open>A future task in the first of two stages and a task in the second, in a run up to the setup of the latter.\<close>

definition ready_world :: "int cell \<times> int future_cell \<times> unit" where
  "ready_world = (snd demo_future, new_future_cell 0 chans_init, ())"

definition ready_sys :: "(int cell \<times> int future_cell \<times> unit) sys" where
  "ready_sys =
     (let ms = AddTask ''a'' (Some (instance_task (fst demo_future))) [] ready_world
                 (default_manager\<lparr>m_stages := [''a'', ''b'']\<rparr>, background);
          (m, st) = AddTask ''b'' (Some (TaskFunc (\<lambda>_ _ w. (None, w)))) [] ready_world ms
      in initial_sys m st ready_world)"

definition ready_run :: "(int cell \<times> int future_cell \<times> unit) action list" where
  "ready_run = [ARun 0 None, AMain True, AMain True, AMain True, AMain True, AMain True, AGo 0, AGo 0, AGo 0, AGo 0,
     AReturn 0 None ready_world, AGo 0, AGo 0, AGo 0, AGo 0] @ replicate 6 (AMain True) @
     [AMain True, AMain True, AGo 1, AGo 1, AGo 1, AGo 1]"

lemma ready_run_ends:
  "case exec_in has_setup ready_run ready_sys of Some s \<Rightarrow>
      s_trace s = [EvCall (''b'', 0) StepSetup, EvReturn (''a'', 0) StepSetup None, EvCall (''a'', 0) StepSetup] \<and>
      s_stages s = [''a'', ''b''] \<and> tw_valid (s_tasks s) (''a'', 0) | None \<Rightarrow> False"
  by code_simp

lemma ready_world_has_setup: "has_setup ready_world"
  by code_simp

lemma ready_sys_initial: "initial ready_sys"
proof -
  have "startable (default_manager\<lparr>m_stages := [''a'', ''b'']\<rparr> :: (int cell \<times> int future_cell \<times> unit) manager, background)"
    by (simp add: startable_def background_wf idle_manager_def stages_ok_def default_manager_def newStageTasks_def
        wrappers_fresh_def tw_valid_def stageTasks_get_def)
  then show ?thesis unfolding ready_sys_def Let_def
    by (auto intro!: startable_initial split: prod.splits) (metis startable_AddTask)
qed

lemma runs_task_fixed: "runs_to sys_step s as s' \<Longrightarrow> reachable s \<Longrightarrow> s_pc s \<noteq> PIdle \<Longrightarrow> task_of s' r = task_of s r"
proof (induction rule: runs_to.induct)
  case (runs_nil s)
  then show ?case by simp
next
  case (runs_snoc s as t a u)
  have "reachable t" using reachable_runs [OF runs_snoc.hyps(1)] runs_snoc.prems by blast
  moreover have "s_pc t \<noteq> PIdle" using runs_not_idle [OF runs_snoc.hyps(1)] runs_snoc.prems by blast
  ultimately have "task_of u r = task_of t r" using step_task_fixed [OF runs_snoc.hyps(2) invs(1)] by blast
  with runs_snoc show ?case by simp
qed

lemma exec_in_task:
  assumes "exec_in I (ARun c opt # as) s = Some s'" and "initial s"
  shows "task_of s' r = task_of s r"
proof -
  obtain s1 where s1: "exec (ARun c opt) s = Some s1" "exec_in I as s1 = Some s'"
    using assms(1) by (auto split: option.splits if_splits)
  have step: "sys_step s (ARun c opt) s1" using s1 by (auto intro: exec_step)
  then have r1: "s_pc s1 \<noteq> PIdle" "task_of s1 r = task_of s r"
    by (auto elim!: sys_step.cases simp: run_enter_def split: if_splits)
  have "reachable s1" unfolding reachable_def using assms(2) step by (blast intro: runs_to_cons runs_nil)
  from runs_task_fixed [OF runs_step_in [OF exec_in_runs [OF s1(2)]] this r1(1)] r1(2) show ?thesis by simp
qed

lemma ready_sys_task: "task_of ready_sys (''a'', 0) = instance_task (fst demo_future)"
proof -
  have i: "ti_InitError (GetTaskInfo (instance_task (fst demo_future)) ready_world) = None"
    using demo_future_init by (simp add: ready_world_def)
  have "AddTask ''a'' (Some (instance_task (fst demo_future))) [] ready_world (default_manager\<lparr>m_stages := [''a'', ''b'']\<rparr>, background) =
      ((default_manager\<lparr>m_stages := [''a'', ''b'']\<rparr>)\<lparr>m_tasks := stageTasks_add ''a''
        (newTaskWrapper (instance_task (fst demo_future)) []) newStageTasks\<rparr>, background)"
    by (subst AddTask_valid [OF _ i]) (simp_all add: default_manager_def)
  then show ?thesis
    by (simp add: ready_sys_def AddTask_valid GetTaskInfo_def TaskFunc_def zero_task_info_def default_manager_def
        initial_sys_def tw_at_def newTaskWrapper_def)
qed


end
