(* ===== verification/K8s.thy ===== *)
theory K8s
  imports RunEarly Build DefaultTasks Health
begin

text \<open>
  \<open>k8sinit\<close>: a manager with four fixed stages, enforced timeouts, a signal task and the registration of
  the health and telemetry parts. The two handler fields are read by closures while the manager runs,
  so they are a part of the world of the tasks, beside the world of the user; the other fields are the
  record of the manager. Logging is left out.
\<close>

declare split_paired_All [simp del] split_paired_Ex [simp del]

section \<open>Stages and names\<close>

definition StageManagement :: string where "StageManagement = ''management''"
definition StageInitialize :: string where "StageInitialize = ''initialize''"
definition StageReady :: string where "StageReady = ''ready''"
definition StageService :: string where "StageService = ''service''"

definition allStages :: "string list" where
  "allStages = [StageManagement, StageInitialize, StageReady, StageService]"

definition TaskNameHealthStartedProbe :: string where
  "TaskNameHealthStartedProbe = ''health: started probe''"

definition TaskNameHealthTerminatingProbe :: string where
  "TaskNameHealthTerminatingProbe = ''health: terminating probe''"

definition TaskNameTelemetryFlush :: string where
  "TaskNameTelemetryFlush = ''telemetry: flush''"

lemmas stage_defs = StageManagement_def StageInitialize_def StageReady_def StageService_def

lemma allStages_ok: "stages_ok allStages"
  by (simp add: stages_ok_def allStages_def stage_defs)

section \<open>Telemetry handlers\<close>

text \<open>A \<open>TelemetryHandler\<close> is its one method, on the world.\<close>

record 'w telemetryHandler =
  th_FlushTelemetry :: "ctx \<Rightarrow> 'w \<Rightarrow> go_error option \<times> 'w"

record 'w buildTelemetryHandler =
  bt_flushTelemetry :: "(ctx \<Rightarrow> 'w \<Rightarrow> go_error option \<times> 'w) option"

definition WithTelemetryHandlerFlushTelemetry ::
  "(ctx \<Rightarrow> 'w \<Rightarrow> go_error option \<times> 'w) option \<Rightarrow> 'w buildTelemetryHandler \<Rightarrow> 'w buildTelemetryHandler" where
  "WithTelemetryHandlerFlushTelemetry f build = build\<lparr>bt_flushTelemetry := f\<rparr>"

definition buildTelemetryHandler_FlushTelemetry ::
  "'w buildTelemetryHandler \<Rightarrow> ctx \<Rightarrow> 'w \<Rightarrow> go_error option \<times> 'w" where
  "buildTelemetryHandler_FlushTelemetry t c w =
     (case bt_flushTelemetry t of None \<Rightarrow> (None, w) | Some f \<Rightarrow> f c w)"

definition BuildTelemetryHandler ::
  "('w buildTelemetryHandler \<Rightarrow> 'w buildTelemetryHandler) list \<Rightarrow> 'w telemetryHandler" where
  "BuildTelemetryHandler options =
     (let ret = fold (\<lambda>opt. opt) options \<lparr>bt_flushTelemetry = None\<rparr>
      in \<lparr>th_FlushTelemetry = buildTelemetryHandler_FlushTelemetry ret\<rparr>)"

definition noopTelemetryHandler :: "'w telemetryHandler" where
  "noopTelemetryHandler = \<lparr>th_FlushTelemetry = (\<lambda>_ w. (None, w))\<rparr>"

definition noopHealthHandler :: "'w healthHandler" where
  "noopHealthHandler = \<lparr>hh_ServiceStarted = (\<lambda>_ w. w), hh_ServiceTerminating = (\<lambda>_ w. w)\<rparr>"

section \<open>The manager\<close>

text \<open>The fields \<open>healthHandler\<close> and \<open>telemetryHandler\<close>; the handlers act on the world \<open>'x\<close> of the user.\<close>

record 'x k8s_handlers =
  kh_healthHandler :: "'x healthHandler"
  kh_telemetryHandler :: "'x telemetryHandler"

type_synonym 'x k8s_world = "'x k8s_handlers \<times> 'x"

text \<open>The fields that the options of \<open>New\<close> set, and then the whole manager.\<close>

record 'x k8s_config =
  k_logger :: nat
  k_managerOptions :: "'x k8s_world manager_option list"
  k_shutdownTimeout :: duration
  k_teardownTimeout :: duration
  k_handleSignals :: "string list"
  k_disableSignalHandling :: bool

record 'x k8s_manager = "'x k8s_config" +
  k_manager :: "'x k8s_world manager"
  k_healthHandlerSet :: bool
  k_healthTask :: "'x k8s_world task option"
  k_telemetryHandlerSet :: bool
  k_telemetryTask :: "'x k8s_world task option"

type_synonym 'x k8s_option = "'x k8s_config \<Rightarrow> 'x k8s_config"

definition k8s_WithLogger :: "nat \<Rightarrow> 'x k8s_option" where
  "k8s_WithLogger logger m =
     m\<lparr>k_logger := logger, k_managerOptions := k_managerOptions m @ [WithLogger logger]\<rparr>"

definition k8s_WithShutdownTimeout :: "duration \<Rightarrow> 'x k8s_option" where
  "k8s_WithShutdownTimeout d m = m\<lparr>k_shutdownTimeout := d\<rparr>"

definition k8s_WithTeardownTimeout :: "duration \<Rightarrow> 'x k8s_option" where
  "k8s_WithTeardownTimeout d m = m\<lparr>k_teardownTimeout := d\<rparr>"

definition WithManagerOptions :: "'x k8s_world manager_option list \<Rightarrow> 'x k8s_option" where
  "WithManagerOptions options m = m\<lparr>k_managerOptions := k_managerOptions m @ options\<rparr>"

definition WithHandleSignals :: "string list \<Rightarrow> 'x k8s_option" where
  "WithHandleSignals signals m = m\<lparr>k_handleSignals := signals\<rparr>"

definition WithDisableSignalHandling :: "'x k8s_option" where
  "WithDisableSignalHandling m = m\<lparr>k_disableSignalHandling := True\<rparr>"

definition default_config :: "'x k8s_config" where
  "default_config = \<lparr>k_logger = 0, k_managerOptions = [], k_shutdownTimeout = second * 20,
     k_teardownTimeout = second * 5, k_handleSignals = [''interrupt'', ''terminated''],
     k_disableSignalHandling = False\<rparr>"

definition default_handlers :: "'x k8s_handlers" where
  "default_handlers = \<lparr>kh_healthHandler = noopHealthHandler, kh_telemetryHandler = noopTelemetryHandler\<rparr>"

text \<open>
  The state of a program that holds the manager: the manager, the contexts, and the handler fields.
  An operation of the inner manager works on the first two.
\<close>

type_synonym 'x k8s_state = "'x k8s_manager \<times> ctxs \<times> 'x k8s_handlers"

definition on_manager ::
  "('x k8s_world manager \<times> ctxs \<Rightarrow> 'x k8s_world manager \<times> ctxs) \<Rightarrow> 'x k8s_state \<Rightarrow> 'x k8s_state" where
  "on_manager f = (\<lambda>(m, st, h). let (mg, st') = f (k_manager m, st) in (m\<lparr>k_manager := mg\<rparr>, st', h))"

definition k8s_AddTask ::
  "string \<Rightarrow> 'x k8s_world task option \<Rightarrow> 'x k8s_world task_option list \<Rightarrow> 'x \<Rightarrow> 'x k8s_state \<Rightarrow> 'x k8s_state" where
  "k8s_AddTask stage task options x = (\<lambda>(m, st, h).
     on_manager (AddTask stage task options (h, x)) (m, st, h))"

text \<open>\<open>env\<close> says what the \<open>select\<close> of the signal task receives.\<close>

definition enforced_options :: "'x k8s_config \<Rightarrow> 'x k8s_world manager_option list" where
  "enforced_options c = [WithStages allStages, WithEnforceShutdownTimeout True,
     WithShutdownTimeout (k_shutdownTimeout c), WithTeardownTimeout (k_teardownTimeout c)]"

definition new_k8s_manager :: "'x k8s_config \<Rightarrow> 'x k8s_world manager \<Rightarrow> 'x k8s_manager" where
  "new_k8s_manager c mg =
     \<lparr>k_logger = k_logger c, k_managerOptions = k_managerOptions c, k_shutdownTimeout = k_shutdownTimeout c,
      k_teardownTimeout = k_teardownTimeout c, k_handleSignals = k_handleSignals c,
      k_disableSignalHandling = k_disableSignalHandling c, k_manager = mg, k_healthHandlerSet = False,
      k_healthTask = None, k_telemetryHandlerSet = False, k_telemetryTask = None\<rparr>"

definition k8s_New ::
  "(ctx \<Rightarrow> 'x k8s_world \<Rightarrow> signal_wake \<times> 'x k8s_world) \<Rightarrow> 'x k8s_option list \<Rightarrow> 'x \<Rightarrow> ctxs \<Rightarrow>
    go_error + 'x k8s_state" where
  "k8s_New env options x st =
     (let ret = fold (\<lambda>opt. opt) options default_config
      in case New (k_managerOptions ret @ enforced_options ret) of
           Inl err \<Rightarrow> Inl err
         | Inr mg \<Rightarrow>
             (let s = (new_k8s_manager ret mg, st, default_handlers)
              in Inr (if \<not> k_disableSignalHandling ret \<and> length (k_handleSignals ret) > 0
                      then k8s_AddTask StageManagement (Some (signal_task env (SignalTask (k_handleSignals ret)))) [] x s
                      else s)))"

text \<open>The methods that only call the inner manager.\<close>

definition k8s_Stages :: "'x k8s_manager \<Rightarrow> string list" where
  "k8s_Stages m = Stages (k_manager m)"

definition k8s_IsRunning :: "'x k8s_manager \<Rightarrow> bool" where
  "k8s_IsRunning m = IsRunning (k_manager m)"

definition k8s_InitAddTask ::
  "string \<Rightarrow> ('x k8s_world \<Rightarrow> 'x k8s_world task option \<times> 'x k8s_world) \<Rightarrow> 'x k8s_world task_option list \<Rightarrow> 'x \<Rightarrow>
    'x k8s_state \<Rightarrow> 'x k8s_world task option \<times> 'x \<times> 'x k8s_state" where
  "k8s_InitAddTask stage init_fn options x = (\<lambda>(m, st, h).
     case InitAddTask stage init_fn options (h, x) (k_manager m, st) of
       (task, (h', x'), mg, st') \<Rightarrow> (task, x', m\<lparr>k_manager := mg\<rparr>, st', h'))"

definition k8s_InitCheckAddTask ::
  "string \<Rightarrow> ('x k8s_world \<Rightarrow> 'x k8s_world task option \<times> go_error option \<times> 'x k8s_world) \<Rightarrow>
    'x k8s_world task_option list \<Rightarrow> 'x \<Rightarrow>
    'x k8s_state \<Rightarrow> ('x k8s_world task option \<times> go_error option) \<times> 'x \<times> 'x k8s_state" where
  "k8s_InitCheckAddTask stage init_fn options x = (\<lambda>(m, st, h).
     case InitCheckAddTask stage init_fn options (h, x) (k_manager m, st) of
       (r, (h', x'), mg, st') \<Rightarrow> (r, x', m\<lparr>k_manager := mg\<rparr>, st', h'))"

definition k8s_AddTaskFunc ::
  "string \<Rightarrow> (ctx \<Rightarrow> step \<Rightarrow> 'x k8s_world \<Rightarrow> go_error option \<times> 'x k8s_world) \<Rightarrow> 'x k8s_world task_option list \<Rightarrow>
    'x \<Rightarrow> 'x k8s_state \<Rightarrow> 'x k8s_state" where
  "k8s_AddTaskFunc stage f options x = (\<lambda>(m, st, h).
     on_manager (AddTaskFunc stage f options (h, x)) (m, st, h))"

definition k8s_AddService ::
  "string \<Rightarrow> 'x k8s_world service option \<Rightarrow> 'x k8s_world task_option list \<Rightarrow> 'x \<Rightarrow> 'x k8s_state \<Rightarrow> 'x k8s_state" where
  "k8s_AddService stage service options x = (\<lambda>(m, st, h).
     on_manager (AddService stage service options (h, x)) (m, st, h))"

definition k8s_Shutdown :: "'x k8s_state \<Rightarrow> 'x k8s_state" where
  "k8s_Shutdown = on_manager Shutdown"

text \<open>\<open>Run\<close> and \<open>RunWithStopErrors\<close>: the inner manager runs, from this state of the run machine.\<close>

definition k8s_run_state :: "'x \<Rightarrow> 'x k8s_state \<Rightarrow> 'x k8s_world sys" where
  "k8s_run_state x = (\<lambda>(m, st, h). initial_sys (k_manager m) st (h, x))"

section \<open>Health\<close>

text \<open>The closures read the handler field when they run.\<close>

definition started_probe :: "'x k8s_world \<Rightarrow> 'x k8s_world task" where
  "started_probe w = BuildTask [StepSetup] w
     [WithSetup (Some (\<lambda>c (h, x). (None, (h, hh_ServiceStarted (kh_healthHandler h) c x)))),
      WithName TaskNameHealthStartedProbe]"

definition terminating_probe :: "'x k8s_world \<Rightarrow> 'x k8s_world task" where
  "terminating_probe w = BuildTask [StepStop] w
     [WithStop (Some (\<lambda>c (h, x). (None, (h, hh_ServiceTerminating (kh_healthHandler h) c x)))),
      WithName TaskNameHealthTerminatingProbe]"

definition k8s_addInitError :: "string \<Rightarrow> sentinel \<Rightarrow> 'x k8s_state \<Rightarrow> 'x k8s_state" where
  "k8s_addInitError msg e = on_manager (AddInitError (Some (Errorf (''%w: '' @ msg) [defs_err e])))"

definition SetHealthHandler ::
  "'x healthHandler option \<Rightarrow> 'x k8s_world task_option list \<Rightarrow> 'x \<Rightarrow> 'x k8s_state \<Rightarrow> 'x k8s_state" where
  "SetHealthHandler given options x = (\<lambda>(m, st, h).
     case given of
       None \<Rightarrow> k8s_addInitError ''health handler cannot be nil'' ErrInitialization (m, st, h)
     | Some hn \<Rightarrow>
         (if k_healthHandlerSet m
          then k8s_addInitError ''health handler was already set'' ErrAlreadyInitialized (m, st, h)
          else (let h' = h\<lparr>kh_healthHandler := hn\<rparr>;
                    s1 = (m\<lparr>k_healthHandlerSet := True\<rparr>, st, h');
                    s2 = k8s_AddTask StageReady (Some (started_probe (h', x))) options x s1
                in k8s_AddTask StageService (Some (terminating_probe (h', x))) options x s2)))"

definition SetHealthTask ::
  "'x k8s_world task option \<Rightarrow> 'x k8s_world task_option list \<Rightarrow> 'x \<Rightarrow> 'x k8s_state \<Rightarrow> 'x k8s_state" where
  "SetHealthTask task options x = (\<lambda>(m, st, h).
     if k_healthTask m \<noteq> None
     then k8s_addInitError ''health task was already set'' ErrAlreadyInitialized (m, st, h)
     else k8s_AddTask StageManagement task options x (m\<lparr>k_healthTask := task\<rparr>, st, h))"

section \<open>Telemetry\<close>

text \<open>Here the method value binds the handler when the task is built.\<close>

definition flush_task :: "'x telemetryHandler \<Rightarrow> 'x k8s_world \<Rightarrow> 'x k8s_world task" where
  "flush_task hn w = BuildTask [StepStop] w
     [WithStop (Some (\<lambda>c (h, x). let (err, x') = th_FlushTelemetry hn c x in (err, (h, x')))),
      WithName TaskNameTelemetryFlush]"

definition SetTelemetryHandler ::
  "'x telemetryHandler option \<Rightarrow> 'x k8s_world task_option list \<Rightarrow> 'x \<Rightarrow> 'x k8s_state \<Rightarrow> 'x k8s_state" where
  "SetTelemetryHandler given options x = (\<lambda>(m, st, h).
     case given of
       None \<Rightarrow> k8s_addInitError ''telemetry handler cannot be nil'' ErrInitialization (m, st, h)
     | Some hn \<Rightarrow>
         (if k_telemetryHandlerSet m
          then k8s_addInitError ''telemetry handler was already set'' ErrAlreadyInitialized (m, st, h)
          else (let h' = h\<lparr>kh_telemetryHandler := hn\<rparr>
                in k8s_AddTask StageService (Some (flush_task (kh_telemetryHandler h') (h', x))) options x
                     (m\<lparr>k_telemetryHandlerSet := True\<rparr>, st, h'))))"

definition SetTelemetryTask ::
  "'x k8s_world task option \<Rightarrow> 'x k8s_world task_option list \<Rightarrow> 'x \<Rightarrow> 'x k8s_state \<Rightarrow> 'x k8s_state" where
  "SetTelemetryTask task options x = (\<lambda>(m, st, h).
     if k_telemetryTask m \<noteq> None
     then k8s_addInitError ''telemetry task was already set'' ErrAlreadyInitialized (m, st, h)
     else k8s_AddTask StageManagement task options x (m\<lparr>k_telemetryTask := task\<rparr>, st, h))"

section \<open>Laws\<close>

text \<open>A program that holds a manager whose run has not started.\<close>

definition k8s_ready :: "'x k8s_state \<Rightarrow> bool" where
  "k8s_ready = (\<lambda>(m, st, h). idle_manager (k_manager m) \<and> m_stages (k_manager m) = allStages \<and>
     m_enforceShutdownTimeout (k_manager m) \<and>
     (\<forall>f\<in>set (m_beforeRun (k_manager m)). before_run_ok f) \<and> ctxs_wf st)"

lemma on_AddTask:
  "k8s_AddTask stage t options x (m, st, h) =
     (let (mg, st') = AddTask stage t options (h, x) (k_manager m, st) in (m\<lparr>k_manager := mg\<rparr>, st', h))"
  by (simp add: k8s_AddTask_def on_manager_def)

lemma k8s_readyD:
  assumes "k8s_ready (m, st, h)"
  shows "idle_manager (k_manager m)" "\<not> m_isRunning (k_manager m)" "m_stages (k_manager m) = allStages"
  using assms idle_not_running by (auto simp: k8s_ready_def)

lemma k8s_AddTask_ready [simp]:
  assumes "k8s_ready s"
  shows "k8s_ready (k8s_AddTask stage t options x s)"
proof -
  obtain m st h where s: "s = (m, st, h)" by (metis prod_cases3)
  with assms AddTask_idle [of "k_manager m" stage t options "(h, x)" st] AddTask_config [of "k_manager m" stage t options "(h, x)" st]
  show ?thesis by (simp add: k8s_ready_def on_AddTask idle_not_running split_beta)
qed

lemma k8s_addInitError_eq:
  "\<not> m_isRunning (k_manager m) \<Longrightarrow> k8s_addInitError msg e (m, st, h) =
     (m\<lparr>k_manager := (k_manager m)\<lparr>m_initErrors := m_initErrors (k_manager m) @ [Errorf (''%w: '' @ msg) [defs_err e]]\<rparr>\<rparr>, st, h)"
  by (simp add: k8s_addInitError_def on_manager_def AddInitError_def addInitError_def)

lemma k8s_addInitError_ready [simp]:
  assumes "k8s_ready s"
  shows "k8s_ready (k8s_addInitError msg e s)"
proof -
  obtain m st h where s: "s = (m, st, h)" by (metis prod_cases3)
  note d = k8s_readyD [OF assms [unfolded s]]
  have "idle_manager ((k_manager m)\<lparr>m_initErrors := es\<rparr>) = idle_manager (k_manager m)" for es
    by (simp add: idle_manager_def)
  with assms show ?thesis unfolding s k8s_addInitError_eq [OF d(2)] by (simp add: k8s_ready_def)
qed

text \<open>The other fields do not matter.\<close>

lemma k8s_ready_fields:
  assumes "k8s_ready (m, st, h)"
  shows "k8s_ready (m\<lparr>k_healthHandlerSet := b\<rparr>, st, h')" "k8s_ready (m\<lparr>k_telemetryHandlerSet := b\<rparr>, st, h')"
    "k8s_ready (m\<lparr>k_healthTask := t\<rparr>, st, h')" "k8s_ready (m\<lparr>k_telemetryTask := t\<rparr>, st, h')"
  using assms by (simp_all add: k8s_ready_def)

text \<open>The three tasks that the manager builds are valid and have the one step they are made for.\<close>

definition single :: "step \<Rightarrow> (ctx \<Rightarrow> 'w \<Rightarrow> go_error option \<times> 'w) \<Rightarrow> string \<Rightarrow> 'w taskBuild" where
  "single st f n = \<lparr>tb_stepFunc = [(st, Some f)], tb_parent = None,
     tb_state = \<lparr>bs_steps = [st], bs_initError = None\<rparr>, tb_options = [], tb_skipped = [], tb_name = n\<rparr>"

lemma single_build: "BuildTask [st] w [WithStep st (Some f), WithName n] = build_task (single st f n)"
proof -
  have none: "buildJoinedErrors [] = None" by simp
  show ?thesis
    by (simp add: none BuildTask_def newTaskBuild_def build_init_def build_state_def hasMissingStep_def loadParent_def
        WithStep_def WithName_def empty_build_def Let_def single_def)
qed

lemma single_info:
  "GetTaskInfo (build_task (single st f n)) w =
     \<lparr>ti_Name = n, ti_Steps = Some [st], ti_Options = [], ti_InitError = None, ti_Skipped = None\<rparr>"
  by (simp add: taskBuild_TaskInfo_def single_def loadParent_def zero_task_info_def)

lemma single_run:
  "task_Run (build_task (single st f n)) c st' w = (if st' = st then f c w else (Some (newInvalidTaskStep st'), w))"
  by (simp add: build_task_def taskBuild_Run_def single_def loadParent_def)


lemmas probe_builds = started_probe_def terminating_probe_def flush_task_def WithSetup_def WithStop_def single_build

lemma probe_info:
  "GetTaskInfo (started_probe w) w' = \<lparr>ti_Name = TaskNameHealthStartedProbe, ti_Steps = Some [StepSetup],
     ti_Options = [], ti_InitError = None, ti_Skipped = None\<rparr>"
  "GetTaskInfo (terminating_probe w) w' = \<lparr>ti_Name = TaskNameHealthTerminatingProbe, ti_Steps = Some [StepStop],
     ti_Options = [], ti_InitError = None, ti_Skipped = None\<rparr>"
  "GetTaskInfo (flush_task f w) w' = \<lparr>ti_Name = TaskNameTelemetryFlush, ti_Steps = Some [StepStop],
     ti_Options = [], ti_InitError = None, ti_Skipped = None\<rparr>"
  unfolding probe_builds by (rule single_info)+

lemma probe_runs:
  "task_Run (started_probe w) c st (h, x) =
     (if st = StepSetup then (None, (h, hh_ServiceStarted (kh_healthHandler h) c x))
      else (Some (newInvalidTaskStep st), (h, x)))"
  "task_Run (terminating_probe w) c st (h, x) =
     (if st = StepStop then (None, (h, hh_ServiceTerminating (kh_healthHandler h) c x))
      else (Some (newInvalidTaskStep st), (h, x)))"
  "task_Run (flush_task f w) c st (h, x) =
     (if st = StepStop then (let (err, x') = th_FlushTelemetry f c x in (err, (h, x')))
      else (Some (newInvalidTaskStep st), (h, x)))"
  unfolding probe_builds single_run by simp_all

text \<open>Registering a task that has no initialization error under a known stage.\<close>

lemma set_ready [simp]:
  assumes "k8s_ready s"
  shows "k8s_ready (SetHealthHandler hn options x s)" "k8s_ready (SetTelemetryHandler tn options x s)"
    "k8s_ready (SetHealthTask t options x s)" "k8s_ready (SetTelemetryTask t options x s)"
proof -
  obtain m st h where s: "s = (m, st, h)" by (metis prod_cases3)
  note r = assms [unfolded s]
  note f = k8s_ready_fields [OF r]
  show "k8s_ready (SetHealthHandler hn options x s)" "k8s_ready (SetTelemetryHandler tn options x s)"
    "k8s_ready (SetHealthTask t options x s)" "k8s_ready (SetTelemetryTask t options x s)"
    unfolding s using r f
    by (simp_all add: SetHealthHandler_def SetTelemetryHandler_def SetHealthTask_def SetTelemetryTask_def Let_def
        split: option.split)
qed

text \<open>
  What a program does with a manager before it runs it.
\<close>

datatype 'x k8s_op =
    OpHealthHandler "'x healthHandler option" "'x k8s_world task_option list"
  | OpHealthTask "'x k8s_world task option" "'x k8s_world task_option list"
  | OpTelemetryHandler "'x telemetryHandler option" "'x k8s_world task_option list"
  | OpTelemetryTask "'x k8s_world task option" "'x k8s_world task_option list"
  | OpAddTask string "'x k8s_world task option" "'x k8s_world task_option list"

fun k8s_apply :: "'x k8s_op \<Rightarrow> 'x \<Rightarrow> 'x k8s_state \<Rightarrow> 'x k8s_state" where
  "k8s_apply (OpHealthHandler hn options) x = SetHealthHandler hn options x"
| "k8s_apply (OpHealthTask t options) x = SetHealthTask t options x"
| "k8s_apply (OpTelemetryHandler tn options) x = SetTelemetryHandler tn options x"
| "k8s_apply (OpTelemetryTask t options) x = SetTelemetryTask t options x"
| "k8s_apply (OpAddTask stage t options) x = k8s_AddTask stage t options x"

definition k8s_program :: "('x k8s_op \<times> 'x) list \<Rightarrow> 'x k8s_state \<Rightarrow> 'x k8s_state" where
  "k8s_program ops = fold (\<lambda>(op, x). k8s_apply op x) ops"

lemma k8s_program_simps [simp]:
  "k8s_program [] s = s" "k8s_program ((op, x) # ops) s = k8s_program ops (k8s_apply op x s)"
  by (simp_all add: k8s_program_def)

lemma k8s_apply_ready [simp]: "k8s_ready s \<Longrightarrow> k8s_ready (k8s_apply op x s)"
  by (cases op) simp_all

lemma k8s_program_ready [simp]: "k8s_ready s \<Longrightarrow> k8s_ready (k8s_program ops s)"
proof (induction ops arbitrary: s)
  case (Cons o1 ops)
  then show ?case by (cases o1) simp
qed simp

lemma k8s_ready_initial: "k8s_ready s \<Longrightarrow> initial (k8s_run_state x s)"
  by (cases s) (auto simp: k8s_ready_def k8s_run_state_def initial_def initial_sys_def)


section \<open>Properties of the registration\<close>

lemma signal_info: "ti_InitError (GetTaskInfo (signal_task env t) w) = None"
  by (simp add: GetTaskInfo_def signal_task_def TaskSignalTask_TaskInfo_def)

lemma enforced_last:
  "fold (\<lambda>opt. opt) (os @ enforced_options c) mg =
     (fold (\<lambda>opt. opt) os mg)\<lparr>m_stages := allStages, m_enforceShutdownTimeout := True,
        m_shutdownTimeout := k_shutdownTimeout c, m_teardownTimeout := k_teardownTimeout c\<rparr>"
  by (simp add: enforced_options_def WithStages_def WithEnforceShutdownTimeout_def WithShutdownTimeout_def
      WithTeardownTimeout_def)

text \<open>The inner manager.\<close>

lemma enforced_New:
  assumes "\<forall>opt\<in>set (k_managerOptions c). config_option opt"
  obtains mg where "New (k_managerOptions c @ enforced_options c) = Inr mg" "idle_manager mg" "m_initErrors mg = []"
    "m_tasks mg = newStageTasks" "m_stages mg = allStages" "m_enforceShutdownTimeout mg"
    "m_shutdownTimeout mg = k_shutdownTimeout c" "m_teardownTimeout mg = k_teardownTimeout c"
    "m_beforeRun mg = m_beforeRun (fold (\<lambda>opt. opt) (k_managerOptions c) default_manager)"
proof -
  let ?os = "k_managerOptions c @ enforced_options c"
  let ?mg = "fold (\<lambda>opt. opt) ?os default_manager"
  have enf: "m_stages ?mg = allStages" "m_enforceShutdownTimeout ?mg" "m_shutdownTimeout ?mg = k_shutdownTimeout c"
    "m_teardownTimeout ?mg = k_teardownTimeout c"
    "m_beforeRun ?mg = m_beforeRun (fold (\<lambda>opt. opt) (k_managerOptions c) default_manager)"
    unfolding enforced_last by simp_all
  have new: "New ?os = Inr ?mg"
    using manager_init_None [of ?mg] allStages_ok enf(1) by (simp add: New_def Let_def del: fold_append)
  have cfg: "\<forall>opt\<in>set ?os. config_option opt" using assms by (auto simp: enforced_options_def)
  from New_idle [OF cfg new] fold_config_option [OF cfg]
  have idle: "idle_manager ?mg" "m_initErrors ?mg = []" "m_tasks ?mg = newStageTasks"
    by (simp_all add: config_option_def default_manager_def del: fold_append)
  from new idle enf show thesis by (rule that)
qed

text \<open>
  C27: \<open>k8sinit.New\<close> never fails, and whatever options of the manager it is given (stages, timeouts,
  enforcement among them), the manager it makes has the four stages, an enforced shutdown timeout and
  the timeouts of \<open>k8sinit\<close>; it holds the signal task, in the management stage, exactly when signal
  handling is on and there are signals, and nothing else; and its run can start.
\<close>

theorem k8s_new_enforces:
  assumes "fold (\<lambda>opt. opt) options default_config = c"
    and "\<forall>opt\<in>set (k_managerOptions c). config_option opt"
    and "\<forall>f\<in>set (m_beforeRun (fold (\<lambda>opt. opt) (k_managerOptions c) default_manager)). before_run_ok f"
    and "ctxs_wf st"
  shows "\<exists>m. k8s_New env options x st = Inr (m, st, default_handlers) \<and> k8s_ready (m, st, default_handlers) \<and>
     k8s_Stages m = [''management'', ''initialize'', ''ready'', ''service''] \<and>
     m_enforceShutdownTimeout (k_manager m) \<and> m_shutdownTimeout (k_manager m) = k_shutdownTimeout c \<and>
     m_teardownTimeout (k_manager m) = k_teardownTimeout c \<and> m_initErrors (k_manager m) = [] \<and>
     \<not> k_healthHandlerSet m \<and> \<not> k_telemetryHandlerSet m \<and>
     (\<forall>y. stageTasks_get (m_tasks (k_manager m)) y =
        (if y = StageManagement \<and> \<not> k_disableSignalHandling c \<and> k_handleSignals c \<noteq> []
         then [newTaskWrapper (signal_task env (SignalTask (k_handleSignals c))) []] else []))"
proof -
  obtain mg where new: "New (k_managerOptions c @ enforced_options c) = Inr mg"
    and idle: "idle_manager mg" "m_initErrors mg = []" "m_tasks mg = newStageTasks"
    and enf: "m_stages mg = allStages" "m_enforceShutdownTimeout mg" "m_shutdownTimeout mg = k_shutdownTimeout c"
      "m_teardownTimeout mg = k_teardownTimeout c"
      "m_beforeRun mg = m_beforeRun (fold (\<lambda>opt. opt) (k_managerOptions c) default_manager)"
    using enforced_New [OF assms(2)] by blast
  obtain m where m: "m = new_k8s_manager c mg" by blast
  have k: "k_manager m = mg" "\<not> k_healthHandlerSet m" "\<not> k_telemetryHandlerSet m"
    by (simp_all add: m new_k8s_manager_def)
  have ready: "k8s_ready (m, st, default_handlers)"
    using idle enf assms(3,4) by (simp add: k8s_ready_def k)
  let ?t = "signal_task env (SignalTask (k_handleSignals c))"
  let ?m' = "m\<lparr>k_manager := mg\<lparr>m_tasks := stageTasks_add StageManagement (newTaskWrapper ?t []) newStageTasks\<rparr>\<rparr>"
  have "AddTask StageManagement (Some ?t) [] (default_handlers, x) (mg, st) =
      (mg\<lparr>m_tasks := stageTasks_add StageManagement (newTaskWrapper ?t []) newStageTasks\<rparr>, st)"
    using AddTask_valid [OF idle_not_running [OF idle(1)] signal_info, of StageManagement] enf(1) idle(3)
    by (simp add: allStages_def)
  then have add: "k8s_AddTask StageManagement (Some ?t) [] x (m, st, default_handlers) = (?m', st, default_handlers)"
    by (simp add: on_AddTask k)
  have ready': "k8s_ready (?m', st, default_handlers)"
    using k8s_AddTask_ready [OF ready, of StageManagement "Some ?t" "[]" x] by (simp only: add)
  have stages: "k8s_Stages m = [''management'', ''initialize'', ''ready'', ''service'']" if "m_stages (k_manager m) = allStages"
    for m :: "'a k8s_manager" using that by (simp add: k8s_Stages_def Stages_def allStages_def stage_defs)
  show ?thesis
  proof (cases "\<not> k_disableSignalHandling c \<and> k_handleSignals c \<noteq> []")
    case True
    then have "k8s_New env options x st = Inr (?m', st, default_handlers)"
      by (simp add: k8s_New_def assms(1) new Let_def m [symmetric] add)
    with True ready' enf idle k stages [of ?m'] show ?thesis
      by (intro exI [of _ ?m']) simp
  next
    case False
    then have "k8s_New env options x st = Inr (m, st, default_handlers)"
      by (auto simp: k8s_New_def assms(1) new Let_def m [symmetric])
    with False ready enf idle k stages [of m] show ?thesis
      by (intro exI [of _ m]) auto
  qed
qed


theorem k8s_new_enforces_witness:
  "\<exists>m. k8s_New (\<lambda>_ w. (SignalCtxDone None, w))
        [WithManagerOptions [WithStages [''mine''], WithEnforceShutdownTimeout False], k8s_WithShutdownTimeout 7]
        () background = Inr (m, background, default_handlers) \<and>
     k8s_Stages m = [''management'', ''initialize'', ''ready'', ''service''] \<and>
     m_enforceShutdownTimeout (k_manager m) \<and> m_shutdownTimeout (k_manager m) = 7"
proof -
  let ?os = "[WithManagerOptions [WithStages [''mine''], WithEnforceShutdownTimeout False], k8s_WithShutdownTimeout 7]"
  let ?c = "fold (\<lambda>opt. opt) ?os default_config :: unit k8s_config"
  have c: "k_managerOptions ?c = [WithStages [''mine''], WithEnforceShutdownTimeout False]" "k_shutdownTimeout ?c = 7"
    by (simp_all add: WithManagerOptions_def k8s_WithShutdownTimeout_def default_config_def)
  have a: "\<forall>opt\<in>set (k_managerOptions ?c). config_option opt" unfolding c by simp
  have b: "\<forall>f\<in>set (m_beforeRun (fold (\<lambda>opt. opt) (k_managerOptions ?c) default_manager)). before_run_ok f"
    unfolding c by (simp add: WithStages_def WithEnforceShutdownTimeout_def default_manager_def)
  from k8s_new_enforces [OF refl a b background_wf, of "\<lambda>_ w. (SignalCtxDone None, w)" "()"] show ?thesis
    unfolding c(2) by blast
qed

text \<open>
  Before the run, the first health handler that is given is stored, and adds two tasks: one in the
  ready stage that only has a setup step, one in the service stage that only has a stop step, with the
  options of the call; they call \<open>ServiceStarted\<close> and \<open>ServiceTerminating\<close> of the stored handler. A nil or a
  second handler records one initialization error, of the right kind, and changes nothing else.
\<close>

theorem health_handler_registered:
  assumes "k8s_ready (m, st, h)" and "SetHealthHandler given options x (m, st, h) = (m', st', h')"
  shows "if given = None \<or> k_healthHandlerSet m
     then h' = h \<and> st' = st \<and> (\<exists>e. m' = m\<lparr>k_manager := (k_manager m)\<lparr>m_initErrors := m_initErrors (k_manager m) @ [e]\<rparr>\<rparr> \<and>
         err_is (Defs (if given = None then ErrInitialization else ErrAlreadyInitialized)) e)
     else kh_healthHandler h' = the given \<and> st' = st \<and> k_healthHandlerSet m' \<and>
       m_initErrors (k_manager m') = m_initErrors (k_manager m) \<and>
       (\<exists>t1 t2. (\<forall>y. stageTasks_get (m_tasks (k_manager m')) y = stageTasks_get (m_tasks (k_manager m)) y @
            (if y = StageReady then [newTaskWrapper t1 options]
             else if y = StageService then [newTaskWrapper t2 options] else [])) \<and>
          (\<forall>w sp. taskHasStep t1 sp w \<longleftrightarrow> sp = StepSetup) \<and> (\<forall>w sp. taskHasStep t2 sp w \<longleftrightarrow> sp = StepStop) \<and>
          (\<forall>c x. task_Run t1 c StepSetup (h', x) = (None, (h', hh_ServiceStarted (the given) c x)) \<and>
                 task_Run t2 c StepStop (h', x) = (None, (h', hh_ServiceTerminating (the given) c x))))"
proof -
  note d = k8s_readyD [OF assms(1)]
  show ?thesis
  proof (cases "given = None \<or> k_healthHandlerSet m")
    case True
    then show ?thesis using assms(2) k8s_addInitError_eq [OF d(2)]
      by (auto simp: SetHealthHandler_def split: option.splits if_splits)
  next
    case False
    then obtain hn where hn: "given = Some hn" "\<not> k_healthHandlerSet m" by auto
    let ?h = "h\<lparr>kh_healthHandler := hn\<rparr>"
    let ?t1 = "started_probe (?h, x)" and ?t2 = "terminating_probe (?h, x)"
    let ?ts = "stageTasks_add StageService (newTaskWrapper ?t2 options)
      (stageTasks_add StageReady (newTaskWrapper ?t1 options) (m_tasks (k_manager m)))"
    have st: "StageReady \<in> set allStages" "StageService \<in> set allStages" "StageReady \<noteq> StageService"
      by (simp_all add: allStages_def stage_defs)
    have r: "m' = m\<lparr>k_healthHandlerSet := True, k_manager := (k_manager m)\<lparr>m_tasks := ?ts\<rparr>\<rparr>" "st' = st" "h' = ?h"
      using assms(2) hn d st
      by (auto simp: SetHealthHandler_def Let_def on_AddTask AddTask_valid probe_info)
    have t: "taskHasStep ?t1 sp w \<longleftrightarrow> sp = StepSetup" "taskHasStep ?t2 sp w \<longleftrightarrow> sp = StepStop" for sp w
      by (simp_all add: taskHasStep_def taskSteps_def probe_info)
    show ?thesis
      unfolding r using hn st t
      by (simp add: probe_runs) (intro exI [of _ ?t1] exI [of _ ?t2], simp add: probe_runs)
  qed
qed


definition demo_k8s :: "int k8s_state" where
  "demo_k8s = (new_k8s_manager default_config (default_manager\<lparr>m_stages := allStages\<rparr>), background, default_handlers)"

lemma demo_k8s_ready: "k8s_ready demo_k8s"
  using default_idle allStages_ok background_wf
  by (auto simp: demo_k8s_def k8s_ready_def new_k8s_manager_def idle_manager_def default_manager_def newStageTasks_def)

theorem health_handler_registered_witness:
  "kh_healthHandler (snd (snd (SetHealthHandler (Some \<lparr>hh_ServiceStarted = (\<lambda>_ x. x + 1), hh_ServiceTerminating = (\<lambda>_ x. 0)\<rparr>)
       [] 5 demo_k8s))) = \<lparr>hh_ServiceStarted = (\<lambda>_ x. x + 1), hh_ServiceTerminating = (\<lambda>_ x. 0)\<rparr>"
proof -
  obtain m st h where s: "demo_k8s = (m, st, h)" by (metis prod_cases3)
  then have set: "\<not> k_healthHandlerSet m" by (auto simp: demo_k8s_def new_k8s_manager_def)
  let ?f = "\<lparr>hh_ServiceStarted = (\<lambda>_ x. x + 1), hh_ServiceTerminating = (\<lambda>_ x. 0)\<rparr> :: int healthHandler"
  obtain m' st' h' where s': "SetHealthHandler (Some ?f) [] 5 (m, st, h) = (m', st', h')" by (metis prod_cases3)
  from health_handler_registered [OF demo_k8s_ready [unfolded s] s'] set show ?thesis unfolding s s' by simp
qed

text \<open>
  The abstract view of the registration: four registers that are set once.
\<close>

record 'x registry =
  r_health :: "'x healthHandler option"
  r_telemetry :: "'x telemetryHandler option"
  r_healthTask :: "'x k8s_world task option"
  r_telemetryTask :: "'x k8s_world task option"

definition registry_of :: "'x k8s_state \<Rightarrow> 'x registry" where
  "registry_of = (\<lambda>(m, st, h).
     \<lparr>r_health = (if k_healthHandlerSet m then Some (kh_healthHandler h) else None),
      r_telemetry = (if k_telemetryHandlerSet m then Some (kh_telemetryHandler h) else None),
      r_healthTask = k_healthTask m, r_telemetryTask = k_telemetryTask m\<rparr>)"

definition set_once :: "'a option \<Rightarrow> 'a option \<Rightarrow> 'a option" where
  "set_once new old = (if old = None then new else old)"

fun registry_apply :: "'x k8s_op \<Rightarrow> 'x registry \<Rightarrow> 'x registry" where
  "registry_apply (OpHealthHandler hn _) r = r\<lparr>r_health := set_once hn (r_health r)\<rparr>"
| "registry_apply (OpHealthTask t _) r = r\<lparr>r_healthTask := set_once t (r_healthTask r)\<rparr>"
| "registry_apply (OpTelemetryHandler tn _) r = r\<lparr>r_telemetry := set_once tn (r_telemetry r)\<rparr>"
| "registry_apply (OpTelemetryTask t _) r = r\<lparr>r_telemetryTask := set_once t (r_telemetryTask r)\<rparr>"
| "registry_apply (OpAddTask _ _ _) r = r"

text \<open>The error that a call records, when it is one that must not be made.\<close>

definition misuse_of :: "sentinel \<Rightarrow> 'a option \<Rightarrow> 'b option \<Rightarrow> sentinel option" where
  "misuse_of nil given old =
     (if given = None \<and> (nil = ErrInitialization \<or> old = None) then Some nil
      else if old \<noteq> None then Some ErrAlreadyInitialized else None)"

fun misuse :: "'x k8s_op \<Rightarrow> 'x registry \<Rightarrow> sentinel option" where
  "misuse (OpHealthHandler hn _) r = misuse_of ErrInitialization hn (r_health r)"
| "misuse (OpHealthTask t _) r = misuse_of ErrNilTask t (r_healthTask r)"
| "misuse (OpTelemetryHandler tn _) r = misuse_of ErrInitialization tn (r_telemetry r)"
| "misuse (OpTelemetryTask t _) r = misuse_of ErrNilTask t (r_telemetryTask r)"
| "misuse (OpAddTask _ _ _) r = None"

definition k8s_errors :: "'x k8s_state \<Rightarrow> go_error list" where
  "k8s_errors s = m_initErrors (k_manager (fst s))"

lemma AddTask_errors:
  "\<not> m_isRunning m \<Longrightarrow> \<exists>es. m_initErrors (fst (AddTask stage t options w (m, st))) = m_initErrors m @ es"
  by (auto simp: AddTask_def addInitError_def split: option.split)

lemma k8s_AddTask_frame:
  assumes "k8s_ready s"
  shows "registry_of (k8s_AddTask stage t options x s) = registry_of s"
    "\<exists>es. k8s_errors (k8s_AddTask stage t options x s) = k8s_errors s @ es"
    "t = None \<Longrightarrow> k8s_errors (k8s_AddTask stage t options x s) = k8s_errors s @ [defs_err ErrNilTask]"
proof -
  obtain m st h where s: "s = (m, st, h)" by (metis prod_cases3)
  note d = k8s_readyD [OF assms [unfolded s]]
  show "registry_of (k8s_AddTask stage t options x s) = registry_of s"
    by (simp add: s on_AddTask registry_of_def split_beta)
  show "\<exists>es. k8s_errors (k8s_AddTask stage t options x s) = k8s_errors s @ es"
    using AddTask_errors [OF d(2)] by (simp add: s on_AddTask k8s_errors_def split_beta)
  show "k8s_errors (k8s_AddTask stage t options x s) = k8s_errors s @ [defs_err ErrNilTask]" if "t = None"
    using that d(2) by (simp add: s on_AddTask k8s_errors_def AddTask_def addInitError_def)
qed

lemma k8s_addInitError_frame:
  assumes "k8s_ready s"
  shows "registry_of (k8s_addInitError msg e s) = registry_of s"
    "k8s_errors (k8s_addInitError msg e s) = k8s_errors s @ [Errorf (''%w: '' @ msg) [defs_err e]]"
proof -
  obtain m st h where s: "s = (m, st, h)" by (metis prod_cases3)
  note d = k8s_readyD [OF assms [unfolded s]]
  show "registry_of (k8s_addInitError msg e s) = registry_of s"
    "k8s_errors (k8s_addInitError msg e s) = k8s_errors s @ [Errorf (''%w: '' @ msg) [defs_err e]]"
    unfolding s k8s_addInitError_eq [OF d(2)] by (simp_all add: registry_of_def k8s_errors_def)
qed


lemma registry_of_simp:
  "registry_of (m, st, h) =
     \<lparr>r_health = (if k_healthHandlerSet m then Some (kh_healthHandler h) else None),
      r_telemetry = (if k_telemetryHandlerSet m then Some (kh_telemetryHandler h) else None),
      r_healthTask = k_healthTask m, r_telemetryTask = k_telemetryTask m\<rparr>"
  "k8s_errors (m, st, h) = m_initErrors (k_manager m)"
  by (simp_all add: registry_of_def k8s_errors_def)

lemma k8s_AddTask_errors:
  assumes "k8s_ready s"
  obtains es where "k8s_errors (k8s_AddTask stage t options x s) = k8s_errors s @ es"
  using k8s_AddTask_frame(2) [OF assms] by blast

lemmas registry_rules = registry_of_simp k8s_AddTask_frame(1) k8s_addInitError_frame misuse_of_def set_once_def Let_def

definition call_refines :: "'x k8s_op \<Rightarrow> 'x \<Rightarrow> 'x k8s_state \<Rightarrow> bool" where
  "call_refines op x s \<longleftrightarrow> registry_of (k8s_apply op x s) = registry_apply op (registry_of s) \<and>
     (case misuse op (registry_of s) of
        None \<Rightarrow> \<exists>es. k8s_errors (k8s_apply op x s) = k8s_errors s @ es
      | Some k \<Rightarrow> \<exists>e. k8s_errors (k8s_apply op x s) = k8s_errors s @ [e] \<and> err_is (Defs k) e)"

lemma SetHealthHandler_refines:
  assumes "k8s_ready (m, st, h)"
  shows "call_refines (OpHealthHandler hn options) x (m, st, h)"
proof (cases "hn = None \<or> k_healthHandlerSet m")
  case True
  then show ?thesis using assms
    by (cases hn) (auto simp: call_refines_def SetHealthHandler_def registry_rules)
next
  case False
  then obtain g where g: "hn = Some g" "\<not> k_healthHandlerSet m" by auto
  let ?s1 = "(m\<lparr>k_healthHandlerSet := True\<rparr>, st, h\<lparr>kh_healthHandler := g\<rparr>)"
  let ?s2 = "k8s_AddTask StageReady (Some (started_probe (h\<lparr>kh_healthHandler := g\<rparr>, x))) options x ?s1"
  have ready: "k8s_ready ?s1" "k8s_ready ?s2" using k8s_ready_fields [OF assms] by simp_all
  from k8s_AddTask_errors [OF ready(1)] k8s_AddTask_errors [OF ready(2)] show ?thesis
    using g ready by (simp add: call_refines_def SetHealthHandler_def registry_rules) (metis append_assoc)
qed

lemma SetTelemetryHandler_refines:
  assumes "k8s_ready (m, st, h)"
  shows "call_refines (OpTelemetryHandler tn options) x (m, st, h)"
proof (cases "tn = None \<or> k_telemetryHandlerSet m")
  case True
  then show ?thesis using assms
    by (cases tn) (auto simp: call_refines_def SetTelemetryHandler_def registry_rules)
next
  case False
  then obtain g where g: "tn = Some g" "\<not> k_telemetryHandlerSet m" by auto
  note f = k8s_ready_fields(2) [OF assms]
  from g f k8s_AddTask_frame(2) [OF f] show ?thesis
    by (simp add: call_refines_def SetTelemetryHandler_def registry_rules)
qed

lemma task_refines:
  assumes "k8s_ready (m, st, h)"
  shows "call_refines (OpHealthTask t options) x (m, st, h)" "call_refines (OpTelemetryTask t options) x (m, st, h)"
proof -
  note f = k8s_ready_fields(3,4) [OF assms]
  show "call_refines (OpHealthTask t options) x (m, st, h)"
    using assms f k8s_AddTask_frame(2,3) [OF f(1)]
    by (cases "k_healthTask m"; cases t) (auto simp: call_refines_def SetHealthTask_def registry_rules)
  show "call_refines (OpTelemetryTask t options) x (m, st, h)"
    using assms f k8s_AddTask_frame(2,3) [OF f(2)]
    by (cases "k_telemetryTask m"; cases t) (auto simp: call_refines_def SetTelemetryTask_def registry_rules)
qed

lemma AddTask_refines:
  assumes "k8s_ready s"
  shows "call_refines (OpAddTask stage t options) x s"
  using k8s_AddTask_frame(1,2) [OF assms] by (simp add: call_refines_def)

lemma k8s_apply_refines:
  assumes "k8s_ready s"
  shows "call_refines op x s"
proof -
  obtain m st h where s: "s = (m, st, h)" by (metis prod_cases3)
  note r = assms [unfolded s]
  show ?thesis
    unfolding s using SetHealthHandler_refines [OF r] SetTelemetryHandler_refines [OF r] task_refines [OF r]
      AddTask_refines [OF r] by (cases op) auto
qed



end
