(* ===== verification/K8sRun.thy ===== *)
theory K8sRun
  imports K8s
begin

text \<open>
  Runs of a program that holds a manager of \<open>k8sinit\<close>: what the registration promises, seen through
  \<open>Run\<close>.
\<close>

declare split_paired_All [simp del] split_paired_Ex [simp del]

section \<open>Properties of the run\<close>

lemma k8s_run_state_simps:
  "m_initErrors (s_mgr (k8s_run_state x s)) = k8s_errors s" "s_stages (k8s_run_state x s) = m_stages (k_manager (fst s))"
  "s_pc (k8s_run_state x s) = PIdle"
  by (cases s; simp add: k8s_run_state_def initial_sys_def k8s_errors_def)+

lemma k8s_apply_errors:
  assumes "k8s_ready s"
  shows "set (k8s_errors s) \<subseteq> set (k8s_errors (k8s_apply op x s))"
  using k8s_apply_refines [OF assms, of op x, unfolded call_refines_def] by (auto split: option.splits)

lemma k8s_program_errors: "k8s_ready s \<Longrightarrow> set (k8s_errors s) \<subseteq> set (k8s_errors (k8s_program ops s))"
proof (induction ops arbitrary: s)
  case (Cons o1 ops)
  obtain op x where o1: "o1 = (op, x)" by force
  from Cons.IH [of "k8s_apply op x s"] k8s_apply_errors [OF Cons.prems, of op x] Cons.prems show ?case
    by (auto simp: o1)
qed simp

text \<open>
  A call that must not be made is never silent: whatever else the program registers and however the
  run is scheduled, \<open>Run\<close> then calls no step of any task, and returns an error of the kind of the
  misuse (\<open>ErrAlreadyInitialized\<close> for a handler or a task that was set before).
\<close>

theorem k8s_misuse_stops_run:
  assumes "k8s_ready s" and "misuse op (registry_of s) = Some k"
    and "runs_to sys_step (k8s_run_state x' (k8s_program ops (k8s_apply op x s))) as t"
  shows "no_call (s_trace t) \<and>
    (case s_pc t of PIdle \<Rightarrow> True | PEntered \<Rightarrow> True
     | PReturned e se \<Rightarrow> errors_Is e (Defs k) \<and> se = None | _ \<Rightarrow> False)"
proof -
  let ?s = "k8s_program ops (k8s_apply op x s)"
  have "initial (k8s_run_state x' ?s)" using assms(1) by (simp add: k8s_ready_initial)
  with assms(3) have reach: "reachable t" by (auto simp: reachable_def)
  obtain e where e: "k8s_errors (k8s_apply op x s) = k8s_errors s @ [e]" "err_is (Defs k) e"
    using k8s_apply_refines [OF assms(1), of op x, unfolded call_refines_def] assms(2) by auto
  have "e \<in> set (k8s_errors ?s)" using e k8s_program_errors [of "k8s_apply op x s" ops] assms(1) by auto
  then have mem: "e \<in> set (m_initErrors (s_mgr t))"
    using runs_errors_grow [OF assms(3)] by (auto simp: k8s_run_state_simps)
  then have ne: "m_initErrors (s_mgr t) \<noteq> []" by auto
  have kind: "list_ex (err_is (Defs k)) (m_initErrors (s_mgr t))" using mem e(2) by (auto simp: list_ex_iff)
  from reachable_early_inv [OF reach] ne kind show ?thesis
    by (cases "s_pc t") (auto simp: early_inv_def)
qed


definition bad_program :: "int k8s_state" where
  "bad_program = k8s_apply (OpHealthHandler None []) 0 demo_k8s"

lemma bad_program_ends:
  "case exec_all [ARun 0 None, AMain True] (k8s_run_state 0 bad_program) of
     Some t \<Rightarrow> (case s_pc t of PReturned (Some _) None \<Rightarrow> True | _ \<Rightarrow> False) | None \<Rightarrow> False"
  by code_simp

theorem k8s_misuse_stops_run_witness:
  "\<exists>t. runs_to sys_step (k8s_run_state 0 bad_program) [ARun 0 None, AMain True] t \<and>
     (\<exists>e. s_pc t = PReturned (Some e) None \<and> err_is (Defs ErrInitialization) e)"
proof -
  obtain t where t: "exec_all [ARun 0 None, AMain True] (k8s_run_state 0 bad_program) = Some t"
    "case s_pc t of PReturned (Some _) None \<Rightarrow> True | _ \<Rightarrow> False"
    using bad_program_ends by (auto split: option.splits)
  then obtain e where e: "s_pc t = PReturned (Some e) None" by (auto split: pc.splits option.splits)
  note run = exec_all_runs [OF t(1)]
  have m: "misuse (OpHealthHandler None []) (registry_of demo_k8s) = Some ErrInitialization" by (simp add: misuse_of_def)
  have r: "runs_to sys_step (k8s_run_state 0 (k8s_program [] (k8s_apply (OpHealthHandler None []) 0 demo_k8s)))
      [ARun 0 None, AMain True] t"
    using run by (simp add: bad_program_def)
  from k8s_misuse_stops_run [OF demo_k8s_ready m r] e run show ?thesis by auto
qed

lemma runs_stages: "runs_to sys_step s as t \<Longrightarrow> s_stages t = s_stages s"
  by (induction rule: runs_to.induct) simp_all

lemma stage_order:
  "earlier allStages StageReady StageService" "\<not> earlier allStages StageService StageReady"
  "earlier allStages StageManagement StageReady" "earlier allStages StageInitialize StageReady"
  by (simp_all add: earlier_def allStages_def stage_defs)


definition demo_program :: "int k8s_state" where
  "demo_program = k8s_program
     [(OpAddTask StageInitialize (Some (TaskFunc (\<lambda>_ _ w. (None, w)))) [], 0),
      (OpHealthHandler (Some \<lparr>hh_ServiceStarted = (\<lambda>_ x. x + 1), hh_ServiceTerminating = (\<lambda>_ x. x)\<rparr>) [], 0)] demo_k8s"

definition demo_goes :: "nat \<Rightarrow> int k8s_world action list" where
  "demo_goes j = [AGo j, AGo j, AGo j, AGo j]"

definition demo_run :: "int k8s_world action list" where
  "demo_run = [ARun 0 None, AMain True, AMain True, AMain True] @ replicate 6 (AMain True) @
     [AMain True, AMain True] @ demo_goes 0 @ [AReturn 0 None (default_handlers, 0)] @ demo_goes 0 @
     [AMain True, AMain True] @ [AMain True, AMain True, AGo 1, AMain True, AMain True] @
     [AMain True, AMain True] @ demo_goes 2"

lemma demo_run_ends:
  "case exec_all demo_run (k8s_run_state 0 demo_program) of
     Some t \<Rightarrow> s_trace t = [EvCall (StageReady, 0) StepSetup, EvReturn (StageInitialize, 0) StepSetup None,
       EvCall (StageInitialize, 0) StepSetup] | None \<Rightarrow> False"
  by code_simp


end
