(* ===== verification/SampleServices.thy ===== *)
theory SampleServices
  imports FutureReady DefaultTasks Health
begin

text \<open>
  The services of \<open>sample/services.go\<close>. Pointers to the structs of \<open>net/http\<close> and \<open>database/sql\<close> are
  indices into the memory of the program; what \<open>ListenAndServe\<close> and \<open>Shutdown\<close> return, how a mux picks a
  handler and what the signal task receives are arguments. The memory also holds the future of the
  program and two flags: that a call waited for the future, and that a nil pointer was dereferenced.
\<close>

declare split_paired_All [simp del] split_paired_Ex [simp del]

section \<open>The environment and the memory\<close>

type_synonym 'r http_handler = "'r \<Rightarrow> responseWriter \<Rightarrow> responseWriter"

record 'r web_server =
  ws_Handler :: "'r http_handler"
  ws_Addr :: string
  ws_BaseContext :: "ctx option"

record 'r net =
  n_match :: "(string \<times> 'r http_handler) list \<Rightarrow> 'r \<Rightarrow> 'r http_handler option"
  n_ListenAndServe :: "'r web_server \<Rightarrow> go_error option"
  n_Shutdown :: "'r web_server \<Rightarrow> ctx \<Rightarrow> go_error option"
  n_signal :: "ctx \<Rightarrow> signal_wake"

record initTaskData =
  itd_db :: "nat option"

record 'r sample_mem =
  sm_servers :: "'r web_server list"
  sm_dbs :: nat
  sm_init :: "initTaskData option future_cell"
  sm_waits :: bool
  sm_panicked :: bool

definition new_server :: "'r http_handler \<Rightarrow> string \<Rightarrow> ('r, 'z) sample_mem_scheme \<Rightarrow> nat \<times> ('r, 'z) sample_mem_scheme" where
  "new_server h addr m =
     (length (sm_servers m), m\<lparr>sm_servers := sm_servers m @ [\<lparr>ws_Handler = h, ws_Addr = addr, ws_BaseContext = None\<rparr>]\<rparr>)"

definition set_BaseContext :: "nat \<Rightarrow> ctx \<Rightarrow> ('r, 'z) sample_mem_scheme \<Rightarrow> ('r, 'z) sample_mem_scheme" where
  "set_BaseContext p c m = m\<lparr>sm_servers := (sm_servers m)[p := (sm_servers m ! p)\<lparr>ws_BaseContext := Some c\<rparr>]\<rparr>"

text \<open>\<open>http.ServeMux\<close> with the handlers registered, in order.\<close>

definition mux_handler :: "'r net \<Rightarrow> (string \<times> 'r http_handler) list \<Rightarrow> 'r http_handler" where
  "mux_handler net routes r w = (case n_match net routes r of None \<Rightarrow> NotFound w | Some h \<Rightarrow> h r w)"

section \<open>The health service\<close>

record HealthServiceImpl =
  hsi_server :: nat

definition NewHealthServiceImpl :: "('r, 'z) sample_mem_scheme \<Rightarrow> HealthServiceImpl \<times> ('r, 'z) sample_mem_scheme" where
  "NewHealthServiceImpl m =
     (let (p, m') = new_server (\<lambda>r w. WriteHeader StatusOK w) '':6060'' m in (\<lparr>hsi_server = p\<rparr>, m'))"

definition HealthServiceImpl_Start ::
  "'r net \<Rightarrow> HealthServiceImpl \<Rightarrow> ctx \<Rightarrow> ('r, 'z) sample_mem_scheme \<Rightarrow> go_error option \<times> ('r, 'z) sample_mem_scheme" where
  "HealthServiceImpl_Start net s c m =
     (let m' = set_BaseContext (hsi_server s) c m in (n_ListenAndServe net (sm_servers m' ! hsi_server s), m'))"

definition HealthServiceImpl_Stop ::
  "'r net \<Rightarrow> HealthServiceImpl \<Rightarrow> ctx \<Rightarrow> ('r, 'z) sample_mem_scheme \<Rightarrow> go_error option \<times> ('r, 'z) sample_mem_scheme" where
  "HealthServiceImpl_Stop net s c m = (n_Shutdown net (sm_servers m ! hsi_server s) c, m)"

section \<open>The HTTP service\<close>

record HTTPServiceImpl =
  his_server :: nat
  his_db :: "nat option"

definition hello_test :: "'r http_handler" where
  "hello_test r w = rw_Write ''Hello World, test'' (WriteHeader StatusOK w)"

definition hello :: "'r http_handler" where
  "hello r w = rw_Write ''Hello World'' (WriteHeader StatusOK w)"

definition NewHTTPServiceImpl :: "'r net \<Rightarrow> nat option \<Rightarrow> ('r, 'z) sample_mem_scheme \<Rightarrow> HTTPServiceImpl \<times> ('r, 'z) sample_mem_scheme" where
  "NewHTTPServiceImpl net db m =
     (let mux = [(''GET /test'', hello_test), (''GET /'', hello)];
          (p, m') = new_server (mux_handler net mux) '':8080'' m
      in (\<lparr>his_server = p, his_db = db\<rparr>, m'))"

definition HTTPServiceImpl_Start ::
  "'r net \<Rightarrow> HTTPServiceImpl \<Rightarrow> ctx \<Rightarrow> ('r, 'z) sample_mem_scheme \<Rightarrow> go_error option \<times> ('r, 'z) sample_mem_scheme" where
  "HTTPServiceImpl_Start net s c m =
     (let m' = set_BaseContext (his_server s) c m in (n_ListenAndServe net (sm_servers m' ! his_server s), m'))"

definition HTTPServiceImpl_Stop ::
  "'r net \<Rightarrow> HTTPServiceImpl \<Rightarrow> ctx \<Rightarrow> ('r, 'z) sample_mem_scheme \<Rightarrow> go_error option \<times> ('r, 'z) sample_mem_scheme" where
  "HTTPServiceImpl_Stop net s c m = (n_Shutdown net (sm_servers m ! his_server s) c, m)"

definition HTTPService :: "'r net \<Rightarrow> HTTPServiceImpl \<Rightarrow> ('r, 'z) sample_mem_scheme service" where
  "HTTPService net s = \<lparr>svc_Start = HTTPServiceImpl_Start net s, svc_Stop = HTTPServiceImpl_Stop net s,
     svc_Setup = None, svc_Teardown = None, svc_TaskInfo = None, svc_type = ''*main.HTTPServiceImpl''\<rparr>"

section \<open>Tasks on a part of the world\<close>

text \<open>
  A task is an object with its own fields; in the world of the program these are one part among others.
  \<open>get\<close> reads the part and \<open>put\<close> writes it back.
\<close>

definition focus_info :: "('w \<Rightarrow> 'a) \<Rightarrow> ('a \<Rightarrow> 'w \<Rightarrow> 'w) \<Rightarrow> 'a task_info \<Rightarrow> 'w task_info" where
  "focus_info get put ti = \<lparr>ti_Name = ti_Name ti, ti_Steps = ti_Steps ti, ti_Options = ti_Options ti,
     ti_InitError = ti_InitError ti,
     ti_Skipped = map_option (\<lambda>f c cause w. put (f c cause (get w)) w) (ti_Skipped ti)\<rparr>"

definition focus_task :: "('w \<Rightarrow> 'a) \<Rightarrow> ('a \<Rightarrow> 'w \<Rightarrow> 'w) \<Rightarrow> 'a task \<Rightarrow> 'w task" where
  "focus_task get put t = \<lparr>
     task_Run = (\<lambda>c st w. let (e, a) = task_Run t c st (get w) in (e, put a w)),
     task_TaskInfo = map_option (\<lambda>ti w. focus_info get put (ti (get w))) (task_TaskInfo t),
     task_Stringer = map_option (\<lambda>str w. str (get w)) (task_Stringer t),
     task_type = task_type t\<rparr>"

lemma focus_task_simps [simp]:
  "GetTaskInfo (focus_task get put t) w = focus_info get put (GetTaskInfo t (get w))"
  "taskSteps (focus_task get put t) w = taskSteps t (get w)"
  "taskHasStep (focus_task get put t) st w = taskHasStep t st (get w)"
  "task_Run (focus_task get put t) c st w = (let (e, a) = task_Run t c st (get w) in (e, put a w))"
  "ti_InitError (focus_info get put ti) = ti_InitError ti"
  "ti_Skipped (focus_info get put ti) = map_option (\<lambda>f c cause w. put (f c cause (get w)) w) (ti_Skipped ti)"
  by (auto simp: focus_task_def GetTaskInfo_def focus_info_def taskSteps_def taskHasStep_def zero_task_info_def
      split: option.split)

section \<open>Evaluation\<close>

text \<open>Code equations under which the functions of a task stay folded until they are applied.\<close>

definition instance_Run :: "('d, 'u) instanceTask \<Rightarrow> ctx \<Rightarrow> step \<Rightarrow> 'd cell \<times> 'u \<Rightarrow> go_error option \<times> 'd cell \<times> 'u" where
  "instance_Run it c st w = (case inst_Run it c st w of Some r \<Rightarrow> r | None \<Rightarrow> (None, w))"

definition instance_TaskInfo :: "('d, 'u) instanceTask \<Rightarrow> 'd cell \<times> 'u \<Rightarrow> ('d cell \<times> 'u) task_info" where
  "instance_TaskInfo it w = taskBuild_TaskInfo (current_build it (fst w)) w"

definition instance_String :: "('d, 'u) instanceTask \<Rightarrow> 'd cell \<times> 'u \<Rightarrow> string" where
  "instance_String it w = taskBuild_String (current_build it (fst w)) w"

lemma instance_task_code [code]: "instance_task it = \<lparr>task_Run = instance_Run it, task_TaskInfo = Some (instance_TaskInfo it),
    task_Stringer = Some (instance_String it), task_type = ''*instancetask.Task''\<rparr>"
  by (simp add: instance_task_def fun_eq_iff instance_Run_def instance_TaskInfo_def instance_String_def)

definition focus_Run :: "('w \<Rightarrow> 'a) \<Rightarrow> ('a \<Rightarrow> 'w \<Rightarrow> 'w) \<Rightarrow> 'a task \<Rightarrow> ctx \<Rightarrow> step \<Rightarrow> 'w \<Rightarrow> go_error option \<times> 'w" where
  "focus_Run get put t c st w = (let (e, a) = task_Run t c st (get w) in (e, put a w))"

definition focus_TaskInfo :: "('w \<Rightarrow> 'a) \<Rightarrow> ('a \<Rightarrow> 'w \<Rightarrow> 'w) \<Rightarrow> ('a \<Rightarrow> 'a task_info) \<Rightarrow> 'w \<Rightarrow> 'w task_info" where
  "focus_TaskInfo get put ti w = focus_info get put (ti (get w))"

definition focus_String :: "('w \<Rightarrow> 'a) \<Rightarrow> ('a \<Rightarrow> string) \<Rightarrow> 'w \<Rightarrow> string" where
  "focus_String get str w = str (get w)"

lemma focus_task_code [code]: "focus_task get put t = \<lparr>task_Run = focus_Run get put t,
    task_TaskInfo = map_option (focus_TaskInfo get put) (task_TaskInfo t),
    task_Stringer = map_option (focus_String get) (task_Stringer t), task_type = task_type t\<rparr>"
  by (cases "task_TaskInfo t"; cases "task_Stringer t")
    (simp_all add: focus_task_def fun_eq_iff focus_Run_def focus_TaskInfo_def focus_String_def)

section \<open>Reading the future\<close>

text \<open>
  \<open>Value()\<close> of the future task: what it returns, or nothing when it would wait; then the flag is set, and
  what the caller goes on with does not matter.
\<close>

definition initTask_Value :: "('r, 'z) sample_mem_scheme \<Rightarrow> (initTaskData option \<times> go_error option) \<times> ('r, 'z) sample_mem_scheme" where
  "initTask_Value m =
     (case futuretask_Value None [] True [] (sm_init m) of
        (Some r, fc) \<Rightarrow> (r, m\<lparr>sm_init := fc\<rparr>)
      | (None, fc) \<Rightarrow> ((None, None), m\<lparr>sm_init := fc, sm_waits := True\<rparr>))"

end
