(* ===== verification/SampleMain.thy ===== *)
theory SampleMain
  imports SampleServices
begin

text \<open>
  The program of \<open>sample/main.go\<close>: the registration of its six tasks on a manager with three stages, and
  what its runs do. Logging is left out.
\<close>

declare split_paired_All [simp del] split_paired_Ex [simp del]

section \<open>The world\<close>

text \<open>
  The memory and the fields of the three instance tasks. \<open>ko\<close> is the order in which Go iterates over the
  keys of a map.
\<close>

record 'r sample_world =
  sw_mem :: "'r sample_mem"
  sw_health :: "HealthServiceImpl cell"
  sw_init :: "initTaskData option cell"
  sw_http :: "'r sample_mem task option cell"

definition on_health :: "(HealthServiceImpl cell \<times> 'r sample_mem) task \<Rightarrow> 'r sample_world task" where
  "on_health = focus_task (\<lambda>w. (sw_health w, sw_mem w)) (\<lambda>(cl, m) w. w\<lparr>sw_health := cl, sw_mem := m\<rparr>)"

text \<open>The future of the init task is a part of the memory; the user's setup function gets the rest of it.\<close>

definition on_init ::
  "(initTaskData option cell \<times> initTaskData option future_cell \<times> 'r sample_mem) task \<Rightarrow> 'r sample_world task" where
  "on_init = focus_task (\<lambda>w. (sw_init w, sm_init (sw_mem w), sw_mem w))
     (\<lambda>(cl, fc, m) w. w\<lparr>sw_init := cl, sw_mem := m\<lparr>sm_init := fc\<rparr>\<rparr>)"

definition on_http :: "('r sample_mem task option cell \<times> 'r sample_mem) task \<Rightarrow> 'r sample_world task" where
  "on_http = focus_task (\<lambda>w. (sw_http w, sw_mem w)) (\<lambda>(cl, m) w. w\<lparr>sw_http := cl, sw_mem := m\<rparr>)"

section \<open>The tasks\<close>

definition stageManagement :: string where "stageManagement = ''management''"
definition stageInitialize :: string where "stageInitialize = ''initialize''"
definition stageService :: string where "stageService = ''service''"

definition sample_stages :: "string list" where
  "sample_stages = [stageManagement, stageInitialize, stageService]"

text \<open>The two OpenTelemetry tasks, whose callbacks are stubs that return nil.\<close>

definition todo :: "'w build_func" where
  "todo = Some (\<lambda>_ w. (None, w))"

definition telemetry_task :: "(step list \<Rightarrow> step list) \<Rightarrow> 'w \<Rightarrow> 'w task" where
  "telemetry_task ko w = BuildTask (ko [StepSetup, StepTeardown]) w
     [WithSetup todo, WithTeardown todo, WithName ''telemetry'']"

definition sample_flush_task :: "(step list \<Rightarrow> step list) \<Rightarrow> 'w \<Rightarrow> 'w task" where
  "sample_flush_task ko w = BuildTask (ko [StepStop]) w [WithStop todo, WithName ''telemetry flush'']"

definition health_setup :: "(HealthServiceImpl, ('r, 'z) sample_mem_scheme) setup_func" where
  "health_setup c m = (let (s, m') = NewHealthServiceImpl m in ((s, None), m'))"

definition health_instance :: "(step list \<Rightarrow> step list) \<Rightarrow> 'r net \<Rightarrow> 'r sample_mem \<Rightarrow>
    (HealthServiceImpl, 'r sample_mem) instanceTask \<times> HealthServiceImpl cell" where
  "health_instance ko net m = inst_Build (ko [StepSetup, StepStart, StepStop]) (\<lambda>_. None) (Some health_setup)
     [inst_WithStart (Some (\<lambda>c service. HealthServiceImpl_Start net service c)),
      inst_WithStop (Some (\<lambda>c service. HealthServiceImpl_Stop net service c)),
      inst_WithName ''health service''] m"

text \<open>The error of the setup function is the one it declares and never assigns: nil.\<close>

definition init_setup :: "(initTaskData option, 'r sample_mem) setup_func" where
  "init_setup c m =
     (let err = None;
          data = \<lparr>itd_db = Some (sm_dbs m)\<rparr>;
          m' = m\<lparr>sm_dbs := sm_dbs m + 1\<rparr>
      in if err \<noteq> None then ((None, err), m') else ((Some data, err), m'))"

definition init_instance :: "(step list \<Rightarrow> step list) \<Rightarrow> 'r sample_mem \<Rightarrow>
    (initTaskData option, initTaskData option future_cell \<times> 'r sample_mem) instanceTask \<times> initTaskData option cell" where
  "init_instance ko m = futuretask_New (ko [StepSetup, StepTeardown]) (\<lambda>_. None) None (Some init_setup)
     [inst_WithTeardown (Some (\<lambda>c data w. (None, w))), inst_WithName ''init data''] (sm_init m, m)"

text \<open>The provider of the HTTP service reads the future; a nil result would be dereferenced.\<close>

definition http_setup :: "'r net \<Rightarrow> (('r, 'z) sample_mem_scheme task option, ('r, 'z) sample_mem_scheme) setup_func" where
  "http_setup net c m =
     (let ((initData, err), m1) = initTask_Value m
      in if err \<noteq> None then ((None, err), m1)
         else (case initData of
                 None \<Rightarrow> ((None, None), m1\<lparr>sm_panicked := True\<rparr>)
               | Some d \<Rightarrow>
                   (let (s, m2) = NewHTTPServiceImpl net (itd_db d) m1
                    in ((Some (ServiceAsTask (HTTPService net s)), None), m2))))"

definition http_instance :: "(step list \<Rightarrow> step list) \<Rightarrow> 'r net \<Rightarrow> ('r, 'z) sample_mem_scheme \<Rightarrow>
    (('r, 'z) sample_mem_scheme task option, ('r, 'z) sample_mem_scheme) instanceTask \<times> ('r, 'z) sample_mem_scheme task option cell" where
  "http_instance ko net m = Provider (ko [StepSetup]) (Some (http_setup net)) [inst_WithName ''HTTP service''] m"

definition signals_task :: "'r net \<Rightarrow> 'w task" where
  "signals_task net = signal_task (\<lambda>c w. (n_signal net c, w)) (SignalTask [''interrupt'', ''interrupt'', ''terminated''])"

section \<open>The registration\<close>

definition new_mem :: "'r sample_mem" where
  "new_mem = \<lparr>sm_servers = [], sm_dbs = 0, sm_init = new_future_cell None chans_init, sm_waits = False, sm_panicked = False\<rparr>"

text \<open>
  The tasks are built before they are added, the init task inside \<open>InitAddTask\<close>; each construction makes
  the fields of its task.
\<close>

definition sample_register :: "(step list \<Rightarrow> step list) \<Rightarrow> 'r net \<Rightarrow>
    'r sample_world manager \<times> ctxs \<Rightarrow> 'r sample_world \<times> 'r sample_world manager \<times> ctxs" where
  "sample_register ko net ms =
     (let w = \<lparr>sw_mem = new_mem, sw_health = zero_cell, sw_init = zero_cell, sw_http = zero_cell\<rparr>;
          ms = AddTask stageManagement (Some (telemetry_task ko w)) [] w ms;
          ms = AddTask stageService (Some (sample_flush_task ko w)) [] w ms;
          (health, cl) = health_instance ko net (sw_mem w);
          w = w\<lparr>sw_health := cl\<rparr>;
          ms = AddTask stageManagement (Some (on_health (instance_task health))) [] w ms;
          (_, w, ms) = InitAddTask stageInitialize
            (\<lambda>w. let (init, cl) = init_instance ko (sw_mem w)
                 in (Some (on_init (instance_task init)), w\<lparr>sw_init := cl\<rparr>)) [] w ms;
          (http, cl) = http_instance ko net (sw_mem w);
          w = w\<lparr>sw_http := cl\<rparr>;
          ms = AddTask stageService (Some (on_http (instance_task http))) [] w ms;
          ms = AddTask stageManagement (Some (signals_task net)) [] w ms
      in (w, ms))"

definition sample_options :: "nat \<Rightarrow> 'r sample_world manager_option list" where
  "sample_options logger = [WithLogger logger, WithStages sample_stages, WithShutdownTimeout (20 * second),
     WithEnforceShutdownTimeout True]"

text \<open>\<open>run\<close>, up to the call of \<open>Run\<close> on the manager.\<close>

definition sample_run :: "(step list \<Rightarrow> step list) \<Rightarrow> 'r net \<Rightarrow> nat \<Rightarrow> ctxs \<Rightarrow> go_error + 'r sample_world sys" where
  "sample_run ko net logger st =
     (case New (sample_options logger) of
        Inl err \<Rightarrow> Inl err
      | Inr m \<Rightarrow> (let (w, (m', st')) = sample_register ko net (m, st) in Inr (initial_sys m' st' w)))"

section \<open>The registered tasks\<close>

definition map_order :: "(step list \<Rightarrow> step list) \<Rightarrow> bool" where
  "map_order ko \<longleftrightarrow> (\<forall>l. distinct l \<longrightarrow> distinct (ko l) \<and> set (ko l) = set l)"

lemma map_order_key: "map_order ko \<Longrightarrow> distinct l \<Longrightarrow> set l = fst ` set (tb_stepFunc t) \<Longrightarrow> key_order (ko l) t"
  by (simp add: map_order_def key_order_def)

lemmas sample_build_defs = BuildTask_def newTaskBuild_def build_init_def Let_def WithSetup_def WithTeardown_def WithStop_def
  WithStart_def WithStep_def WithName_def empty_build_def todo_def

lemma BuildTask_ok:
  assumes "map_order ko" and "distinct l" and "set l = fst ` set (tb_stepFunc (fold (\<lambda>opt. opt) options empty_build))"
    and "build_ok w (fold (\<lambda>opt. opt) options empty_build)"
  shows "ti_InitError (GetTaskInfo (BuildTask (ko l) w options) w') = None"
    "taskHasStep (BuildTask (ko l) w options) st w' \<longleftrightarrow>
       st \<in> set l \<union> (case tb_parent (fold (\<lambda>opt. opt) options empty_build) of None \<Rightarrow> {} | Some p \<Rightarrow> set (taskSteps p w))"
proof -
  note key = map_order_key [OF assms(1-3)]
  show "ti_InitError (GetTaskInfo (BuildTask (ko l) w options) w') = None"
    using build_state_ok [OF key, of w] assms(4) by (simp add: BuildTask_def newTaskBuild_def taskBuild_TaskInfo_def Let_def)
  show "taskHasStep (BuildTask (ko l) w options) st w' \<longleftrightarrow>
       st \<in> set l \<union> (case tb_parent (fold (\<lambda>opt. opt) options empty_build) of None \<Rightarrow> {} | Some p \<Rightarrow> set (taskSteps p w))"
    using build_state_steps [OF key, of w] assms(3) by (simp add: BuildTask_def newTaskBuild_def)
qed

lemma otel_tasks_ok:
  assumes "map_order ko"
  shows "ti_InitError (GetTaskInfo (telemetry_task ko w) w') = None" "ti_InitError (GetTaskInfo (sample_flush_task ko w) w') = None"
  unfolding telemetry_task_def sample_flush_task_def
  by (rule BuildTask_ok [OF assms]; simp add: build_ok_def sample_build_defs insert_commute)+

text \<open>An instance task without a parent whose callbacks are there is valid.\<close>

lemma instance_task_ok:
  assumes "inst_Build ks asTask (Some f) options u0 = (it, cl)" and "options_ok (it_options it)"
    and "key_order ks (instance_build it (setup_callback it))" and "tb_parent (instance_build it present) = None"
    and "\<forall>(st, g)\<in>set (tb_stepFunc (instance_build it (setup_callback it))). g \<noteq> None"
  shows "ti_InitError (GetTaskInfo (instance_task it) (cl, u)) = None"
    "set (bs_steps (c_state cl)) = insert StepSetup (fst ` set (bo_stepFunc (it_options it)))"
proof -
  note b = inst_Build_simps [OF assms(1)]
  have "build_ok (zero_cell, u0) (instance_build it (setup_callback it))"
    using assms(4,5) instance_build_parent [of it present "setup_callback it"] instance_build_keys [OF assms(2)]
    by (simp add: build_ok_def) (metis image_is_empty insert_not_empty set_empty)
  then show "ti_InitError (GetTaskInfo (instance_task it) (cl, u)) = None"
    using build_state_ok [OF assms(3), of "(zero_cell, u0)"]
    by (simp add: taskBuild_TaskInfo_def Let_def current_build_steps b)
  show "set (bs_steps (c_state cl)) = insert StepSetup (fst ` set (bo_stepFunc (it_options it)))"
    using build_state_steps [OF assms(3), of "(zero_cell, u0)"] assms(4) instance_build_parent [of it present "setup_callback it"]
      instance_build_keys [OF assms(2)] by (simp add: b)
qed

lemmas sample_instance_defs = inst_Build_def Let_def inst_options_def inst_option_defs instance_build_def
  WithSetup_def WithStep_def WithName_def WithSkipped_def WithTaskOptions_def empty_build_def step_callback_def setup_callback_def

lemma sample_options_ok:
  "options_ok (inst_options [inst_WithStart f, inst_WithStop g, inst_WithName n])"
  "options_ok (inst_options ([inst_WithTeardown f, inst_WithName n] @ [inst_WithSkipped sk]))"
  "options_ok (inst_options ([inst_WithName n] @ [WithParentFromSetup b]))"
  by (rule inst_options_ok; auto intro: inst_exported.intros)+

lemma health_instance_ok:
  assumes "map_order ko" and "health_instance ko net m = (it, cl)"
  shows "ti_InitError (GetTaskInfo (instance_task it) (cl, u)) = None" "options_ok (it_options it)" "standalone it"
    "it_setupFunc it = Some health_setup" "c_parent cl = None"
    "bo_stepFunc (it_options it) = [(StepStart, Some (\<lambda>c service. HealthServiceImpl_Start net service c)),
       (StepStop, Some (\<lambda>c service. HealthServiceImpl_Stop net service c))]"
proof -
  note b = inst_Build_simps [OF assms(2) [unfolded health_instance_def]]
  show ok: "options_ok (it_options it)" by (simp add: b sample_options_ok)
  show "standalone it" "bo_stepFunc (it_options it) = [(StepStart, Some (\<lambda>c service. HealthServiceImpl_Start net service c)),
       (StepStop, Some (\<lambda>c service. HealthServiceImpl_Stop net service c))]"
    by (simp_all add: standalone_def b sample_instance_defs)
  show "it_setupFunc it = Some health_setup" "c_parent cl = None" by (simp_all add: b)
  show "ti_InitError (GetTaskInfo (instance_task it) (cl, u)) = None"
    by (rule instance_task_ok(1) [OF assms(2) [unfolded health_instance_def] ok])
      (auto intro!: map_order_key [OF assms(1)] simp: b sample_instance_defs)
qed

lemma init_instance_ok:
  assumes "map_order ko" and "init_instance ko m = (it, cl)"
  shows "ti_InitError (GetTaskInfo (instance_task it) (cl, u)) = None" "options_ok (it_options it)" "standalone it"
    "it_setupFunc it = Some (future_setup None (Some init_setup))" "c_parent cl = None" "c_data cl = None"
    "bo_stepFunc (it_options it) = [(StepTeardown, Some (\<lambda>c data w. (None, w)))]" "StepSetup \<in> set (bs_steps (c_state cl))"
proof -
  note n = assms(2) [unfolded init_instance_def futuretask_New_def]
  note b = inst_Build_simps [OF n]
  show ok: "options_ok (it_options it)" using sample_options_ok(2) by (simp add: b)
  show "standalone it" "bo_stepFunc (it_options it) = [(StepTeardown, Some (\<lambda>c data w. (None, w)))]"
    by (simp_all add: standalone_def b sample_instance_defs)
  show "it_setupFunc it = Some (future_setup None (Some init_setup))" "c_parent cl = None" "c_data cl = None"
    by (simp_all add: b)
  have key: "key_order (ko [StepSetup, StepTeardown]) (instance_build it (setup_callback it))"
    by (rule map_order_key [OF assms(1)]) (auto simp: b sample_instance_defs)
  note i = instance_task_ok [OF n ok key]
  show "ti_InitError (GetTaskInfo (instance_task it) (cl, u)) = None" "StepSetup \<in> set (bs_steps (c_state cl))"
    by (subst i; simp add: b sample_instance_defs)+
qed

lemma http_instance_ok:
  assumes "map_order ko" and "http_instance ko net m = (it, cl)"
  shows "ti_InitError (GetTaskInfo (instance_task it) (cl, u)) = None" "options_ok (it_options it)"
    "bo_parentFromSetup (it_options it)" "tb_parent (instance_build it present) = None"
    "it_setupFunc it = Some (http_setup net)" "c_parent cl = None" "c_data cl = None"
    "bo_stepFunc (it_options it) = []" "it_asTask it = (\<lambda>d. d)" "key_order (it_keys it) (instance_build it present)"
    "tb_stepFunc (instance_build it f) = [(StepSetup, f)]"
proof -
  note n = assms(2) [unfolded http_instance_def Provider_def]
  note b = inst_Build_simps [OF n]
  show ok: "options_ok (it_options it)" using sample_options_ok(3) by (simp add: b)
  show "bo_parentFromSetup (it_options it)" "tb_parent (instance_build it present) = None" "bo_stepFunc (it_options it) = []"
    "tb_stepFunc (instance_build it f) = [(StepSetup, f)]"
    by (simp_all add: b sample_instance_defs)
  show "it_setupFunc it = Some (http_setup net)" "c_parent cl = None" "c_data cl = None" "it_asTask it = (\<lambda>d. d)"
    by (simp_all add: b)
  show "key_order (it_keys it) (instance_build it present)"
    unfolding b(4) by (rule map_order_key [OF assms(1)]) (auto simp: b sample_instance_defs)
  show "ti_InitError (GetTaskInfo (instance_task it) (cl, u)) = None"
    by (rule instance_task_ok(1) [OF n ok])
      (auto intro!: map_order_key [OF assms(1)] simp: b sample_instance_defs)
qed

lemma signals_ok: "ti_InitError (GetTaskInfo (signals_task net) w) = None"
  by (simp add: signals_task_def GetTaskInfo_def signal_task_def TaskSignalTask_TaskInfo_def)

section \<open>The state at the call of Run\<close>

abbreviation telemetryR :: tref where "telemetryR \<equiv> (stageManagement, 0)"
abbreviation healthR :: tref where "healthR \<equiv> (stageManagement, 1)"
abbreviation signalsR :: tref where "signalsR \<equiv> (stageManagement, 2)"
abbreviation initR :: tref where "initR \<equiv> (stageInitialize, 0)"
abbreviation flushR :: tref where "flushR \<equiv> (stageService, 0)"
abbreviation httpR :: tref where "httpR \<equiv> (stageService, 1)"

definition world0 :: "'r sample_world" where
  "world0 = \<lparr>sw_mem = new_mem, sw_health = zero_cell, sw_init = zero_cell, sw_http = zero_cell\<rparr>"

definition world1 :: "(step list \<Rightarrow> step list) \<Rightarrow> 'r net \<Rightarrow> 'r sample_world" where
  "world1 ko net = \<lparr>sw_mem = new_mem, sw_health = snd (health_instance ko net new_mem),
     sw_init = snd (init_instance ko (new_mem :: 'r sample_mem)), sw_http = snd (http_instance ko net new_mem)\<rparr>"

definition sample_tasks :: "(step list \<Rightarrow> step list) \<Rightarrow> 'r net \<Rightarrow> tref \<Rightarrow> 'r sample_world task" where
  "sample_tasks ko net r =
     (if r = telemetryR then telemetry_task ko world0
      else if r = healthR then on_health (instance_task (fst (health_instance ko net new_mem)))
      else if r = signalsR then signals_task net
      else if r = initR then on_init (instance_task (fst (init_instance ko new_mem)))
      else if r = flushR then sample_flush_task ko world0
      else on_http (instance_task (fst (http_instance ko net new_mem))))"

lemmas sample_stage_defs = stageManagement_def stageInitialize_def stageService_def

definition sample_stageTasks :: "(step list \<Rightarrow> step list) \<Rightarrow> 'r net \<Rightarrow> 'r sample_world stageTasks" where
  "sample_stageTasks ko net =
     (let add = (\<lambda>r. stageTasks_add (fst r) (newTaskWrapper (sample_tasks ko net r) []))
      in add signalsR (add httpR (add initR (add healthR (add flushR (add telemetryR newStageTasks))))))"

lemma sample_register_eq:
  fixes net :: "'r net"
  assumes "map_order ko" and "\<not> m_isRunning m" and "m_stages m = sample_stages" and "m_tasks m = newStageTasks"
  shows "sample_register ko net (m, st) = (world1 ko net, m\<lparr>m_tasks := sample_stageTasks ko net\<rparr>, st)"
proof -
  obtain hit hcl where h: "health_instance ko net new_mem = (hit, hcl)" by force
  obtain iit icl where i: "init_instance ko (new_mem :: 'r sample_mem) = (iit, icl)" by force
  obtain pit pcl where p: "http_instance ko net new_mem = (pit, pcl)" by force
  have ok: "ti_InitError (GetTaskInfo (on_health (instance_task hit)) (world0\<lparr>sw_health := hcl\<rparr>)) = None"
    "ti_InitError (GetTaskInfo (on_init (instance_task iit)) (world0\<lparr>sw_health := hcl, sw_init := icl\<rparr>)) = None"
    "ti_InitError (GetTaskInfo (on_http (instance_task pit)) (world0\<lparr>sw_health := hcl, sw_init := icl, sw_http := pcl\<rparr>)) = None"
    using health_instance_ok(1) [OF assms(1) h] init_instance_ok(1) [OF assms(1) i] http_instance_ok(1) [OF assms(1) p]
    by (simp_all add: on_health_def on_init_def on_http_def)
  show ?thesis
    unfolding sample_register_def world0_def [symmetric] Let_def
    using assms(2-4) ok h i p
    by (simp add: AddTask_valid otel_tasks_ok [OF assms(1)] signals_ok sample_stages_def InitAddTask_def world0_def
        world1_def sample_stageTasks_def sample_tasks_def sample_stage_defs)
qed

definition sample_manager :: "(step list \<Rightarrow> step list) \<Rightarrow> 'r net \<Rightarrow> nat \<Rightarrow> 'r sample_world manager" where
  "sample_manager ko net logger = default_manager\<lparr>m_stages := sample_stages, m_tasks := sample_stageTasks ko net,
     m_shutdownTimeout := 20 * second, m_enforceShutdownTimeout := True, m_logger := logger\<rparr>"

lemma sample_stages_ok: "stages_ok sample_stages"
  by (simp add: stages_ok_def sample_stages_def sample_stage_defs)

lemma sample_run_eq:
  fixes net :: "'r net"
  assumes "map_order ko"
  shows "sample_run ko net logger st = Inr (initial_sys (sample_manager ko net logger) st (world1 ko net))"
proof -
  let ?m = "default_manager\<lparr>m_logger := logger, m_stages := sample_stages, m_shutdownTimeout := 20 * second,
     m_enforceShutdownTimeout := True\<rparr> :: 'r sample_world manager"
  have "New (sample_options logger) = Inr ?m"
    using manager_init_None [of ?m] sample_stages_ok
    by (simp add: New_def Let_def sample_options_def WithLogger_def WithStages_def WithShutdownTimeout_def
        WithEnforceShutdownTimeout_def)
  then show ?thesis
    by (simp add: sample_run_def sample_register_eq [OF assms] default_manager_def sample_manager_def)
qed

lemma sample_get:
  "stageTasks_get (sample_stageTasks ko net) stage =
     map (\<lambda>r. newTaskWrapper (sample_tasks ko net r) [])
       (if stage = stageManagement then [telemetryR, healthR, signalsR] else if stage = stageInitialize then [initR]
        else if stage = stageService then [flushR, httpR] else [])"
  by (simp add: sample_stageTasks_def sample_stage_defs)

lemma sample_initial:
  assumes "ctxs_wf st"
  shows "initial (initial_sys (sample_manager ko net logger) st w)"
proof -
  have "idle_manager (sample_manager ko net logger)"
    using sample_stages_ok
    by (auto simp: idle_manager_def sample_manager_def default_manager_def wrappers_fresh_def tw_valid_def tw_at_def sample_get
        newTaskWrapper_def nth_Cons split: nat.splits if_splits)
      (auto simp: sample_stageTasks_def stageTasks_add_def stageTasks_get_def newStageTasks_def sample_stages_def sample_stage_defs)
  then show ?thesis
    using assms by (intro startable_initial) (simp add: startable_def sample_manager_def default_manager_def)
qed

lemma sample_names:
  "ti_Name (GetTaskInfo (sample_tasks ko net telemetryR) w) = ''telemetry''"
  "ti_Name (GetTaskInfo (sample_tasks ko net healthR) w) = ''health service''"
  "ti_Name (GetTaskInfo (sample_tasks ko net signalsR) w) = ''signals''"
  "ti_Name (GetTaskInfo (sample_tasks ko net initR) w) = ''init data''"
  "ti_Name (GetTaskInfo (sample_tasks ko net flushR) w) = ''telemetry flush''"
  "ti_Name (GetTaskInfo (sample_tasks ko net httpR) w) = ''HTTP service''"
proof -
  have n: "tb_name (current_build it cl) = tb_name (instance_build it (setup_callback it))" for it :: "('d, 'u) instanceTask" and cl
    by (simp add: current_build_def Let_def)
  show "ti_Name (GetTaskInfo (sample_tasks ko net telemetryR) w) = ''telemetry''"
    "ti_Name (GetTaskInfo (sample_tasks ko net flushR) w) = ''telemetry flush''"
    by (simp_all add: sample_tasks_def sample_stage_defs telemetry_task_def sample_flush_task_def sample_build_defs taskBuild_TaskInfo_def)
  show "ti_Name (GetTaskInfo (sample_tasks ko net signalsR) w) = ''signals''"
    by (simp add: sample_tasks_def sample_stage_defs signals_task_def GetTaskInfo_def signal_task_def TaskSignalTask_TaskInfo_def TaskNameSignals_def)
  show "ti_Name (GetTaskInfo (sample_tasks ko net healthR) w) = ''health service''"
    "ti_Name (GetTaskInfo (sample_tasks ko net initR) w) = ''init data''"
    "ti_Name (GetTaskInfo (sample_tasks ko net httpR) w) = ''HTTP service''"
    by (simp_all add: sample_tasks_def sample_stage_defs on_health_def on_init_def on_http_def focus_info_def
        taskBuild_TaskInfo_def n health_instance_def init_instance_def futuretask_New_def http_instance_def Provider_def sample_instance_defs)
qed

text \<open>
  The sample program registers its six tasks without an initialization error: \<open>New\<close> accepts the
  options, the tasks are in their stages in the order of the calls, and the manager may be run.
\<close>

lemma sample_registration:
  assumes "map_order ko" and "ctxs_wf st"
  shows "case sample_run ko net logger st of Inl err \<Rightarrow> False | Inr s \<Rightarrow>
    initial s \<and> m_initErrors (s_mgr s) = [] \<and> s_stages s = [''management'', ''initialize'', ''service''] \<and>
    m_shutdownTimeout (s_mgr s) = 20 * second \<and> m_enforceShutdownTimeout (s_mgr s) \<and>
    (\<forall>stage. map (\<lambda>tw. ti_Name (GetTaskInfo (tw_task tw) (s_world s))) (stageTasks_get (s_tasks s) stage) =
       (if stage = ''management'' then [''telemetry'', ''health service'', ''signals'']
        else if stage = ''initialize'' then [''init data'']
        else if stage = ''service'' then [''telemetry flush'', ''HTTP service''] else []))"
proof -
  let ?s = "initial_sys (sample_manager ko net logger) st (world1 ko net)"
  have "map (\<lambda>tw. ti_Name (GetTaskInfo (tw_task tw) (s_world ?s))) (stageTasks_get (s_tasks ?s) stage) =
       (if stage = ''management'' then [''telemetry'', ''health service'', ''signals'']
        else if stage = ''initialize'' then [''init data'']
        else if stage = ''service'' then [''telemetry flush'', ''HTTP service''] else [])" for stage
    using sample_names [of ko net "world1 ko net"] by (simp add: initial_sys_def sample_manager_def sample_get newTaskWrapper_def sample_stage_defs)
  then show ?thesis using sample_initial [OF assms(2)] unfolding sample_run_eq [OF assms(1)]
    by (simp add: initial_sys_def sample_manager_def default_manager_def sample_stages_def sample_stage_defs)
qed

end
