(* ===== verification/SampleRuns.thy ===== *)
theory SampleRuns
  imports SampleMain
begin

text \<open>
  The runs of the sample program: whatever the schedule, the network and the signals do, the HTTP service
  is set up with the data of the future, without waiting for it, and serves on its own server.
\<close>

declare split_paired_All [simp del] split_paired_Ex [simp del]

section \<open>One call of each task\<close>

lemma initTask_Value_ready:
  assumes "fc_inv None (sm_init m)" and "fc_resolved (sm_init m)"
  shows "\<exists>fc'. initTask_Value m = (data_error (fc_outcome (sm_init m)), m\<lparr>sm_init := fc'\<rparr>) \<and>
    fc_inv None fc' \<and> fc_resolved fc' \<and> fc_outcome fc' = fc_outcome (sm_init m)"
proof -
  let ?fc = "sm_init m"
  obtain d f chs where d: "future_Done (fc_future ?fc) (fc_chans ?fc) = (d, f, chs)" by (metis prod_cases3)
  have "latch_inv (f_l (fc_future ?fc)) (fc_chans ?fc)" using assms(1) by (simp add: fc_inv_def future_inv_def)
  from future_Value_eq [OF this, of None "[]" True "[]"] assms(2)
  have "fst (future_Value None [] True [] (fc_future ?fc) (fc_chans ?fc)) = Some (fc_outcome ?fc)"
    by (simp add: fc_resolved_def fc_outcome_def Let_def)
  moreover have "snd (future_Value None [] True [] (fc_future ?fc) (fc_chans ?fc)) = (f, chs)"
    by (simp add: future_Value_def d)
  ultimately have "future_Value None [] True [] (fc_future ?fc) (fc_chans ?fc) = (Some (fc_outcome ?fc), f, chs)"
    by (metis prod.collapse)
  then show ?thesis using fc_Done [OF assms(1) d] assms(2)
    by (intro exI [of _ "?fc\<lparr>fc_future := f, fc_chans := chs\<rparr>"]) (simp add: initTask_Value_def futuretask_Value_def)
qed

text \<open>What the services do to the memory: servers are added and get their base context.\<close>

definition mem_grows :: "('r, 'z) sample_mem_scheme \<Rightarrow> ('r, 'z) sample_mem_scheme \<Rightarrow> bool" where
  "mem_grows m m' \<longleftrightarrow> sample_mem.more m' = sample_mem.more m \<and> sm_init m' = sm_init m \<and> sm_waits m' = sm_waits m \<and> sm_panicked m' = sm_panicked m \<and>
     length (sm_servers m) \<le> length (sm_servers m') \<and>
     (\<forall>p<length (sm_servers m). ws_Addr (sm_servers m' ! p) = ws_Addr (sm_servers m ! p))"

lemma mem_grows_refl [simp]: "mem_grows m m"
  by (simp add: mem_grows_def)

lemma addr_update [simp]:
  "q < length l \<Longrightarrow> ws_Addr (l[p := (l ! p)\<lparr>ws_BaseContext := x\<rparr>] ! q) = ws_Addr (l ! q)"
  by (cases "q = p") simp_all

lemma mem_grows_services [simp]:
  "mem_grows m (set_BaseContext p c m)" "mem_grows m (snd (new_server h a m))"
  "mem_grows m (snd (HealthServiceImpl_Start net s c m))" "mem_grows m (snd (HealthServiceImpl_Stop net s c m))"
  "mem_grows m (snd (HTTPServiceImpl_Start net s' c m))" "mem_grows m (snd (HTTPServiceImpl_Stop net s' c m))"
  "mem_grows m (snd (NewHealthServiceImpl m))" "mem_grows m (snd (NewHTTPServiceImpl net db m))"
  by (auto simp: mem_grows_def set_BaseContext_def new_server_def HealthServiceImpl_Start_def HealthServiceImpl_Stop_def
      HTTPServiceImpl_Start_def HTTPServiceImpl_Stop_def NewHealthServiceImpl_def NewHTTPServiceImpl_def Let_def nth_list_update
      nth_append split_beta)

lemma otel_runs:
  "snd (task_Run (telemetry_task ko w0) c st w) = w" "snd (task_Run (sample_flush_task ko w0) c st w) = w"
  "snd (task_Run (signals_task net) c st w) = w"
  by (auto simp: telemetry_task_def sample_flush_task_def signals_task_def signal_task_def build_task_def sample_build_defs
      taskBuild_Run_def loadParent_def)

lemma health_runs:
  assumes "map_order ko" and "health_instance ko net m0 = (it, cl0)" and "c_parent cl = None"
    and "task_Run (instance_task it) c st (cl, m) = (e, (cl', m'))"
  shows "c_parent cl' = None \<and> mem_grows m m'"
proof -
  note h = health_instance_ok [OF assms(1,2)]
  have "inst_Run it c st (cl, m) = Some (e, (cl', m')) \<or> (cl', m') = (cl, m)"
    using assms(4) by (auto simp: instance_task_def split: option.splits)
  then show ?thesis
    unfolding inst_Run_standalone [OF h(2,3) assms(3)] h(4,6)
    using assms(3) mem_grows_services
    by (auto simp: health_setup_def split_beta split: if_splits option.splits)
qed

lemma init_runs:
  assumes "map_order ko" and "init_instance ko m0 = (it, cl0)" and "c_parent cl = None"
    and "task_Run (instance_task it) c st (cl, fc, m) = (e, (cl', fc', m'))"
  shows "if st = StepSetup \<and> c_data cl = None
    then e = None \<and> c_parent cl' = None \<and> c_state cl' = c_state cl \<and> m' = m\<lparr>sm_dbs := sm_dbs m + 1\<rparr> \<and>
           fc' = resolve_cell (OpResolve (Some \<lparr>itd_db = Some (sm_dbs m)\<rparr>)) fc
    else (cl', fc', m') = (cl, fc, m)"
proof -
  note h = init_instance_ok [OF assms(1,2)]
  note run = inst_Run_standalone [OF h(2,3) assms(3)]
  show ?thesis
  proof (cases "st = StepSetup")
    case True
    have "future_setup None (Some init_setup) c (fc, m) =
        ((Some \<lparr>itd_db = Some (sm_dbs m)\<rparr>, None), (resolve_cell (OpResolve (Some \<lparr>itd_db = Some (sm_dbs m)\<rparr>)) fc, m\<lparr>sm_dbs := sm_dbs m + 1\<rparr>))"
      by (simp add: future_setup_def checked_setup_def init_setup_def Let_def)
    with True assms(3,4) show ?thesis by (auto simp: instance_task_def run h(4))
  next
    case False
    with assms(4) show ?thesis by (auto simp: instance_task_def run h(7) split: if_splits option.splits)
  qed
qed

text \<open>The provider: its setup gets the data of the future; its other steps are those of the service.\<close>

definition http_ready :: "'r net \<Rightarrow> nat \<Rightarrow> ('r, 'z) sample_mem_scheme task option cell \<Rightarrow> ('r, 'z) sample_mem_scheme \<Rightarrow> bool" where
  "http_ready net d cl m \<longleftrightarrow> (\<exists>s. c_data cl = Some (Some (ServiceAsTask (HTTPService net s))) \<and> c_parent cl = c_data cl \<and>
     his_db s = Some d \<and> his_server s < length (sm_servers m) \<and> ws_Addr (sm_servers m ! his_server s) = '':8080'')"

lemma http_ready_grows: "http_ready net d cl m \<Longrightarrow> mem_grows m m' \<Longrightarrow> http_ready net d cl m'"
  unfolding http_ready_def mem_grows_def by (metis order_less_le_trans)

lemma http_sets_up:
  assumes "map_order ko" and "http_instance ko net m0 = (it, cl0)" and "c_parent cl = None" and "c_data cl = None"
    and "fc_inv None (sm_init m)" and "fc_resolved (sm_init m)"
    and "fc_outcome (sm_init m) = (Some \<lparr>itd_db = Some d\<rparr>, None)"
    and "task_Run (instance_task it) c StepSetup (cl, m) = (e, (cl', m'))"
  shows "e = None \<and> http_ready net d cl' m' \<and> StepSetup \<in> set (bs_steps (c_state cl')) \<and>
    sm_waits m' = sm_waits m \<and> sm_panicked m' = sm_panicked m \<and> sample_mem.more m' = sample_mem.more m \<and>
    fc_inv None (sm_init m') \<and> fc_resolved (sm_init m') \<and> fc_outcome (sm_init m') = fc_outcome (sm_init m)"
proof -
  note h = http_instance_ok [OF assms(1,2)]
  obtain fc' where v: "initTask_Value m = ((Some \<lparr>itd_db = Some d\<rparr>, None), m\<lparr>sm_init := fc'\<rparr>)"
    "fc_inv None fc'" "fc_resolved fc'" "fc_outcome fc' = fc_outcome (sm_init m)"
    using initTask_Value_ready [OF assms(5,6)] assms(7) by (auto simp: data_error_def)
  obtain s m2 where n: "NewHTTPServiceImpl net (Some d) (m\<lparr>sm_init := fc'\<rparr>) = (s, m2)" by force
  then have s: "his_db s = Some d" "his_server s < length (sm_servers m2)" "ws_Addr (sm_servers m2 ! his_server s) = '':8080''"
    "sm_init m2 = fc'" "sm_waits m2 = sm_waits m" "sm_panicked m2 = sm_panicked m" "sample_mem.more m2 = sample_mem.more m"
    by (auto simp: NewHTTPServiceImpl_def new_server_def Let_def)
  let ?svc = "ServiceAsTask (HTTPService net s)"
  have svc: "taskSteps ?svc u = [StepStart, StepStop]" "ti_InitError (GetTaskInfo ?svc u) = None" for u
    by (simp_all add: ServiceAsTask_def newServiceTask_def HTTPService_def taskSteps_def GetTaskInfo_def
        serviceTask_TaskInfo_def zero_task_info_def Let_def)
  have hs: "http_setup net c m = ((Some ?svc, None), m2)" by (simp add: http_setup_def v n)
  have "runSetup it (http_setup net) c (cl, m) = (e, (cl', m'))"
    using assms(8) inst_Run_setup [OF h(2,5) assms(3) h(4)] by (simp add: instance_task_def)
  then have sp: "set_parent it (Some ?svc) ?svc (cl\<lparr>c_data := Some (Some ?svc)\<rparr>, m2) = (e, (cl', m'))"
    using assms(4) h(3) by (simp add: runSetup_def hs h(9) Let_def)
  have "it_asTask it (Some ?svc) = Some ?svc" by (simp add: h(9))
  note spec = set_parent_spec [OF h(2,5) this h(10) sp, unfolded h(8,11) svc]
  have m': "m' = m2" and cl': "c_data cl' = Some (Some ?svc)" "c_parent cl' = Some (Some ?svc)" using spec by simp_all
  have "http_ready net d cl' m'" unfolding http_ready_def m' cl' using s(1-3) by (intro exI [of _ s]) simp
  moreover have "e = None" "StepSetup \<in> set (bs_steps (c_state cl'))" using spec by (simp_all add: present_def)
  ultimately show ?thesis using s(4-) v(2-4) m' by simp
qed

lemma http_runs:
  assumes "map_order ko" and "http_instance ko net m0 = (it, cl0)" and "http_ready net d cl m" and "st \<noteq> StepSetup"
    and "task_Run (instance_task it) c st (cl, m) = (e, (cl', m'))"
  shows "cl' = cl \<and> mem_grows m m' \<and>
    (st = StepStart \<longrightarrow> (\<exists>srv. ws_Addr srv = '':8080'' \<and> ws_BaseContext srv = Some c \<and> e = n_ListenAndServe net srv))"
proof -
  note h = http_instance_ok [OF assms(1,2)]
  obtain s where s: "c_parent cl = Some (Some (ServiceAsTask (HTTPService net s)))" "his_server s < length (sm_servers m)"
    "ws_Addr (sm_servers m ! his_server s) = '':8080''"
    using assms(3) by (auto simp: http_ready_def)
  let ?svc = "ServiceAsTask (HTTPService net s)"
  have a: "it_asTask it (Some ?svc) = Some ?svc" by (simp add: h(9))
  show ?thesis
  proof (cases "st = StepStart \<or> st = StepStop")
    case True
    then have has: "taskHasStep ?svc st m" by (auto simp: ServiceAsTask_hasStep)
    have "st \<notin> insert StepSetup (fst ` set (bo_stepFunc (it_options it)))" using assms(4) by (simp add: h(8))
    from inst_Run_forward [OF h(2) s(1) a this has] assms(5)
    have r: "task_Run ?svc c st m = (e, m')" "cl' = cl" by (auto simp: instance_task_def)
    show ?thesis
    proof (cases "st = StepStart")
      case True
      with r(1) have "HTTPServiceImpl_Start net s c m = (e, m')" by (simp add: ServiceAsTask_def newServiceTask_def serviceTask_Run_def HTTPService_def Let_def)
      then have "m' = snd (HTTPServiceImpl_Start net s c m)" "e = n_ListenAndServe net ((sm_servers m ! his_server s)\<lparr>ws_BaseContext := Some c\<rparr>)"
        using s(2) by (auto simp: HTTPServiceImpl_Start_def set_BaseContext_def Let_def)
      with r(2) s(3) show ?thesis by (intro conjI impI exI [of _ "(sm_servers m ! his_server s)\<lparr>ws_BaseContext := Some c\<rparr>"]) simp_all
    next
      case False
      with True have st: "st = StepStop" by simp
      with r(1) have "HTTPServiceImpl_Stop net s c m = (e, m')" by (simp add: ServiceAsTask_def newServiceTask_def serviceTask_Run_def HTTPService_def Let_def)
      then have "m' = snd (HTTPServiceImpl_Stop net s c m)" by simp
      with r(2) st show ?thesis by simp
    qed
  next
    case False
    then have "\<not> taskHasStep ?svc st m" by (auto simp: ServiceAsTask_hasStep HTTPService_def assms(4))
    then have "\<not> taskHasStep (lift_task ?svc) st (cl, m)" by simp
    then have "inst_Run it c st (cl, m) = Some (Some (newInvalidTaskStep st), (cl, m))"
      using assms(4) s(1) by (simp add: inst_Run_def taskBuild_Run_def loadParent_def current_build_steps h(9,11) Let_def)
    with assms(5) False show ?thesis by (auto simp: instance_task_def)
  qed
qed

lemma http_instance_steps:
  assumes "map_order ko" and "http_instance ko net m = (it, cl)"
  shows "StepSetup \<in> set (bs_steps (c_state cl))"
proof -
  note n = assms(2) [unfolded http_instance_def Provider_def]
  note b = inst_Build_simps [OF n]
  have key: "key_order (ko [StepSetup]) (instance_build it (setup_callback it))"
    by (rule map_order_key [OF assms(1)]) (auto simp: b sample_instance_defs)
  show ?thesis
    by (subst instance_task_ok(2) [OF n http_instance_ok(2) [OF assms] key]) (simp_all add: b sample_instance_defs)
qed

lemma http_idle:
  assumes "map_order ko" and "http_instance ko net m0 = (it, cl0)" and "c_parent cl = None" and "st \<noteq> StepSetup"
    and "task_Run (instance_task it) c st (cl, m) = (e, (cl', m'))"
  shows "cl' = cl \<and> m' = m"
proof -
  note h = http_instance_ok [OF assms(1,2)]
  have "tb_parent (current_build it cl) = None"
    using h(4) instance_build_parent [of it present "setup_callback it"] by (simp add: current_build_def Let_def assms(3))
  then have "inst_Run it c st (cl, m) = Some (Some (newInvalidTaskStep st), (cl, m))"
    using assms(4) by (simp add: inst_Run_def taskBuild_Run_def loadParent_def current_build_steps h(11) Let_def)
  with assms(5) show ?thesis by (auto simp: instance_task_def)
qed

section \<open>The invariant of the program\<close>

definition sample_refs :: "tref set" where
  "sample_refs = {telemetryR, healthR, signalsR, initR, flushR, httpR}"

lemma sample_valid: "tw_valid (sample_stageTasks ko net) r \<longleftrightarrow> r \<in> sample_refs"
  by (cases r) (auto simp: tw_valid_def sample_get sample_refs_def sample_stage_defs less_Suc_eq numeral_3_eq_3 numeral_2_eq_2
      split: if_splits)

lemma sample_at: "r \<in> sample_refs \<Longrightarrow> tw_at (sample_stageTasks ko net) r = newTaskWrapper (sample_tasks ko net r) []"
  by (auto simp: tw_at_def sample_get sample_refs_def sample_stage_defs)

definition sample_has_setup :: "'r sample_world \<Rightarrow> bool" where
  "sample_has_setup w \<longleftrightarrow> StepSetup \<in> set (bs_steps (c_state (sw_init w))) \<and> StepSetup \<in> set (bs_steps (c_state (sw_http w)))"

lemma sample_tasks_have_setup:
  "has_setup_in sample_has_setup (sample_tasks ko net initR)" "has_setup_in sample_has_setup (sample_tasks ko net httpR)"
  by (simp_all add: has_setup_in_def sample_has_setup_def sample_tasks_def sample_stage_defs on_init_def on_http_def)

text \<open>The future and the init task.\<close>

definition init_part :: "event list \<Rightarrow> 'r sample_world \<Rightarrow> bool" where
  "init_part t w \<longleftrightarrow> c_parent (sw_init w) = None \<and> fc_inv None (sm_init (sw_mem w)) \<and>
     (fc_resolved (sm_init (sw_mem w)) \<longleftrightarrow> returned_in t initR StepSetup \<or> skipped_in t initR) \<and>
     (\<not> returned_in t initR StepSetup \<longrightarrow> c_data (sw_init w) = None) \<and>
     (\<forall>e. EvReturn initR StepSetup e \<in> set t \<longrightarrow> e = None \<and>
        (\<exists>d. fc_outcome (sm_init (sw_mem w)) = (Some \<lparr>itd_db = Some d\<rparr>, None)))"

text \<open>The HTTP service.\<close>

definition http_part :: "'r net \<Rightarrow> event list \<Rightarrow> 'r sample_world \<Rightarrow> bool" where
  "http_part net t w \<longleftrightarrow> (returned_in t httpR StepSetup \<longrightarrow> returned_in t initR StepSetup) \<and>
     (\<not> returned_in t httpR StepSetup \<longrightarrow> c_data (sw_http w) = None \<and> c_parent (sw_http w) = None) \<and>
     (\<forall>e. EvReturn httpR StepSetup e \<in> set t \<longrightarrow> e = None \<and>
        (\<exists>d. fc_outcome (sm_init (sw_mem w)) = (Some \<lparr>itd_db = Some d\<rparr>, None) \<and> http_ready net d (sw_http w) (sw_mem w))) \<and>
     (\<forall>e. EvReturn httpR StepStart e \<in> set t \<longrightarrow>
        (\<exists>srv c. ws_Addr srv = '':8080'' \<and> ws_BaseContext srv = Some c \<and> e = n_ListenAndServe net srv))"

definition sample_inv :: "(step list \<Rightarrow> step list) \<Rightarrow> 'r net \<Rightarrow> event list \<Rightarrow> 'r sample_world \<Rightarrow> bool" where
  "sample_inv ko net t w \<longleftrightarrow> map_order ko \<and> sample_has_setup w \<and> c_parent (sw_health w) = None \<and>
     init_part t w \<and> http_part net t w \<and> \<not> sm_waits (sw_mem w) \<and> \<not> sm_panicked (sw_mem w)"

text \<open>Events of other tasks, and changes of the memory that only add to it, keep it.\<close>

lemma sample_inv_frame:
  assumes "sample_inv ko net t w" and "mem_grows (sw_mem w) (sw_mem w')" and "sw_init w' = sw_init w" and "sw_http w' = sw_http w"
    and "c_parent (sw_health w') = None"
    and "\<And>st. returned_in t' initR st = returned_in t initR st" "\<And>st. returned_in t' httpR st = returned_in t httpR st"
    and "skipped_in t' initR = skipped_in t initR"
    and "\<And>r st e. r = initR \<or> r = httpR \<Longrightarrow> EvReturn r st e \<in> set t' \<Longrightarrow> EvReturn r st e \<in> set t"
  shows "sample_inv ko net t' w'"
proof -
  have m: "sm_init (sw_mem w') = sm_init (sw_mem w)" "sm_waits (sw_mem w') = sm_waits (sw_mem w)"
    "sm_panicked (sw_mem w') = sm_panicked (sw_mem w)"
    using assms(2) by (simp_all add: mem_grows_def)
  have "init_part t' w'" using assms(1) assms(9) unfolding init_part_def sample_inv_def m assms(3,6,8) by blast
  moreover have "http_part net t' w'"
  proof -
    have h: "http_part net t w" using assms(1) by (simp add: sample_inv_def)
    have "(\<forall>e. EvReturn httpR StepSetup e \<in> set t' \<longrightarrow> e = None \<and>
        (\<exists>d. fc_outcome (sm_init (sw_mem w)) = (Some \<lparr>itd_db = Some d\<rparr>, None) \<and> http_ready net d (sw_http w) (sw_mem w')))"
      using h assms(9) http_ready_grows [OF _ assms(2)] unfolding http_part_def by metis
    then show ?thesis using h assms(9) unfolding http_part_def m assms(4,6,7) by blast
  qed
  ultimately show ?thesis using assms(1,5) m by (simp add: sample_inv_def sample_has_setup_def assms(3,4))
qed

lemma sample_inv_call: "sample_inv ko net t w \<Longrightarrow> sample_inv ko net (EvCall r st # t) w"
  by (rule sample_inv_frame) (auto simp: sample_inv_def)

lemma sample_inv_other:
  assumes "sample_inv ko net t w" and "r \<noteq> initR" and "r \<noteq> httpR" and "mem_grows (sw_mem w) (sw_mem w')"
    and "sw_init w' = sw_init w" and "sw_http w' = sw_http w" and "c_parent (sw_health w') = None"
  shows "sample_inv ko net (EvReturn r st e # t) w'"
  using assms(1,4-7) by (rule sample_inv_frame) (use assms(2,3) in auto)

lemma sample_init_returns:
  assumes inv: "sample_inv ko net t w" and new: "\<not> returned_in t initR st" "\<not> skipped_in t initR"
    and run: "task_Run (sample_tasks ko net initR) c st w = (e, w')"
  shows "sample_inv ko net (EvReturn initR st e # t) w'"
proof -
  obtain it cl0 where i: "init_instance ko (new_mem :: 'a sample_mem) = (it, cl0)" by force
  obtain cl' fc' m' where r: "task_Run (instance_task it) c st (sw_init w, sm_init (sw_mem w), sw_mem w) = (e, (cl', fc', m'))"
    and w': "w' = w\<lparr>sw_init := cl', sw_mem := m'\<lparr>sm_init := fc'\<rparr>\<rparr>"
    using run by (auto simp: sample_tasks_def sample_stage_defs on_init_def i split: prod.splits)
  have ko: "map_order ko" and par: "c_parent (sw_init w) = None" and part: "init_part t w"
    and data: "\<not> returned_in t initR StepSetup \<Longrightarrow> c_data (sw_init w) = None"
    using inv by (simp_all add: sample_inv_def init_part_def)
  note run' = init_runs [OF ko i par r]
  show ?thesis
  proof (cases "st = StepSetup")
    case False
    then have "w' = w" using run' w' by simp
    with inv False show ?thesis by (auto simp: sample_inv_def init_part_def http_part_def sample_stage_defs)
  next
    case True
    with new data run' have d: "e = None" "c_parent cl' = None" "c_state cl' = c_state (sw_init w)"
      "m' = (sw_mem w)\<lparr>sm_dbs := sm_dbs (sw_mem w) + 1\<rparr>"
      "fc' = resolve_cell (OpResolve (Some \<lparr>itd_db = Some (sm_dbs (sw_mem w))\<rparr>)) (sm_init (sw_mem w))" by simp_all
    have "\<not> fc_resolved (sm_init (sw_mem w))" "fc_inv None (sm_init (sw_mem w))"
      using part new True by (simp_all add: init_part_def)
    from resolve_cell_ok [OF this(2,1)] have fc: "fc_inv None fc'" "fc_resolved fc'"
      "fc_outcome fc' = (Some \<lparr>itd_db = Some (sm_dbs (sw_mem w))\<rparr>, None)"
      unfolding d(5) by simp_all
    have "\<not> returned_in t httpR StepSetup" using inv new True by (auto simp: sample_inv_def http_part_def)
    then have nh: "EvReturn httpR StepSetup e' \<notin> set t" for e' by (auto simp: returned_in_iff)
    have "init_part (EvReturn initR st e # t) w'"
      using part True d fc by (auto simp: init_part_def w')
    moreover have "http_part net (EvReturn initR st e # t) w'"
      using inv nh by (simp add: sample_inv_def http_part_def w' sample_stage_defs)
    ultimately show ?thesis using inv d by (simp add: sample_inv_def sample_has_setup_def w')
  qed
qed

lemma sample_http_returns:
  assumes inv: "sample_inv ko net t w" and new: "\<not> returned_in t httpR st"
    and first: "st = StepSetup \<Longrightarrow> setup_succeeded t initR" and own: "st = StepStart \<Longrightarrow> returned_in t httpR StepSetup"
    and run: "task_Run (sample_tasks ko net httpR) c st w = (e, w')"
  shows "sample_inv ko net (EvReturn httpR st e # t) w'"
proof -
  obtain it cl0 where i: "http_instance ko net (new_mem :: 'a sample_mem) = (it, cl0)" by force
  obtain cl' m' where r: "task_Run (instance_task it) c st (sw_http w, sw_mem w) = (e, (cl', m'))"
    and w': "w' = w\<lparr>sw_http := cl', sw_mem := m'\<rparr>"
    using run by (auto simp: sample_tasks_def sample_stage_defs on_http_def i split: prod.splits)
  have ko: "map_order ko" using inv by (simp add: sample_inv_def)
  show ?thesis
  proof (cases "st = StepSetup")
    case True
    obtain d where d: "fc_outcome (sm_init (sw_mem w)) = (Some \<lparr>itd_db = Some d\<rparr>, None)"
      and fc: "fc_inv None (sm_init (sw_mem w))" "fc_resolved (sm_init (sw_mem w))"
      using inv first [OF True] by (auto simp: sample_inv_def init_part_def setup_succeeded_def returned_in_iff)
    have "c_parent (sw_http w) = None" "c_data (sw_http w) = None"
      using inv new True by (simp_all add: sample_inv_def http_part_def)
    from http_sets_up [OF ko i this fc d r [unfolded True]] have a: "e = None" "http_ready net d cl' m'"
      "StepSetup \<in> set (bs_steps (c_state cl'))" "sm_waits m' = sm_waits (sw_mem w)" "sm_panicked m' = sm_panicked (sw_mem w)"
      "fc_inv None (sm_init m')" "fc_resolved (sm_init m')" "fc_outcome (sm_init m') = fc_outcome (sm_init (sw_mem w))"
      by simp_all
    have nr: "EvReturn httpR StepSetup e' \<notin> set t" for e' using new True by (auto simp: returned_in_iff)
    have "init_part (EvReturn httpR st e # t) w'"
      using inv a fc by (auto simp: sample_inv_def init_part_def w' sample_stage_defs)
    moreover have "http_part net (EvReturn httpR st e # t) w'"
      using inv a d nr True first [OF True] unfolding sample_inv_def http_part_def w'
      by (auto simp: setup_succeeded_def returned_in_iff)
    ultimately show ?thesis using inv a by (simp add: sample_inv_def sample_has_setup_def w')
  next
    case False
    have same: "\<And>e. EvReturn httpR StepSetup e \<in> set (EvReturn httpR st e' # t) \<longleftrightarrow> EvReturn httpR StepSetup e \<in> set t"
      "returned_in (EvReturn httpR st e' # t) httpR StepSetup = returned_in t httpR StepSetup" for e' using False by simp_all
    show ?thesis
    proof (cases "returned_in t httpR StepSetup")
      case True
      then obtain d where d: "fc_outcome (sm_init (sw_mem w)) = (Some \<lparr>itd_db = Some d\<rparr>, None)" "http_ready net d (sw_http w) (sw_mem w)"
        using inv by (auto simp: sample_inv_def http_part_def returned_in_iff)
      from http_runs [OF ko i d(2) False r] have a: "cl' = sw_http w" "mem_grows (sw_mem w) m'"
        "st = StepStart \<Longrightarrow> \<exists>srv. ws_Addr srv = '':8080'' \<and> ws_BaseContext srv = Some c \<and> e = n_ListenAndServe net srv" by simp_all
      have m: "sm_init m' = sm_init (sw_mem w)" "sm_waits m' = sm_waits (sw_mem w)" "sm_panicked m' = sm_panicked (sw_mem w)"
        using a(2) by (simp_all add: mem_grows_def)
      have "http_part net (EvReturn httpR st e # t) w'"
        using inv a(1,3) http_ready_grows [OF _ a(2)] unfolding sample_inv_def http_part_def same w'
        by (auto simp: m)
      moreover have "init_part (EvReturn httpR st e # t) w'"
        using inv by (simp add: sample_inv_def init_part_def w' m sample_stage_defs)
      ultimately show ?thesis using inv a(1) m by (simp add: sample_inv_def sample_has_setup_def w')
    next
      case no: False
      then have "c_parent (sw_http w) = None" using inv by (simp add: sample_inv_def http_part_def)
      from http_idle [OF ko i this False r] have "w' = w" by (simp add: w')
      moreover have "st \<noteq> StepStart" using own no by auto
      ultimately show ?thesis using inv False
        by (auto simp: sample_inv_def init_part_def http_part_def sample_stage_defs)
    qed
  qed
qed

lemma sample_health_returns:
  assumes inv: "sample_inv ko net t w" and run: "task_Run (sample_tasks ko net healthR) c st w = (e, w')"
  shows "sample_inv ko net (EvReturn healthR st e # t) w'"
proof -
  obtain it cl0 where i: "health_instance ko net (new_mem :: 'a sample_mem) = (it, cl0)" by force
  obtain cl' m' where r: "task_Run (instance_task it) c st (sw_health w, sw_mem w) = (e, (cl', m'))"
    and w': "w' = w\<lparr>sw_health := cl', sw_mem := m'\<rparr>"
    using run by (auto simp: sample_tasks_def sample_stage_defs on_health_def i split: prod.splits)
  have "map_order ko" "c_parent (sw_health w) = None" using inv by (simp_all add: sample_inv_def)
  from health_runs [OF this(1) i this(2) r] show ?thesis
    by (intro sample_inv_other [OF inv]) (simp_all add: w' sample_stage_defs)
qed

lemma sample_returns:
  assumes inv: "sample_inv ko net t w" and r: "r \<in> sample_refs" and new: "\<not> returned_in t r st" "\<not> skipped_in t r"
    and rely: "may_rely_on True sample_stages (\<lambda>r. r \<in> sample_refs) (sample_tasks ko net) sample_has_setup t r st"
    and run: "task_Run (sample_tasks ko net r) c st w = (e, w')"
  shows "sample_inv ko net (EvReturn r st e # t) w'"
proof -
  have par: "c_parent (sw_health w) = None" using inv by (simp add: sample_inv_def)
  consider "r = initR" | "r = httpR" | "r = healthR" | "r = telemetryR \<or> r = flushR \<or> r = signalsR"
    using r by (auto simp: sample_refs_def)
  then show ?thesis
  proof cases
    case 1
    with sample_init_returns [OF inv] new run show ?thesis by blast
  next
    case 2
    have "setup_succeeded t initR" if "st = StepSetup"
      using rely sample_tasks_have_setup(1) [of ko net] that 2
      by (simp add: may_rely_on_def sample_refs_def earlier_def sample_stages_def sample_stage_defs)
    moreover have "returned_in t httpR StepSetup" if "st = StepStart"
      using rely sample_tasks_have_setup(2) [of ko net] that 2 by (auto simp: may_rely_on_def returned_in_iff)
    ultimately show ?thesis using sample_http_returns [OF inv] new(1) run 2 by blast
  next
    case 3
    with sample_health_returns [OF inv] run show ?thesis by blast
  next
    case 4
    then have "w' = w"
      using run otel_runs(1,2) [of ko world0 c st w] otel_runs(3) [of net c st w]
      by (auto simp: sample_tasks_def sample_stage_defs)
    with 4 par show ?thesis by (intro sample_inv_other [OF inv]) (auto simp: sample_stage_defs)
  qed
qed

section \<open>Skipped tasks\<close>

lemma instance_skipped:
  "ti_Skipped (GetTaskInfo (instance_task it) (cl, u)) =
     (let t = instance_build it (setup_callback it);
          p = (case tb_parent (current_build it cl) of None \<Rightarrow> None | Some p \<Rightarrow> ti_Skipped (GetTaskInfo p (cl, u)))
      in if tb_skipped t \<noteq> [] \<or> p \<noteq> None then Some (run_skipped (tb_skipped t) p) else None)"
  by (auto simp: taskBuild_TaskInfo_def loadParent_def current_build_def zero_task_info_def Let_def split: option.split)

lemma init_skipped:
  assumes "init_instance ko m0 = (it, cl0)" and "c_parent cl = None" and "ti_Skipped (GetTaskInfo (instance_task it) (cl, fc, m)) = Some f"
  shows "f c cause (cl, fc, m) = (cl, fst (future_skipped c cause (fc, m)), m)"
proof -
  note b = inst_Build_simps [OF assms(1) [unfolded init_instance_def futuretask_New_def]]
  have "tb_skipped (instance_build it (setup_callback it)) = [\<lambda>c cause (x, u). (x, future_skipped c cause u)]"
    "tb_parent (current_build it cl) = None"
    by (simp_all add: b sample_instance_defs current_build_def assms(2))
  with assms(3) [unfolded instance_skipped] have "f = run_skipped [\<lambda>c cause (x, u). (x, future_skipped c cause u)] None"
    by simp
  moreover have "snd (future_skipped c cause (fc, m)) = m" by (simp add: future_skipped_def split_beta Let_def)
  ultimately show ?thesis by (simp add: run_skipped_def prod_eq_iff)
qed

lemma BuildTask_skipped:
  assumes "tb_parent (fold (\<lambda>opt. opt) options empty_build) = None"
    and "tb_skipped (fold (\<lambda>opt. opt) options empty_build) = []"
  shows "ti_Skipped (GetTaskInfo (BuildTask ks w options) w') = None"
  using assms by (simp add: BuildTask_def newTaskBuild_def taskBuild_TaskInfo_def loadParent_def Let_def zero_task_info_def)

lemma instance_not_notified:
  "tb_skipped (instance_build it (setup_callback it)) = [] \<Longrightarrow> tb_parent (current_build it cl) = None \<Longrightarrow>
    ti_Skipped (GetTaskInfo (instance_task it) (cl, u)) = None"
  unfolding instance_skipped by simp

lemma others_not_notified:
  assumes "r \<in> sample_refs" and "r \<noteq> initR" and "c_parent (sw_health w) = None" and "r = httpR \<longrightarrow> c_parent (sw_http w) = None"
  shows "ti_Skipped (GetTaskInfo (sample_tasks ko net r) w) = None"
proof -
  consider "r = telemetryR" | "r = flushR" | "r = signalsR" | "r = healthR" | "r = httpR"
    using assms(1,2) by (auto simp: sample_refs_def)
  then show ?thesis
  proof cases
    case 1
    then have "sample_tasks ko net r = telemetry_task ko world0" by (simp add: sample_tasks_def)
    then show ?thesis unfolding telemetry_task_def by (simp only:) (rule BuildTask_skipped; simp add: sample_build_defs)
  next
    case 2
    then have "sample_tasks ko net r = sample_flush_task ko world0" by (simp add: sample_tasks_def sample_stage_defs)
    then show ?thesis unfolding sample_flush_task_def by (simp only:) (rule BuildTask_skipped; simp add: sample_build_defs)
  next
    case 3
    then show ?thesis
      by (simp add: sample_tasks_def sample_stage_defs signals_task_def GetTaskInfo_def signal_task_def TaskSignalTask_TaskInfo_def)
  next
    case 4
    have "ti_Skipped (GetTaskInfo (instance_task (fst (health_instance ko net new_mem))) (sw_health w, sw_mem w)) = None"
      using assms(3) by (intro instance_not_notified) (simp_all add: health_instance_def sample_instance_defs current_build_def)
    with 4 show ?thesis by (simp del: instance_task_simps add: sample_tasks_def sample_stage_defs on_health_def)
  next
    case 5
    have "ti_Skipped (GetTaskInfo (instance_task (fst (http_instance ko net new_mem))) (sw_http w, sw_mem w)) = None"
      using assms(4) 5
      by (intro instance_not_notified) (simp_all add: http_instance_def Provider_def sample_instance_defs current_build_def)
    with 5 show ?thesis by (simp del: instance_task_simps add: sample_tasks_def sample_stage_defs on_http_def)
  qed
qed

lemma sample_inv_skip:
  assumes inv: "sample_inv ko net t w" and r: "r \<in> sample_refs" and new: "\<not> skipped_in t r" "\<And>st. \<not> returned_in t r st"
    and f: "ti_Skipped (GetTaskInfo (sample_tasks ko net r) w) = Some f"
  shows "sample_inv ko net (EvSkipped r cause # t) (f c cause w)"
proof -
  have par: "c_parent (sw_health w) = None" "c_parent (sw_init w) = None" using inv by (simp_all add: sample_inv_def init_part_def)
  have "r = httpR \<Longrightarrow> c_parent (sw_http w) = None" using inv new(2) by (auto simp: sample_inv_def http_part_def)
  with others_not_notified [OF r _ par(1), of ko net] f have r: "r = initR" by fastforce
  obtain it cl0 where i: "init_instance ko (new_mem :: 'a sample_mem) = (it, cl0)" by force
  let ?m = "sw_mem w"
  have "\<exists>g. ti_Skipped (GetTaskInfo (instance_task it) (sw_init w, sm_init ?m, ?m)) = Some g \<and>
      f = (\<lambda>c cause w. (\<lambda>(cl, fc, m) w. w\<lparr>sw_init := cl, sw_mem := m\<lparr>sm_init := fc\<rparr>\<rparr>)
             (g c cause (sw_init w, sm_init (sw_mem w), sw_mem w)) w)"
    using f by (auto simp: r sample_tasks_def sample_stage_defs on_init_def i)
  then obtain g where g: "ti_Skipped (GetTaskInfo (instance_task it) (sw_init w, sm_init ?m, ?m)) = Some g"
    and fg: "f c cause w = (\<lambda>(cl, fc, m) w. w\<lparr>sw_init := cl, sw_mem := m\<lparr>sm_init := fc\<rparr>\<rparr>)
             (g c cause (sw_init w, sm_init ?m, ?m)) w" by auto
  let ?fc = "fst (future_skipped c cause (sm_init ?m, ?m))"
  have w': "f c cause w = w\<lparr>sw_mem := ?m\<lparr>sm_init := ?fc\<rparr>\<rparr>"
    unfolding fg init_skipped [OF i par(2) g] by simp
  have nh: "\<not> returned_in t httpR StepSetup" using inv new(2) [of StepSetup] by (auto simp: r sample_inv_def http_part_def)
  have fc: "fc_inv None (sm_init ?m)" using inv by (simp add: sample_inv_def init_part_def)
  from future_skipped_ok [OF this, of c cause ?m] have k: "fc_inv None ?fc" "fc_resolved ?fc" by simp_all
  have ni: "EvReturn initR st e \<notin> set t" "EvReturn httpR StepSetup e \<notin> set t" for st e
    using new(2) [of st] nh by (auto simp: r returned_in_iff)
  have "init_part (EvSkipped r cause # t) (f c cause w)"
    using inv new(2) [of StepSetup] k ni by (simp add: sample_inv_def init_part_def w' r)
  moreover have "http_part net (EvSkipped r cause # t) (f c cause w)"
    using inv nh ni by (simp add: sample_inv_def http_part_def w')
  ultimately show ?thesis using inv by (simp add: sample_inv_def sample_has_setup_def w')
qed

interpretation sample: program no_environment True sample_stages "\<lambda>r. r \<in> sample_refs" "sample_tasks ko net" sample_has_setup
  "sample_inv ko net" for ko net
proof unfold_locales
  show "sample_has_setup w" if "sample_inv ko net t w" for t w using that by (simp add: sample_inv_def)
  show "sample_inv ko net (EvCall r st # t) w" if "sample_inv ko net t w" for t w r st using that by (rule sample_inv_call)
  show "sample_inv ko net t w'" if "env_do no_environment ev t w = Some w'" for t w ev w' using that by (simp add: no_environment_def)
next
  show "sample_inv ko net (EvReturn r st e # t) w'"
    if "sample_inv ko net t w" "r \<in> sample_refs" "was_called t r st" "\<not> returned_in t r st" "\<not> skipped_in t r"
      "may_rely_on True sample_stages (\<lambda>r. r \<in> sample_refs) (sample_tasks ko net) sample_has_setup t r st"
      "env_returns no_environment t r st w" "task_Run (sample_tasks ko net r) c st w = (e, w')" for t w r st c e w'
    using sample_returns [OF that(1,2,4,5,6,8)] .
  show "sample_inv ko net (EvSkipped r cause # t) (f c cause w)"
    if "sample_inv ko net t w" "r \<in> sample_refs" "\<not> skipped_in t r" "\<And>st. \<not> was_called t r st" "\<And>st. \<not> returned_in t r st"
      "ti_Skipped (GetTaskInfo (sample_tasks ko net r) w) = Some f" for t w r f c cause
    using sample_inv_skip [OF that(1,2,3,5,6)] .
qed

section \<open>Properties\<close>

lemma sample_inv_start:
  assumes "map_order ko"
  shows "sample_inv ko net [] (world1 ko net)"
proof -
  obtain hit hcl where h: "health_instance ko net new_mem = (hit, hcl)" by force
  obtain iit icl where i: "init_instance ko (new_mem :: 'a sample_mem) = (iit, icl)" by force
  obtain pit pcl where p: "http_instance ko net new_mem = (pit, pcl)" by force
  have "chan_closed chans_init closedchan" by (simp add: chan_closed_def chans_init_def closedchan_def)
  note fc = new_future_cell_ok [OF this]
  have m: "sm_init new_mem = new_future_cell None chans_init" "\<not> sm_waits new_mem" "\<not> sm_panicked new_mem"
    by (simp_all add: new_mem_def)
  show ?thesis
    using health_instance_ok(5) [OF assms h] init_instance_ok(5,6,8) [OF assms i] http_instance_ok(6,7) [OF assms p]
      http_instance_steps [OF assms p] assms
    by (simp add: sample_inv_def sample_has_setup_def init_part_def http_part_def world1_def h i p m fc)
qed

lemma sample_bare: "bare (initial_sys (sample_manager ko net logger) st w)"
  by (auto simp: bare_def initial_sys_def sample_manager_def default_manager_def sample_valid sample_at newTaskWrapper_def zero_taskOptions_def)

lemma sample_run_inv:
  assumes "map_order ko" and "ctxs_wf st" and "sample_run ko net logger st = Inr s0" and "real_run no_environment s0 s"
  shows "sample_inv ko net (s_trace s) (s_world s)"
proof -
  have s0: "s0 = initial_sys (sample_manager ko net logger) st (world1 ko net)"
    using assms(3) by (simp add: sample_run_eq [OF assms(1)])
  have "sample.runs ko net s"
  proof (rule sample.runs_from [OF _ _ _ _ _ _ _ assms(4)])
    show "initial s0" "bare s0" by (simp_all add: s0 sample_initial [OF assms(2)] sample_bare)
    show "valid s0 r = (r \<in> sample_refs)" for r by (simp add: s0 initial_sys_def sample_manager_def sample_valid)
    show "task_of s0 r = sample_tasks ko net r" if "r \<in> sample_refs" for r
      using that by (simp add: s0 initial_sys_def sample_manager_def sample_at newTaskWrapper_def)
    show "m_enforceShutdownTimeout (s_mgr s0) = True" "s_stages s0 = sample_stages"
      by (simp_all add: s0 initial_sys_def sample_manager_def)
    show "sample_inv ko net [] (s_world s0)" using sample_inv_start [OF assms(1)] by (simp add: s0 initial_sys_def)
  qed
  then show ?thesis by (simp add: sample.runs_def)
qed

text \<open>
  C36: in every run of the sample program, whatever the schedule, the network and the signals do: no task
  waits for the future or dereferences a nil pointer, the future is resolved at most once, and when the
  setup of the HTTP service returned it returned no error, after the setup of the init task, and the
  service has the database the init task resolved the future with; its start returns what
  \<open>ListenAndServe\<close> returned on a server with address :8080 and a base context.
\<close>

theorem sample_http_has_db:
  assumes "map_order ko" and "ctxs_wf st" and "sample_run ko net logger st = Inr s0" and "real_run no_environment s0 s"
  shows "\<not> sm_waits (sw_mem (s_world s)) \<and> \<not> sm_panicked (sw_mem (s_world s)) \<and> \<not> fc_panicked (sm_init (sw_mem (s_world s))) \<and>
    (\<forall>e. EvReturn (''service'', 1) StepSetup e \<in> set (s_trace s) \<longrightarrow> e = None \<and>
       setup_succeeded (s_trace s) (''initialize'', 0) \<and>
       (\<exists>svc d. c_data (sw_http (s_world s)) = Some (Some (ServiceAsTask (HTTPService net svc))) \<and> his_db svc = Some d \<and>
          fc_outcome (sm_init (sw_mem (s_world s))) = (Some \<lparr>itd_db = Some d\<rparr>, None))) \<and>
    (\<forall>e. EvReturn (''service'', 1) StepStart e \<in> set (s_trace s) \<longrightarrow>
       (\<exists>srv c. ws_Addr srv = '':8080'' \<and> ws_BaseContext srv = Some c \<and> e = n_ListenAndServe net srv))"
proof -
  have inv: "init_part (s_trace s) (s_world s)" "http_part net (s_trace s) (s_world s)"
    "\<not> sm_waits (sw_mem (s_world s))" "\<not> sm_panicked (sw_mem (s_world s))"
    using sample_run_inv [OF assms] by (simp_all add: sample_inv_def)
  have "setup_succeeded (s_trace s) initR" if "EvReturn httpR StepSetup e \<in> set (s_trace s)" for e
  proof -
    have "returned_in (s_trace s) initR StepSetup" using inv(2) that by (auto simp: http_part_def returned_in_iff)
    then show ?thesis using inv(1) by (auto simp: init_part_def setup_succeeded_def returned_in_iff)
  qed
  moreover have "\<not> fc_panicked (sm_init (sw_mem (s_world s)))" using inv(1) by (simp add: init_part_def fc_inv_def)
  ultimately show ?thesis
    using inv by (auto simp: http_part_def http_ready_def sample_stage_defs)
qed

text \<open>A run: the HTTP service is set up, started, and its server is closed.\<close>

definition quiet_net :: "unit net" where
  "quiet_net = \<lparr>n_match = (\<lambda>routes _. map_option snd (List.find (\<lambda>_. True) routes)),
     n_ListenAndServe = (\<lambda>_. Some (UserError ''http: Server closed'')), n_Shutdown = (\<lambda>_ _. None),
     n_signal = (\<lambda>_. SignalReceived ''interrupt'')\<rparr>"

definition go_returns :: "nat \<Rightarrow> 'w \<Rightarrow> ('e, 'w) move list" where
  "go_returns j w = replicate 4 (Act (AGo j)) @ [Act (AReturn j None w)] @ replicate 4 (Act (AGo j))"

definition mains :: "nat \<Rightarrow> ('e, 'w) move list" where
  "mains n = replicate n (Act (AMain True))"

definition sample_schedule :: "'w \<Rightarrow> (unit, 'w) move list" where
  "sample_schedule w = [Act (ARun 0 None)] @ mains 7 @ go_returns 0 w @ go_returns 1 w @
     mains 6 @ replicate 4 (Act (AGo 2)) @ replicate 4 (Act (AGo 3)) @ mains 4 @ go_returns 4 w @
     mains 9 @ go_returns 5 w @ mains 5 @ replicate 4 (Act (AGo 6)) @ [Act (AReturn 6 None w)]"

lemma sample_schedule_ends:
  "case sample_run (\<lambda>l. l) net 0 background of Inl _ \<Rightarrow> False | Inr s0 \<Rightarrow>
     (case exec_real no_environment (sample_schedule w) s0 of None \<Rightarrow> False | Some s \<Rightarrow>
        EvReturn (''service'', 1) StepSetup None \<in> set (s_trace s) \<and>
        returned_in (s_trace s) (''service'', 1) StepStart)"
  by code_simp

theorem sample_http_has_db_witness:
  "\<exists>s0 s. sample_run (\<lambda>l. l) quiet_net 0 background = Inr s0 \<and> real_run no_environment s0 s \<and>
     EvReturn (''service'', 1) StepSetup None \<in> set (s_trace s) \<and>
     (\<exists>svc d. c_data (sw_http (s_world s)) = Some (Some (ServiceAsTask (HTTPService quiet_net svc))) \<and> his_db svc = Some d) \<and>
     EvReturn (''service'', 1) StepStart (Some (UserError ''http: Server closed'')) \<in> set (s_trace s)"
proof -
  obtain s0 where s0: "sample_run (\<lambda>l. l) quiet_net 0 background = Inr s0"
    using sample_schedule_ends [where net = quiet_net and w = "world1 (\<lambda>l. l) quiet_net"] by (auto split: sum.splits)
  then obtain s where s: "exec_real no_environment (sample_schedule (s_world s0)) s0 = Some s"
    "EvReturn (''service'', 1) StepSetup None \<in> set (s_trace s)"
    "returned_in (s_trace s) (''service'', 1) StepStart"
    using sample_schedule_ends [where net = quiet_net and w = "s_world s0"] by (auto split: option.splits)
  then obtain e where e: "EvReturn (''service'', 1) StepStart e \<in> set (s_trace s)"
    by (auto simp: returned_in_iff)
  have "map_order (\<lambda>l. l)" by (simp add: map_order_def)
  note p = sample_http_has_db [OF this background_wf s0 exec_real_run [OF s(1)]]
  have "\<exists>svc d. c_data (sw_http (s_world s)) = Some (Some (ServiceAsTask (HTTPService quiet_net svc))) \<and> his_db svc = Some d"
    using p [THEN conjunct2, THEN conjunct2, THEN conjunct2, THEN conjunct1, rule_format, OF s(2)] by blast
  moreover have "e = Some (UserError ''http: Server closed'')"
    using p [THEN conjunct2, THEN conjunct2, THEN conjunct2, THEN conjunct2, rule_format, OF e] by (auto simp: quiet_net_def)
  ultimately show ?thesis using s0 exec_real_run [OF s(1)] s(2) e by blast
qed

end
