(* ===== verification/Messaging.thy ===== *)
theory Messaging
  imports SampleRuns
begin

text \<open>
  The messaging service of \<open>sample/samplecomplex/services.go\<close> (and of \<open>k8sinit/sample/services.go\<close>, the
  same code): \<open>Start\<close> accepts connections in a loop while \<open>Stop\<close> runs in another goroutine. The object
  and the places the two methods are at form a transition system; what \<open>net.Listen\<close>, \<open>Accept\<close> and
  \<open>Close\<close> return is in the events. The documented behaviour of a listener used: \<open>net.Listen\<close> returns a
  nil listener with its error, \<open>Accept\<close> of a closed listener fails.
\<close>

declare split_paired_All [simp del] split_paired_Ex [simp del]

section \<open>The service\<close>

datatype listener = Listening | Closed

text \<open>\<open>msi_server\<close> is the listener, or nil.\<close>

record MessagingServiceImpl =
  msi_server :: "listener option"
  msi_db :: "nat option"
  msi_isStopped :: bool

definition NewMessagingServiceImpl :: "nat option \<Rightarrow> MessagingServiceImpl" where
  "NewMessagingServiceImpl db = \<lparr>msi_server = None, msi_db = db, msi_isStopped = False\<rparr>"

text \<open>
  Where \<open>Start\<close> is: before \<open>net.Listen\<close>, at \<open>Accept\<close>, after an error of \<open>Accept\<close>, or it has returned. Where
  \<open>Stop\<close> is: before \<open>isStopped.Store\<close>, before \<open>Close\<close>, returned, or panicked.
\<close>

datatype start_at = AtListen | AtAccept | AtError go_error | StartReturned "go_error option"
datatype stop_at = AtStore | AtClose | StopReturned "go_error option" | StopPanicked

record messaging =
  ms_obj :: MessagingServiceImpl
  ms_start :: start_at
  ms_stop :: stop_at
  ms_conns :: nat

definition new_messaging :: "nat option \<Rightarrow> messaging" where
  "new_messaging db = \<lparr>ms_obj = NewMessagingServiceImpl db, ms_start = AtListen, ms_stop = AtStore, ms_conns = 0\<rparr>"

datatype msg_event = ListenOk | ListenFails go_error | Accepts | AcceptFails go_error | LoadStopped
  | StoreStopped | CloseServer "go_error option"

fun of_start :: "msg_event \<Rightarrow> bool" where
  "of_start StoreStopped = False"
| "of_start (CloseServer e) = False"
| "of_start _ = True"

definition set_server :: "listener option \<Rightarrow> messaging \<Rightarrow> messaging" where
  "set_server l s = s\<lparr>ms_obj := (ms_obj s)\<lparr>msi_server := l\<rparr>\<rparr>"

inductive msg_step :: "messaging \<Rightarrow> msg_event \<Rightarrow> messaging \<Rightarrow> bool" where
  listen_ok: "ms_start s = AtListen \<Longrightarrow> msg_step s ListenOk ((set_server (Some Listening) s)\<lparr>ms_start := AtAccept\<rparr>)"
| listen_fails: "ms_start s = AtListen \<Longrightarrow>
    msg_step s (ListenFails e) ((set_server None s)\<lparr>ms_start := StartReturned (Some e)\<rparr>)"
| accepts: "ms_start s = AtAccept \<Longrightarrow> msi_server (ms_obj s) = Some Listening \<Longrightarrow>
    msg_step s Accepts (s\<lparr>ms_conns := ms_conns s + 1\<rparr>)"
| accept_fails: "ms_start s = AtAccept \<Longrightarrow> msg_step s (AcceptFails e) (s\<lparr>ms_start := AtError e\<rparr>)"
| load_stopped: "ms_start s = AtError e \<Longrightarrow> msi_isStopped (ms_obj s) \<Longrightarrow>
    msg_step s LoadStopped (s\<lparr>ms_start := StartReturned None\<rparr>)"
| load_running: "ms_start s = AtError e \<Longrightarrow> \<not> msi_isStopped (ms_obj s) \<Longrightarrow>
    msg_step s LoadStopped (s\<lparr>ms_start := AtAccept\<rparr>)"
| store: "ms_stop s = AtStore \<Longrightarrow>
    msg_step s StoreStopped (s\<lparr>ms_obj := (ms_obj s)\<lparr>msi_isStopped := True\<rparr>, ms_stop := AtClose\<rparr>)"
| close_nil: "ms_stop s = AtClose \<Longrightarrow> msi_server (ms_obj s) = None \<Longrightarrow>
    msg_step s (CloseServer e) (s\<lparr>ms_stop := StopPanicked\<rparr>)"
| close: "ms_stop s = AtClose \<Longrightarrow> msi_server (ms_obj s) = Some l \<Longrightarrow>
    msg_step s (CloseServer e) ((set_server (Some Closed) s)\<lparr>ms_stop := StopReturned e\<rparr>)"

inductive_cases msg_stepE: "msg_step s e s'"
inductive_simps msg_step_simps [simp]: "msg_step s ListenOk s'" "msg_step s (ListenFails e) s'" "msg_step s Accepts s'"
  "msg_step s (AcceptFails e) s'" "msg_step s LoadStopped s'" "msg_step s StoreStopped s'" "msg_step s (CloseServer e) s'"

lemma set_server_simps [simp]:
  "msi_server (ms_obj (set_server l s)) = l" "msi_isStopped (ms_obj (set_server l s)) = msi_isStopped (ms_obj s)"
  "msi_db (ms_obj (set_server l s)) = msi_db (ms_obj s)" "ms_start (set_server l s) = ms_start s"
  "ms_stop (set_server l s) = ms_stop s" "ms_conns (set_server l s) = ms_conns s"
  by (simp_all add: set_server_def)

text \<open>The same machine as a function, for the environment of a program.\<close>

fun msg_do :: "msg_event \<Rightarrow> messaging \<Rightarrow> messaging option" where
  "msg_do ListenOk s =
     (if ms_start s = AtListen then Some ((set_server (Some Listening) s)\<lparr>ms_start := AtAccept\<rparr>) else None)"
| "msg_do (ListenFails e) s =
     (if ms_start s = AtListen then Some ((set_server None s)\<lparr>ms_start := StartReturned (Some e)\<rparr>) else None)"
| "msg_do Accepts s =
     (if ms_start s = AtAccept \<and> msi_server (ms_obj s) = Some Listening then Some (s\<lparr>ms_conns := ms_conns s + 1\<rparr>) else None)"
| "msg_do (AcceptFails e) s = (if ms_start s = AtAccept then Some (s\<lparr>ms_start := AtError e\<rparr>) else None)"
| "msg_do LoadStopped s =
     (case ms_start s of
        AtError e \<Rightarrow> Some (if msi_isStopped (ms_obj s) then s\<lparr>ms_start := StartReturned None\<rparr> else s\<lparr>ms_start := AtAccept\<rparr>)
      | _ \<Rightarrow> None)"
| "msg_do StoreStopped s =
     (if ms_stop s = AtStore then Some (s\<lparr>ms_obj := (ms_obj s)\<lparr>msi_isStopped := True\<rparr>, ms_stop := AtClose\<rparr>) else None)"
| "msg_do (CloseServer e) s =
     (if ms_stop s = AtClose then
        (case msi_server (ms_obj s) of
           None \<Rightarrow> Some (s\<lparr>ms_stop := StopPanicked\<rparr>)
         | Some l \<Rightarrow> Some ((set_server (Some Closed) s)\<lparr>ms_stop := StopReturned e\<rparr>))
      else None)"

lemma msg_do_step: "msg_do e s = Some s' \<longleftrightarrow> msg_step s e s'"
  by (cases e) (auto split: start_at.splits option.splits if_splits)

section \<open>The invariant\<close>

definition msg_inv :: "messaging \<Rightarrow> bool" where
  "msg_inv s \<longleftrightarrow>
     (msi_server (ms_obj s) = None \<longleftrightarrow> ms_start s = AtListen \<or> (\<exists>e. ms_start s = StartReturned (Some e))) \<and>
     (msi_isStopped (ms_obj s) \<longleftrightarrow> ms_stop s \<noteq> AtStore) \<and>
     (ms_start s = StartReturned None \<longrightarrow> msi_isStopped (ms_obj s)) \<and>
     (msi_server (ms_obj s) = Some Closed \<longleftrightarrow> (\<exists>e. ms_stop s = StopReturned e))"

interpretation messaging: invariant_machine msg_step "\<lambda>s. \<exists>db. s = new_messaging db" msg_inv
proof
  show "\<exists>db. s = new_messaging db \<Longrightarrow> msg_inv s" for s
    by (auto simp: msg_inv_def new_messaging_def NewMessagingServiceImpl_def)
  fix s e t assume i: "msg_inv s" and "msg_step s e t"
  from this(2,1) show "msg_inv t"
  proof (cases rule: msg_step.cases)
    case (close l e)
    with i show ?thesis by (cases "ms_start s") (auto simp: msg_inv_def)
  next
    case (close_nil e)
    with i show ?thesis by (cases "ms_start s") (auto simp: msg_inv_def)
  qed (auto simp: msg_inv_def)
qed

lemma msg_db: "msg_step s e s' \<Longrightarrow> msi_db (ms_obj s') = msi_db (ms_obj s)"
  by (cases e) auto

text \<open>After \<open>Stop\<close> has returned only \<open>Start\<close> moves, towards its return.\<close>

fun start_rank :: "start_at \<Rightarrow> nat" where
  "start_rank AtAccept = 2"
| "start_rank (AtError e) = 1"
| "start_rank _ = 0"

lemma stopped_step:
  assumes "msg_inv s" and "ms_stop s = StopReturned err" and "msg_step s e s'"
  shows "ms_stop s' = StopReturned err \<and> start_rank (ms_start s') < start_rank (ms_start s)"
  using assms by (cases e) (auto simp: msg_inv_def)

lemma stopped_progress:
  assumes "msg_inv s" and "ms_stop s = StopReturned err"
  shows "ms_start s = StartReturned None \<or> (\<exists>e s'. msg_step s e s')"
proof (cases "ms_start s")
  case AtAccept
  then have "msg_step s (AcceptFails db_error) (s\<lparr>ms_start := AtError db_error\<rparr>)" by simp
  then show ?thesis by blast
next
  case (AtError e)
  then have "msg_do LoadStopped s \<noteq> None" by simp
  then show ?thesis using msg_do_step by blast
next
  case (StartReturned r)
  with assms show ?thesis by (cases r) (auto simp: msg_inv_def)
qed (use assms in \<open>auto simp: msg_inv_def\<close>)

text \<open>
  C39: \<open>Stop\<close> ends \<open>Start\<close>: once \<open>Stop\<close> has returned, \<open>Start\<close> has returned nil or returns nil after at most two
  more steps, whatever the network does; nothing else can happen, and it is never stuck before that.
\<close>

theorem messaging_stop_ends_start:
  assumes "runs_to msg_step (new_messaging db) es s" and "ms_stop s = StopReturned err"
    and "runs_to msg_step s es' s'"
  shows "length es' \<le> 2 \<and> ms_stop s' = StopReturned err \<and>
    (ms_start s' = StartReturned None \<or> (\<exists>e t. msg_step s' e t))"
proof -
  have inv: "msg_inv s" using messaging.inv_run [OF assms(1)] by blast
  from assms(3,2) inv have "msg_inv s' \<and> ms_stop s' = StopReturned err \<and>
      start_rank (ms_start s') + length es' \<le> start_rank (ms_start s)"
  proof (induction rule: runs_to.induct)
    case (runs_snoc s as t a u)
    then have t: "msg_inv t" "ms_stop t = StopReturned err" "start_rank (ms_start t) + length as \<le> start_rank (ms_start s)" by simp_all
    from stopped_step [OF t(1,2) runs_snoc.hyps(2)] messaging.inv_step [OF t(1) runs_snoc.hyps(2)] t(3) show ?case by simp
  qed simp
  moreover have "start_rank (ms_start s) \<le> 2" by (cases "ms_start s") simp_all
  ultimately show ?thesis using stopped_progress [of s'] by auto
qed

theorem messaging_stop_ends_start_witness:
  "\<exists>s s'. ms_stop s = StopReturned None \<and> ms_start s = AtAccept \<and> runs_to msg_step s [AcceptFails db_error, LoadStopped] s' \<and>
     ms_stop s' = StopReturned None \<and> ms_start s' = StartReturned None"
proof -
  let ?s1 = "(set_server (Some Listening) (new_messaging None))\<lparr>ms_start := AtAccept\<rparr>"
  let ?s2 = "?s1\<lparr>ms_obj := (ms_obj ?s1)\<lparr>msi_isStopped := True\<rparr>, ms_stop := AtClose\<rparr>"
  let ?s = "(set_server (Some Closed) ?s2)\<lparr>ms_stop := StopReturned None\<rparr>"
  let ?t = "?s\<lparr>ms_start := AtError db_error\<rparr>"
  let ?u = "?t\<lparr>ms_start := StartReturned None\<rparr>"
  have r: "runs_to msg_step (new_messaging None) [ListenOk, StoreStopped, CloseServer None] ?s"
    by (rule runs_to_cons [where t = ?s1], simp add: new_messaging_def,
        rule runs_to_cons [where t = ?s2], simp add: new_messaging_def,
        rule runs_to_cons [where t = ?s], simp add: new_messaging_def, rule runs_nil)
  have u: "runs_to msg_step ?s [AcceptFails db_error, LoadStopped] ?u"
    by (rule runs_to_cons [where t = ?t], simp, rule runs_to_cons [where t = ?u], simp, rule runs_nil)
  have "ms_stop ?u = StopReturned None" using messaging_stop_ends_start [OF r _ u, of None] by simp
  with u show ?thesis by (intro exI [of _ ?s] exI [of _ ?u]) simp
qed

section \<open>The task of the service\<close>

text \<open>
  The task of \<open>samplecomplex/main.go\<close>. \<open>get\<close> reads the services from the world of the program; they
  move by the events of their machine, so \<open>Start\<close> and \<open>Stop\<close> here are what the calls return when they
  do (see \<open>msg_environment\<close>: not before, and never after a nil pointer was dereferenced). The select of
  the stop callback has the same result on both branches.
\<close>

definition MessagingServiceImpl_Start :: "('u \<Rightarrow> messaging list) \<Rightarrow> nat option \<Rightarrow> ctx \<Rightarrow> 'u \<Rightarrow> go_error option \<times> 'u" where
  "MessagingServiceImpl_Start get s c u =
     (case s of Some p \<Rightarrow> (case ms_start (get u ! p) of StartReturned e \<Rightarrow> (e, u) | _ \<Rightarrow> (None, u)) | None \<Rightarrow> (None, u))"

definition MessagingServiceImpl_Stop :: "('u \<Rightarrow> messaging list) \<Rightarrow> nat option \<Rightarrow> ctx \<Rightarrow> 'u \<Rightarrow> go_error option \<times> 'u" where
  "MessagingServiceImpl_Stop get s c u =
     (case s of Some p \<Rightarrow> (case ms_stop (get u ! p) of StopReturned e \<Rightarrow> (e, u) | _ \<Rightarrow> (None, u)) | None \<Rightarrow> (None, u))"

definition messaging_instance :: "(step list \<Rightarrow> step list) \<Rightarrow> ('u \<Rightarrow> messaging list) \<Rightarrow> (nat option, 'u) setup_func \<Rightarrow> 'u \<Rightarrow>
    (nat option, 'u) instanceTask \<times> nat option cell" where
  "messaging_instance ko get setup u0 = inst_Build (ko [StepSetup, StepStart, StepStop]) (\<lambda>_. None) (Some setup)
     [inst_WithStart (Some (\<lambda>c service. MessagingServiceImpl_Start get service c)),
      inst_WithStop (Some (\<lambda>c service u.
        let (err, u') = MessagingServiceImpl_Stop get service c u in if err \<noteq> None then (err, u') else (None, u'))),
      inst_WithName ''Messaging service''] u0"

text \<open>
  The environment of a program whose task \<open>r\<close> is the messaging service: its data gives the service, whose
  methods move once they are called.
\<close>

fun start_returned :: "start_at \<Rightarrow> bool" where
  "start_returned (StartReturned e) = True"
| "start_returned _ = False"

fun stop_returned :: "stop_at \<Rightarrow> bool" where
  "stop_returned (StopReturned e) = True"
| "stop_returned _ = False"

definition service_at :: "nat option cell \<Rightarrow> messaging list \<Rightarrow> nat option" where
  "service_at cl msgs = (case c_data cl of Some (Some p) \<Rightarrow> if p < length msgs then Some p else None | _ \<Rightarrow> None)"

definition msg_environment :: "tref \<Rightarrow> ('w \<Rightarrow> nat option cell) \<Rightarrow> ('w \<Rightarrow> messaging list) \<Rightarrow>
    (messaging list \<Rightarrow> 'w \<Rightarrow> 'w) \<Rightarrow> (msg_event, 'w) environment" where
  "msg_environment r cell get put = \<lparr>
     env_do = (\<lambda>ev t w. case service_at (cell w) (get w) of
         None \<Rightarrow> None
       | Some p \<Rightarrow>
           (if was_called t r (if of_start ev then StepStart else StepStop)
            then map_option (\<lambda>s. put ((get w)[p := s]) w) (msg_do ev (get w ! p)) else None)),
     env_returns = (\<lambda>t r' st w.
       if r' = r \<and> (st = StepStart \<or> st = StepStop)
       then (case service_at (cell w) (get w) of
               None \<Rightarrow> False
             | Some p \<Rightarrow> (if st = StepStart then start_returned (ms_start (get w ! p)) else stop_returned (ms_stop (get w ! p))))
       else True)\<rparr>"

section \<open>A service that cannot listen\<close>

text \<open>A manager with the messaging task alone.\<close>

definition msgR :: tref where "msgR = (StageDefault, 0)"

definition demo_setup :: "(nat option, messaging list) setup_func" where
  "demo_setup c msgs = ((Some (length msgs), None), msgs @ [new_messaging (Some 0)])"

definition demo_messaging :: "(nat option cell \<times> messaging list) sys" where
  "demo_messaging =
     (let (it, cl) = messaging_instance (\<lambda>l. l) (\<lambda>u. u) demo_setup [];
          (m, st) = AddTask StageDefault (Some (instance_task it)) [GlobalOption WithStartStepManager] (cl, [])
            (default_manager, background)
      in initial_sys m st (cl, []))"

definition demo_environment :: "(msg_event, nat option cell \<times> messaging list) environment" where
  "demo_environment = msg_environment msgR fst snd (\<lambda>msgs (cl, _). (cl, msgs))"

definition bind_error :: go_error where
  "bind_error = UserError ''listen tcp :9900: bind: address already in use''"

definition cannot_listen :: "'w \<Rightarrow> (msg_event, 'w) move list" where
  "cannot_listen w = [Act (ARun 0 None)] @ mains 5 @ go_returns 0 w @ mains 4 @ [Act (AGo 1)] @ mains 2 @
     replicate 3 (Act (AGo 1)) @ [Env (ListenFails bind_error), Act (AReturn 1 None w)] @ replicate 4 (Act (AGo 1)) @
     [Act (AMain False)] @ mains 2 @ replicate 4 (Act (AGo 2)) @ [Env StoreStopped, Env (CloseServer None)]"

lemma cannot_listen_ends:
  "case exec_real demo_environment (cannot_listen w) demo_messaging of None \<Rightarrow> False | Some s \<Rightarrow>
     EvReturn msgR StepStart (Some bind_error) \<in> set (s_trace s) \<and> was_called (s_trace s) msgR StepStop \<and>
     map ms_stop (snd (s_world s)) = [StopPanicked]"
  by code_simp

lemma demo_messaging_initial: "initial demo_messaging"
proof -
  obtain it cl where i: "messaging_instance (\<lambda>l. l) (\<lambda>u. u) demo_setup [] = (it, cl)" by force
  obtain m st where a: "AddTask StageDefault (Some (instance_task it)) [GlobalOption WithStartStepManager] (cl, [])
      (default_manager, background) = (m, st)" by force
  have "startable (default_manager :: (nat option cell \<times> messaging list) manager, background)"
    by (simp add: startable_def default_idle background_wf)
  then have "startable (m, st)" unfolding a [symmetric] by (rule startable_AddTask)
  then show ?thesis using startable_initial by (simp add: demo_messaging_def i a)
qed


end
