(* ===== verification/ComplexMain.thy ===== *)
theory ComplexMain
  imports Messaging
begin

text \<open>
  The program of \<open>sample/samplecomplex/main.go\<close>: nine tasks in four stages. The health service is a future
  task, which the tasks of the later stages read; the init task is a second one, whose setup waits for
  the first; the HTTP and the messaging service take their data from it. Logging is left out.
\<close>

declare split_paired_All [simp del] split_paired_Ex [simp del]

section \<open>The world\<close>

text \<open>The memory of the smaller sample, with the health future and the messaging services.\<close>

record 'r complex_mem = "'r sample_mem" +
  cm_health :: "HealthServiceImpl option future_cell"
  cm_messaging :: "messaging list"

record 'r complex_world =
  cw_mem :: "'r complex_mem"
  cw_health :: "HealthServiceImpl option cell"
  cw_init :: "initTaskData option cell"
  cw_http :: "'r complex_mem task option cell"
  cw_messaging :: "nat option cell"

definition cw_on_mem :: "'r complex_mem task \<Rightarrow> 'r complex_world task" where
  "cw_on_mem = focus_task cw_mem (\<lambda>m w. w\<lparr>cw_mem := m\<rparr>)"

definition cw_on_health ::
  "(HealthServiceImpl option cell \<times> HealthServiceImpl option future_cell \<times> 'r complex_mem) task \<Rightarrow> 'r complex_world task" where
  "cw_on_health = focus_task (\<lambda>w. (cw_health w, cm_health (cw_mem w), cw_mem w))
     (\<lambda>(cl, fc, m) w. w\<lparr>cw_health := cl, cw_mem := m\<lparr>cm_health := fc\<rparr>\<rparr>)"

definition cw_on_init ::
  "(initTaskData option cell \<times> initTaskData option future_cell \<times> 'r complex_mem) task \<Rightarrow> 'r complex_world task" where
  "cw_on_init = focus_task (\<lambda>w. (cw_init w, sm_init (cw_mem w), cw_mem w))
     (\<lambda>(cl, fc, m) w. w\<lparr>cw_init := cl, cw_mem := m\<lparr>sm_init := fc\<rparr>\<rparr>)"

definition cw_on_http :: "('r complex_mem task option cell \<times> 'r complex_mem) task \<Rightarrow> 'r complex_world task" where
  "cw_on_http = focus_task (\<lambda>w. (cw_http w, cw_mem w)) (\<lambda>(cl, m) w. w\<lparr>cw_http := cl, cw_mem := m\<rparr>)"

definition cw_on_messaging :: "(nat option cell \<times> 'r complex_mem) task \<Rightarrow> 'r complex_world task" where
  "cw_on_messaging = focus_task (\<lambda>w. (cw_messaging w, cw_mem w)) (\<lambda>(cl, m) w. w\<lparr>cw_messaging := cl, cw_mem := m\<rparr>)"

section \<open>The health service\<close>

text \<open>The three signals to the health service are stubs in the sample.\<close>

definition HealthServiceImpl_AddDBHealth :: "HealthServiceImpl \<Rightarrow> nat option \<Rightarrow> 'r complex_mem \<Rightarrow> 'r complex_mem" where
  "HealthServiceImpl_AddDBHealth s db m = m"

definition HealthServiceImpl_ServiceStarted :: "HealthServiceImpl \<Rightarrow> 'r complex_mem \<Rightarrow> 'r complex_mem" where
  "HealthServiceImpl_ServiceStarted s m = m"

definition HealthServiceImpl_ServiceTerminating :: "HealthServiceImpl \<Rightarrow> 'r complex_mem \<Rightarrow> 'r complex_mem" where
  "HealthServiceImpl_ServiceTerminating s m = m"

text \<open>A call of a method of the health service; the interface value may be nil.\<close>

definition call_health :: "HealthServiceImpl option \<Rightarrow> (HealthServiceImpl \<Rightarrow> 'r complex_mem \<Rightarrow> 'r complex_mem) \<Rightarrow>
    'r complex_mem \<Rightarrow> 'r complex_mem" where
  "call_health h f m = (case h of None \<Rightarrow> m\<lparr>sm_panicked := True\<rparr> | Some s \<Rightarrow> f s m)"

definition healthTask_Value :: "'r complex_mem \<Rightarrow> (HealthServiceImpl option \<times> go_error option) \<times> 'r complex_mem" where
  "healthTask_Value m =
     (case futuretask_Value None [] True [] (cm_health m) of
        (Some r, fc) \<Rightarrow> (r, m\<lparr>cm_health := fc\<rparr>)
      | (None, fc) \<Rightarrow> ((None, None), m\<lparr>cm_health := fc, sm_waits := True\<rparr>))"

definition complex_health_setup :: "(HealthServiceImpl option, 'r complex_mem) setup_func" where
  "complex_health_setup c m = (let (s, m') = NewHealthServiceImpl m in ((Some s, None), m'))"

definition complex_health :: "(step list \<Rightarrow> step list) \<Rightarrow> 'r net \<Rightarrow> 'r complex_mem \<Rightarrow>
    (HealthServiceImpl option, HealthServiceImpl option future_cell \<times> 'r complex_mem) instanceTask \<times>
    HealthServiceImpl option cell" where
  "complex_health ko net m = futuretask_New (ko [StepSetup, StepStart, StepStop]) (\<lambda>_. None) None (Some complex_health_setup)
     [inst_WithStart (Some (\<lambda>c service (fc, m). case service of
         None \<Rightarrow> (None, (fc, m\<lparr>sm_panicked := True\<rparr>))
       | Some s \<Rightarrow> (let (e, m') = HealthServiceImpl_Start net s c m in (e, (fc, m'))))),
      inst_WithStop (Some (\<lambda>c service (fc, m). case service of
         None \<Rightarrow> (None, (fc, m\<lparr>sm_panicked := True\<rparr>))
       | Some s \<Rightarrow> (let (e, m') = HealthServiceImpl_Stop net s c m in (e, (fc, m'))))),
      inst_WithName ''health service''] (cm_health m, m)"

text \<open>The two probe tasks.\<close>

definition health_error :: "go_error \<Rightarrow> go_error" where
  "health_error err = Errorf ''error getting health server: %w'' [err]"

definition signal_health :: "(HealthServiceImpl \<Rightarrow> 'r complex_mem \<Rightarrow> 'r complex_mem) \<Rightarrow> 'r complex_mem build_func" where
  "signal_health f = Some (\<lambda>c m.
     let ((healthServer, err), m1) = healthTask_Value m
     in (case err of
           Some e \<Rightarrow> (Some (health_error e), m1)
         | None \<Rightarrow> (None, call_health healthServer f m1)))"

definition started_probe_task :: "(step list \<Rightarrow> step list) \<Rightarrow> 'r complex_mem \<Rightarrow> 'r complex_mem task" where
  "started_probe_task ko m = BuildTask (ko [StepSetup]) m
     [WithSetup (signal_health HealthServiceImpl_ServiceStarted), WithName ''health server started probe'']"

definition terminating_probe_task :: "(step list \<Rightarrow> step list) \<Rightarrow> 'r complex_mem \<Rightarrow> 'r complex_mem task" where
  "terminating_probe_task ko m = BuildTask (ko [StepStop]) m
     [WithStop (signal_health HealthServiceImpl_ServiceTerminating), WithName ''health server terminating probe'']"

section \<open>The other tasks\<close>

text \<open>The error of the first check is the one that is declared and never assigned: nil.\<close>

definition complex_init_setup :: "(initTaskData option, 'r complex_mem) setup_func" where
  "complex_init_setup c m =
     (let err = None;
          data = \<lparr>itd_db = Some (sm_dbs m)\<rparr>;
          m1 = m\<lparr>sm_dbs := sm_dbs m + 1\<rparr>
      in if err \<noteq> None then ((None, err), m1)
         else (let ((healthServer, err), m2) = healthTask_Value m1
               in if err \<noteq> None then ((None, err), m2)
                  else ((Some data, err), call_health healthServer (\<lambda>s. HealthServiceImpl_AddDBHealth s (itd_db data)) m2)))"

definition complex_init :: "(step list \<Rightarrow> step list) \<Rightarrow> 'r complex_mem \<Rightarrow>
    (initTaskData option, initTaskData option future_cell \<times> 'r complex_mem) instanceTask \<times> initTaskData option cell" where
  "complex_init ko m = futuretask_New (ko [StepSetup, StepTeardown]) (\<lambda>_. None) None (Some complex_init_setup)
     [inst_WithTeardown (Some (\<lambda>c data w. (None, w))), inst_WithName ''init data''] (sm_init m, m)"

text \<open>The HTTP provider is the one of the smaller sample, on this memory.\<close>

definition messaging_setup :: "(nat option, 'r complex_mem) setup_func" where
  "messaging_setup c m =
     (let ((initData, err), m1) = initTask_Value m
      in if err \<noteq> None then ((None, err), m1)
         else (case initData of
                 None \<Rightarrow> ((None, None), m1\<lparr>sm_panicked := True\<rparr>)
               | Some d \<Rightarrow> ((Some (length (cm_messaging m1)), None),
                   m1\<lparr>cm_messaging := cm_messaging m1 @ [new_messaging (itd_db d)]\<rparr>)))"

section \<open>The registration\<close>

definition stageReady :: string where "stageReady = ''ready''"

definition complex_stages :: "string list" where
  "complex_stages = [stageManagement, stageInitialize, stageReady, stageService]"

definition complex_mem0 :: "'r complex_mem" where
  "complex_mem0 = \<lparr>sm_servers = [], sm_dbs = 0, sm_init = new_future_cell None chans_init, sm_waits = False, sm_panicked = False,
     cm_health = new_future_cell None chans_init, cm_messaging = []\<rparr>"

definition complex_register :: "(step list \<Rightarrow> step list) \<Rightarrow> 'r net \<Rightarrow>
    'r complex_world manager \<times> ctxs \<Rightarrow> 'r complex_world \<times> 'r complex_world manager \<times> ctxs" where
  "complex_register ko net ms =
     (let w = \<lparr>cw_mem = complex_mem0, cw_health = zero_cell, cw_init = zero_cell, cw_http = zero_cell, cw_messaging = zero_cell\<rparr>;
          ms = AddTask stageManagement (Some (telemetry_task ko w)) [] w ms;
          ms = AddTask stageService (Some (sample_flush_task ko w)) [] w ms;
          (health, cl) = complex_health ko net (cw_mem w);
          w = w\<lparr>cw_health := cl\<rparr>;
          ms = AddTask stageManagement (Some (cw_on_health (instance_task health))) [] w ms;
          ms = AddTask stageReady (Some (cw_on_mem (started_probe_task ko (cw_mem w)))) [] w ms;
          ms = AddTask stageService (Some (cw_on_mem (terminating_probe_task ko (cw_mem w)))) [] w ms;
          (_, w, ms) = InitAddTask stageInitialize
            (\<lambda>w. let (init, cl) = complex_init ko (cw_mem w)
                 in (Some (cw_on_init (instance_task init)), w\<lparr>cw_init := cl\<rparr>)) [] w ms;
          (http, cl) = http_instance ko net (cw_mem w);
          w = w\<lparr>cw_http := cl\<rparr>;
          ms = AddTask stageService (Some (cw_on_http (instance_task http))) [] w ms;
          (messaging, cl) = messaging_instance ko cm_messaging messaging_setup (cw_mem w);
          w = w\<lparr>cw_messaging := cl\<rparr>;
          ms = AddTask stageService (Some (cw_on_messaging (instance_task messaging))) [GlobalOption WithStartStepManager] w ms;
          ms = AddTask stageManagement (Some (signals_task net)) [] w ms
      in (w, ms))"

definition complex_options :: "nat \<Rightarrow> 'r complex_world manager_option list" where
  "complex_options logger = [WithLogger logger, WithStages complex_stages, WithShutdownTimeout (20 * second),
     WithEnforceShutdownTimeout True]"

text \<open>\<open>run\<close>, up to the call of \<open>Run\<close> on the manager.\<close>

definition complex_run :: "(step list \<Rightarrow> step list) \<Rightarrow> 'r net \<Rightarrow> nat \<Rightarrow> ctxs \<Rightarrow> go_error + 'r complex_world sys" where
  "complex_run ko net logger st =
     (case New (complex_options logger) of
        Inl err \<Rightarrow> Inl err
      | Inr m \<Rightarrow> (let (w, (m', st')) = complex_register ko net (m, st) in Inr (initial_sys m' st' w)))"

section \<open>The tasks\<close>

abbreviation startedR :: tref where "startedR \<equiv> (stageReady, 0)"
abbreviation terminatingR :: tref where "terminatingR \<equiv> (stageService, 1)"
abbreviation httpR' :: tref where "httpR' \<equiv> (stageService, 2)"
abbreviation messagingR :: tref where "messagingR \<equiv> (stageService, 3)"

text \<open>The environment: the messaging service moves while its methods are called.\<close>

definition complex_environment :: "(msg_event, 'r complex_world) environment" where
  "complex_environment = msg_environment messagingR cw_messaging (\<lambda>w. cm_messaging (cw_mem w))
     (\<lambda>msgs w. w\<lparr>cw_mem := (cw_mem w)\<lparr>cm_messaging := msgs\<rparr>\<rparr>)"

lemmas probe_build_defs = sample_build_defs signal_health_def

lemma probe_tasks_ok:
  assumes "map_order ko"
  shows "ti_InitError (GetTaskInfo (started_probe_task ko m) m') = None" "ti_InitError (GetTaskInfo (terminating_probe_task ko m) m') = None"
    "taskHasStep (started_probe_task ko m) st m' \<longleftrightarrow> st = StepSetup" "taskHasStep (terminating_probe_task ko m) st m' \<longleftrightarrow> st = StepStop"
  unfolding started_probe_task_def terminating_probe_task_def
  by (subst BuildTask_ok [OF assms]; simp add: build_ok_def probe_build_defs)+

lemma complex_health_ok:
  assumes "map_order ko" and "complex_health ko net m = (it, cl)"
  shows "ti_InitError (GetTaskInfo (instance_task it) (cl, u)) = None" "options_ok (it_options it)" "standalone it"
    "it_setupFunc it = Some (future_setup None (Some complex_health_setup))" "c_parent cl = None" "c_data cl = None"
    "fst ` set (bo_stepFunc (it_options it)) = {StepStart, StepStop}" "StepSetup \<in> set (bs_steps (c_state cl))"
proof -
  note n = assms(2) [unfolded complex_health_def futuretask_New_def]
  note b = inst_Build_simps [OF n]
  show ok: "options_ok (it_options it)" unfolding b(2) by (rule inst_options_ok) (auto intro: inst_exported.intros)
  show "standalone it" by (simp add: standalone_def b sample_instance_defs)
  show steps: "fst ` set (bo_stepFunc (it_options it)) = {StepStart, StepStop}" by (simp add: b sample_instance_defs)
  show "it_setupFunc it = Some (future_setup None (Some complex_health_setup))" "c_parent cl = None" "c_data cl = None"
    by (simp_all add: b)
  have key: "key_order (ko [StepSetup, StepStart, StepStop]) (instance_build it (setup_callback it))"
    by (rule map_order_key [OF assms(1)]) (auto simp: b sample_instance_defs)
  note i = instance_task_ok [OF n ok key]
  show "ti_InitError (GetTaskInfo (instance_task it) (cl, u)) = None" "StepSetup \<in> set (bs_steps (c_state cl))"
    by (subst i; simp add: b sample_instance_defs)+
qed

lemma complex_init_ok:
  assumes "map_order ko" and "complex_init ko m = (it, cl)"
  shows "ti_InitError (GetTaskInfo (instance_task it) (cl, u)) = None" "options_ok (it_options it)" "standalone it"
    "it_setupFunc it = Some (future_setup None (Some complex_init_setup))" "c_parent cl = None" "c_data cl = None"
    "bo_stepFunc (it_options it) = [(StepTeardown, Some (\<lambda>c data w. (None, w)))]" "StepSetup \<in> set (bs_steps (c_state cl))"
proof -
  note n = assms(2) [unfolded complex_init_def futuretask_New_def]
  note b = inst_Build_simps [OF n]
  show ok: "options_ok (it_options it)" unfolding b(2) by (rule inst_options_ok) (auto intro: inst_exported.intros)
  show "standalone it" "bo_stepFunc (it_options it) = [(StepTeardown, Some (\<lambda>c data w. (None, w)))]"
    by (simp_all add: standalone_def b sample_instance_defs)
  show "it_setupFunc it = Some (future_setup None (Some complex_init_setup))" "c_parent cl = None" "c_data cl = None"
    by (simp_all add: b)
  have key: "key_order (ko [StepSetup, StepTeardown]) (instance_build it (setup_callback it))"
    by (rule map_order_key [OF assms(1)]) (auto simp: b sample_instance_defs)
  note i = instance_task_ok [OF n ok key]
  show "ti_InitError (GetTaskInfo (instance_task it) (cl, u)) = None" "StepSetup \<in> set (bs_steps (c_state cl))"
    by (subst i; simp add: b sample_instance_defs)+
qed

lemma messaging_instance_ok:
  assumes "map_order ko" and "messaging_instance ko get setup m = (it, cl)"
  shows "ti_InitError (GetTaskInfo (instance_task it) (cl, u)) = None" "options_ok (it_options it)" "standalone it"
    "it_setupFunc it = Some setup" "c_parent cl = None" "c_data cl = None"
    "bo_stepFunc (it_options it) = [(StepStart, Some (\<lambda>c service. MessagingServiceImpl_Start get service c)),
       (StepStop, Some (\<lambda>c service u.
          let (err, u') = MessagingServiceImpl_Stop get service c u in if err \<noteq> None then (err, u') else (None, u')))]"
    "StepSetup \<in> set (bs_steps (c_state cl))"
proof -
  note n = assms(2) [unfolded messaging_instance_def]
  note b = inst_Build_simps [OF n]
  show ok: "options_ok (it_options it)" unfolding b(2) by (rule inst_options_ok) (auto intro: inst_exported.intros)
  show "standalone it" "bo_stepFunc (it_options it) = [(StepStart, Some (\<lambda>c service. MessagingServiceImpl_Start get service c)),
       (StepStop, Some (\<lambda>c service u.
          let (err, u') = MessagingServiceImpl_Stop get service c u in if err \<noteq> None then (err, u') else (None, u')))]"
    by (simp_all add: standalone_def b sample_instance_defs)
  show "it_setupFunc it = Some setup" "c_parent cl = None" "c_data cl = None" by (simp_all add: b)
  have key: "key_order (ko [StepSetup, StepStart, StepStop]) (instance_build it (setup_callback it))"
    by (rule map_order_key [OF assms(1)]) (auto simp: b sample_instance_defs)
  note i = instance_task_ok [OF n ok key]
  show "ti_InitError (GetTaskInfo (instance_task it) (cl, u)) = None" "StepSetup \<in> set (bs_steps (c_state cl))"
    by (subst i; simp add: b sample_instance_defs)+
qed

section \<open>The state at the call of Run\<close>

definition complex_world0 :: "'r complex_world" where
  "complex_world0 = \<lparr>cw_mem = complex_mem0, cw_health = zero_cell, cw_init = zero_cell, cw_http = zero_cell, cw_messaging = zero_cell\<rparr>"

definition complex_world1 :: "(step list \<Rightarrow> step list) \<Rightarrow> 'r net \<Rightarrow> 'r complex_world" where
  "complex_world1 ko net = \<lparr>cw_mem = complex_mem0, cw_health = snd (complex_health ko net complex_mem0),
     cw_init = snd (complex_init ko (complex_mem0 :: 'r complex_mem)),
     cw_http = snd (http_instance ko net complex_mem0),
     cw_messaging = snd (messaging_instance ko cm_messaging messaging_setup (complex_mem0 :: 'r complex_mem))\<rparr>"

definition complex_tasks :: "(step list \<Rightarrow> step list) \<Rightarrow> 'r net \<Rightarrow> tref \<Rightarrow> 'r complex_world task" where
  "complex_tasks ko net r =
     (if r = telemetryR then telemetry_task ko complex_world0
      else if r = healthR then cw_on_health (instance_task (fst (complex_health ko net complex_mem0)))
      else if r = signalsR then signals_task net
      else if r = initR then cw_on_init (instance_task (fst (complex_init ko complex_mem0)))
      else if r = startedR then cw_on_mem (started_probe_task ko complex_mem0)
      else if r = flushR then sample_flush_task ko complex_world0
      else if r = terminatingR then cw_on_mem (terminating_probe_task ko complex_mem0)
      else if r = httpR' then cw_on_http (instance_task (fst (http_instance ko net complex_mem0)))
      else cw_on_messaging (instance_task (fst (messaging_instance ko cm_messaging messaging_setup complex_mem0))))"

lemmas complex_stage_defs = sample_stage_defs stageReady_def

definition complex_stageTasks :: "(step list \<Rightarrow> step list) \<Rightarrow> 'r net \<Rightarrow> 'r complex_world stageTasks" where
  "complex_stageTasks ko net =
     (let add = (\<lambda>r. stageTasks_add (fst r) (newTaskWrapper (complex_tasks ko net r) []))
      in add signalsR (stageTasks_add stageService (newTaskWrapper (complex_tasks ko net messagingR) [GlobalOption WithStartStepManager])
        (add httpR' (add initR (add terminatingR (add startedR (add healthR (add flushR (add telemetryR newStageTasks)))))))))"

lemma complex_register_eq:
  fixes net :: "'r net"
  assumes "map_order ko" and "\<not> m_isRunning m" and "m_stages m = complex_stages" and "m_tasks m = newStageTasks"
  shows "complex_register ko net (m, st) = (complex_world1 ko net, m\<lparr>m_tasks := complex_stageTasks ko net\<rparr>, st)"
proof -
  obtain hit hcl where h: "complex_health ko net complex_mem0 = (hit, hcl)" by force
  obtain iit icl where i: "complex_init ko (complex_mem0 :: 'r complex_mem) = (iit, icl)" by force
  obtain pit pcl where p: "http_instance ko net (complex_mem0 :: 'r complex_mem) = (pit, pcl)" by force
  obtain mit mcl where mi: "messaging_instance ko cm_messaging messaging_setup (complex_mem0 :: 'r complex_mem) = (mit, mcl)" by force
  have ok: "ti_InitError (GetTaskInfo (cw_on_health (instance_task hit)) w) = None" if "cw_health w = hcl" for w
    using complex_health_ok(1) [OF assms(1) h] that by (simp add: cw_on_health_def)
  moreover have "ti_InitError (GetTaskInfo (cw_on_init (instance_task iit)) w) = None" if "cw_init w = icl" for w
    using complex_init_ok(1) [OF assms(1) i] that by (simp add: cw_on_init_def)
  moreover have "ti_InitError (GetTaskInfo (cw_on_http (instance_task pit)) w) = None" if "cw_http w = pcl" for w
    using http_instance_ok(1) [OF assms(1) p] that by (simp add: cw_on_http_def)
  moreover have "ti_InitError (GetTaskInfo (cw_on_messaging (instance_task mit)) w) = None" if "cw_messaging w = mcl" for w
    using messaging_instance_ok(1) [OF assms(1) mi] that by (simp add: cw_on_messaging_def)
  moreover have "ti_InitError (GetTaskInfo (cw_on_mem (started_probe_task ko complex_mem0)) w) = None"
    "ti_InitError (GetTaskInfo (cw_on_mem (terminating_probe_task ko complex_mem0)) w) = None" for w :: "'r complex_world"
    using probe_tasks_ok(1,2) [OF assms(1)] by (simp_all add: cw_on_mem_def)
  ultimately show ?thesis
    unfolding complex_register_def complex_world0_def [symmetric] Let_def
    using assms(2-4) h i p mi
    by (simp del: instance_task_simps focus_task_simps add: AddTask_valid otel_tasks_ok [OF assms(1)] signals_ok complex_stages_def InitAddTask_def complex_world0_def
        complex_world1_def complex_stageTasks_def complex_tasks_def complex_stage_defs)
qed

definition complex_manager :: "(step list \<Rightarrow> step list) \<Rightarrow> 'r net \<Rightarrow> nat \<Rightarrow> 'r complex_world manager" where
  "complex_manager ko net logger = default_manager\<lparr>m_stages := complex_stages, m_tasks := complex_stageTasks ko net,
     m_shutdownTimeout := 20 * second, m_enforceShutdownTimeout := True, m_logger := logger\<rparr>"

lemma complex_stages_ok: "stages_ok complex_stages"
  by (simp add: stages_ok_def complex_stages_def complex_stage_defs)

lemma complex_run_eq:
  fixes net :: "'r net"
  assumes "map_order ko"
  shows "complex_run ko net logger st = Inr (initial_sys (complex_manager ko net logger) st (complex_world1 ko net))"
proof -
  let ?m = "default_manager\<lparr>m_logger := logger, m_stages := complex_stages, m_shutdownTimeout := 20 * second,
     m_enforceShutdownTimeout := True\<rparr> :: 'r complex_world manager"
  have "New (complex_options logger) = Inr ?m"
    using manager_init_None [of ?m] complex_stages_ok
    by (simp add: New_def Let_def complex_options_def WithLogger_def WithStages_def WithShutdownTimeout_def
        WithEnforceShutdownTimeout_def)
  then show ?thesis
    by (simp add: complex_run_def complex_register_eq [OF assms] default_manager_def complex_manager_def)
qed

definition complex_options_of :: "tref \<Rightarrow> 'r complex_world task_option list" where
  "complex_options_of r = (if r = messagingR then [GlobalOption WithStartStepManager] else [])"

lemma complex_get:
  "stageTasks_get (complex_stageTasks ko net) stage =
     map (\<lambda>r. newTaskWrapper (complex_tasks ko net r) (complex_options_of r))
       (if stage = stageManagement then [telemetryR, healthR, signalsR] else if stage = stageInitialize then [initR]
        else if stage = stageReady then [startedR]
        else if stage = stageService then [flushR, terminatingR, httpR', messagingR] else [])"
  by (simp add: complex_stageTasks_def complex_options_of_def complex_stage_defs)

definition complex_refs :: "tref set" where
  "complex_refs = {telemetryR, healthR, signalsR, initR, startedR, flushR, terminatingR, httpR', messagingR}"

lemma complex_valid: "tw_valid (complex_stageTasks ko net) r \<longleftrightarrow> r \<in> complex_refs"
  by (cases r) (auto simp: tw_valid_def complex_get complex_refs_def complex_stage_defs less_Suc_eq numeral_3_eq_3 numeral_2_eq_2
      split: if_splits)

lemma complex_at: "r \<in> complex_refs \<Longrightarrow> tw_at (complex_stageTasks ko net) r = newTaskWrapper (complex_tasks ko net r) (complex_options_of r)"
  by (auto simp: tw_at_def complex_get complex_refs_def complex_stage_defs)

lemma complex_initial:
  assumes "ctxs_wf st"
  shows "initial (initial_sys (complex_manager ko net logger) st w)"
proof -
  have "tw_executeSteps (tw_at (complex_stageTasks ko net) r) = []" "tw_startCancel (tw_at (complex_stageTasks ko net) r) = None"
    "tw_finishCtx (tw_at (complex_stageTasks ko net) r) = None" if "r \<in> complex_refs" for r
    using that by (simp_all add: complex_at newTaskWrapper_def)
  then have "idle_manager (complex_manager ko net logger)"
    using complex_stages_ok
    by (auto simp: idle_manager_def complex_manager_def default_manager_def wrappers_fresh_def complex_valid)
      (auto simp: complex_stageTasks_def stageTasks_add_def stageTasks_get_def newStageTasks_def complex_stages_def complex_stage_defs)
  then show ?thesis
    using assms by (intro startable_initial) (simp add: startable_def complex_manager_def default_manager_def)
qed

lemma complex_bare: "bare (initial_sys (complex_manager ko net logger) st w)"
  by (auto simp: bare_def initial_sys_def complex_manager_def default_manager_def complex_valid complex_at newTaskWrapper_def
      complex_options_of_def zero_taskOptions_def)

end
