(* ===== verification/ComplexRuns.thy ===== *)
theory ComplexRuns
  imports ComplexMain
begin

text \<open>
  The runs of the bigger sample program, under every schedule and every behaviour of the network, the
  signals and the messaging service: its futures are always resolved when they are read.
\<close>

declare split_paired_All [simp del] split_paired_Ex [simp del]

section \<open>A future task in the world\<close>

text \<open>
  The cell \<open>cl\<close> and the future \<open>fc\<close> of the future task \<open>r\<close> after the events \<open>t\<close>: resolved by its setup or
  by the notification, and after a setup the data and the future have the same good value.
\<close>

definition future_part :: "tref \<Rightarrow> ('v option \<Rightarrow> bool) \<Rightarrow> event list \<Rightarrow> 'v option cell \<Rightarrow> 'v option future_cell \<Rightarrow> bool" where
  "future_part r good t cl fc \<longleftrightarrow> c_parent cl = None \<and> fc_inv None fc \<and>
     (fc_resolved fc \<longleftrightarrow> returned_in t r StepSetup \<or> skipped_in t r) \<and>
     (\<not> returned_in t r StepSetup \<longrightarrow> c_data cl = None) \<and>
     (skipped_in t r \<and> \<not> returned_in t r StepSetup \<longrightarrow> snd (fc_outcome fc) \<noteq> None) \<and>
     (\<forall>e. EvReturn r StepSetup e \<in> set t \<longrightarrow> e = None \<and> (\<exists>v. good v \<and> c_data cl = Some v \<and> fc_outcome fc = (v, None)))"

lemma future_part_event:
  assumes "\<And>e. ev \<noteq> EvReturn r StepSetup e" and "\<And>c. ev \<noteq> EvSkipped r c"
  shows "future_part r good (ev # t) cl fc = future_part r good t cl fc"
  using assms by (cases ev) (auto simp: future_part_def)

lemma future_part_setup:
  assumes "future_part r good t cl fc" and "\<not> returned_in t r StepSetup" and "\<not> skipped_in t r" and "good v"
  shows "future_part r good (EvReturn r StepSetup None # t) (cl\<lparr>c_data := Some v\<rparr>) (resolve_cell (OpResolve v) fc)"
proof -
  have "fc_inv None fc" "\<not> fc_resolved fc" "c_parent cl = None" using assms(1-3) by (simp_all add: future_part_def)
  moreover from resolve_cell_ok [OF this(1,2), of "OpResolve v"]
  have "fc_inv None (resolve_cell (OpResolve v) fc)" "fc_resolved (resolve_cell (OpResolve v) fc)"
    "fc_outcome (resolve_cell (OpResolve v) fc) = (v, None)" by simp_all
  ultimately show ?thesis using assms(2,4) by (auto simp: future_part_def returned_in_iff)
qed

lemma future_part_skip:
  assumes "future_part r good t cl fc" and "\<not> returned_in t r StepSetup" and "\<not> skipped_in t r"
  shows "future_part r good (EvSkipped r cause # t) cl (fst (future_skipped c cause (fc, x)))"
  using assms future_skipped_ok [of None fc c cause x] by (auto simp: future_part_def returned_in_iff)

lemma future_part_data: "future_part r good t cl fc \<Longrightarrow> c_data cl = None \<or> (\<exists>v. good v \<and> c_data cl = Some v)"
  unfolding future_part_def returned_in_iff by blast

text \<open>A future task that is read: \<open>Value\<close> does not wait, and gives the good value after a setup.\<close>

lemma future_part_Value:
  assumes part: "future_part r good t cl fc" and res: "returned_in t r StepSetup \<or> skipped_in t r"
  shows "\<exists>v fc'. futuretask_Value None [] True [] fc = (Some v, fc') \<and> future_part r good t cl fc' \<and>
    fc_outcome fc' = fc_outcome fc \<and> v = data_error (fc_outcome fc) \<and> (snd v = None \<longleftrightarrow> returned_in t r StepSetup) \<and> (returned_in t r StepSetup \<longrightarrow> good (fst v))"
proof -
  obtain d f chs where d: "future_Done (fc_future fc) (fc_chans fc) = (d, f, chs)" by (metis prod_cases3)
  have inv: "fc_inv None fc" and r: "fc_resolved fc" using part res by (simp_all add: future_part_def)
  then have "latch_inv (f_l (fc_future fc)) (fc_chans fc)" by (simp add: fc_inv_def future_inv_def)
  from future_Value_eq [OF this, of None "[]" True "[]"] r
  have "fst (future_Value None [] True [] (fc_future fc) (fc_chans fc)) = Some (fc_outcome fc)"
    by (simp add: fc_resolved_def fc_outcome_def Let_def)
  moreover have "snd (future_Value None [] True [] (fc_future fc) (fc_chans fc)) = (f, chs)"
    by (simp add: future_Value_def d)
  ultimately have "future_Value None [] True [] (fc_future fc) (fc_chans fc) = (Some (fc_outcome fc), f, chs)"
    by (metis prod.collapse)
  then have "futuretask_Value None [] True [] fc = (Some (data_error (fc_outcome fc)), fc\<lparr>fc_future := f, fc_chans := chs\<rparr>)"
    by (simp add: futuretask_Value_def)
  moreover have "future_part r good t cl (fc\<lparr>fc_future := f, fc_chans := chs\<rparr>)"
    "fc_outcome (fc\<lparr>fc_future := f, fc_chans := chs\<rparr>) = fc_outcome fc"
    using fc_Done [OF inv d] part by (auto simp: future_part_def)
  moreover have "good (fst (data_error (fc_outcome fc)))" if ret: "returned_in t r StepSetup"
  proof -
    obtain v where "good v" "fc_outcome fc = (v, None)" using part ret unfolding future_part_def returned_in_iff by blast
    then show ?thesis by (simp add: data_error_def)
  qed
  moreover have "snd (data_error (fc_outcome fc)) = None \<longleftrightarrow> returned_in t r StepSetup"
    using part res by (cases "fc_outcome fc") (auto simp: future_part_def returned_in_iff data_error_def split: option.splits)
  ultimately show ?thesis
    by (intro exI [of _ "data_error (fc_outcome fc)"] exI [of _ "fc\<lparr>fc_future := f, fc_chans := chs\<rparr>"]) simp
qed

abbreviation good_health :: "HealthServiceImpl option \<Rightarrow> bool" where
  "good_health v \<equiv> v \<noteq> None"

abbreviation good_init :: "initTaskData option \<Rightarrow> bool" where
  "good_init v \<equiv> (\<exists>d. v = Some \<lparr>itd_db = Some d\<rparr>)"

lemma healthTask_Value_ok:
  assumes "future_part healthR good_health t cl (cm_health m)" and "returned_in t healthR StepSetup \<or> skipped_in t healthR"
  shows "\<exists>v err fc'. healthTask_Value m = ((v, err), m\<lparr>cm_health := fc'\<rparr>) \<and> future_part healthR good_health t cl fc' \<and>
    (err = None \<longleftrightarrow> returned_in t healthR StepSetup) \<and> (err = None \<longrightarrow> v \<noteq> None)"
proof -
  obtain r fc' where "futuretask_Value None [] True [] (cm_health m) = (Some r, fc')" "future_part healthR good_health t cl fc'"
    "snd r = None \<longleftrightarrow> returned_in t healthR StepSetup" "returned_in t healthR StepSetup \<longrightarrow> fst r \<noteq> None"
    using future_part_Value [OF assms] by (elim exE conjE) (rule that; simp)
  then show ?thesis by (intro exI [of _ "fst r"] exI [of _ "snd r"] exI [of _ fc']) (simp add: healthTask_Value_def)
qed

lemma initTask_Value_ok:
  assumes "future_part initR good_init t cl (sm_init m)" and "returned_in t initR StepSetup"
  shows "\<exists>d fc'. initTask_Value m = ((Some \<lparr>itd_db = Some d\<rparr>, None), m\<lparr>sm_init := fc'\<rparr>) \<and> future_part initR good_init t cl fc' \<and>
    fc_outcome fc' = fc_outcome (sm_init m) \<and> fc_outcome (sm_init m) = (Some \<lparr>itd_db = Some d\<rparr>, None)"
proof -
  obtain r fc' where v: "futuretask_Value None [] True [] (sm_init m) = (Some r, fc')" "future_part initR good_init t cl fc'"
    "fc_outcome fc' = fc_outcome (sm_init m)" "r = data_error (fc_outcome (sm_init m))"
    using future_part_Value [OF assms(1) disjI1 [OF assms(2)]] by (elim exE conjE) (rule that; assumption)
  obtain d where "fc_outcome (sm_init m) = (Some \<lparr>itd_db = Some d\<rparr>, None)"
    using assms by (auto simp: future_part_def returned_in_iff)
  with v show ?thesis by (intro exI [of _ d] exI [of _ fc']) (simp add: initTask_Value_def data_error_def)
qed

section \<open>The parts of the invariant\<close>

text \<open>The HTTP service: set up after the init task, with the database of its future.\<close>

definition complex_http :: "'r net \<Rightarrow> event list \<Rightarrow> 'r complex_world \<Rightarrow> bool" where
  "complex_http net t w \<longleftrightarrow>
     (\<not> returned_in t httpR' StepSetup \<longrightarrow> c_data (cw_http w) = None \<and> c_parent (cw_http w) = None) \<and>
     (\<forall>e. EvReturn httpR' StepSetup e \<in> set t \<longrightarrow> e = None \<and> returned_in t initR StepSetup \<and>
        (\<exists>d. fc_outcome (sm_init (cw_mem w)) = (Some \<lparr>itd_db = Some d\<rparr>, None) \<and> http_ready net d (cw_http w) (cw_mem w)))"

text \<open>The messaging service: its data is a service with that database, whose methods gave the results.\<close>

definition complex_messaging :: "event list \<Rightarrow> 'r complex_world \<Rightarrow> bool" where
  "complex_messaging t w \<longleftrightarrow> c_parent (cw_messaging w) = None \<and>
     (\<forall>s\<in>set (cm_messaging (cw_mem w)). msg_inv s) \<and>
     (\<not> returned_in t messagingR StepSetup \<longrightarrow> c_data (cw_messaging w) = None) \<and>
     (\<forall>e. EvReturn messagingR StepSetup e \<in> set t \<longrightarrow> e = None \<and> returned_in t initR StepSetup \<and>
        (\<exists>d p. fc_outcome (sm_init (cw_mem w)) = (Some \<lparr>itd_db = Some d\<rparr>, None) \<and> c_data (cw_messaging w) = Some (Some p) \<and>
           p < length (cm_messaging (cw_mem w)) \<and> msi_db (ms_obj (cm_messaging (cw_mem w) ! p)) = Some d)) \<and>
     (\<forall>e. EvReturn messagingR StepStart e \<in> set t \<longrightarrow>
        (\<exists>p. service_at (cw_messaging w) (cm_messaging (cw_mem w)) = Some p \<and> ms_start (cm_messaging (cw_mem w) ! p) = StartReturned e)) \<and>
     (\<forall>e. EvReturn messagingR StepStop e \<in> set t \<longrightarrow>
        (\<exists>p. service_at (cw_messaging w) (cm_messaging (cw_mem w)) = Some p \<and> ms_stop (cm_messaging (cw_mem w) ! p) = StopReturned e)) \<and>
     (\<forall>p. service_at (cw_messaging w) (cm_messaging (cw_mem w)) = Some p \<and> ms_stop (cm_messaging (cw_mem w) ! p) \<noteq> AtStore \<longrightarrow>
        EvCall messagingR StepStop \<in> set t)"

text \<open>The two probes: they reach the health service.\<close>

definition complex_probes :: "event list \<Rightarrow> bool" where
  "complex_probes t \<longleftrightarrow> (\<forall>e. EvReturn startedR StepSetup e \<in> set t \<longrightarrow> e = None) \<and>
     (\<forall>e. EvReturn terminatingR StepStop e \<in> set t \<longrightarrow> e = None \<or> skipped_in t healthR)"

definition complex_has_setup :: "'r complex_world \<Rightarrow> bool" where
  "complex_has_setup w \<longleftrightarrow> StepSetup \<in> set (bs_steps (c_state (cw_health w))) \<and> StepSetup \<in> set (bs_steps (c_state (cw_init w))) \<and>
     StepSetup \<in> set (bs_steps (c_state (cw_http w))) \<and> StepSetup \<in> set (bs_steps (c_state (cw_messaging w)))"

definition complex_inv :: "(step list \<Rightarrow> step list) \<Rightarrow> 'r net \<Rightarrow> event list \<Rightarrow> 'r complex_world \<Rightarrow> bool" where
  "complex_inv ko net t w \<longleftrightarrow> map_order ko \<and> complex_has_setup w \<and>
     future_part healthR good_health t (cw_health w) (cm_health (cw_mem w)) \<and>
     future_part initR good_init t (cw_init w) (sm_init (cw_mem w)) \<and>
     complex_http net t w \<and> complex_messaging t w \<and> complex_probes t \<and>
     \<not> sm_waits (cw_mem w) \<and> \<not> sm_panicked (cw_mem w)"

lemma complex_invD:
  assumes "complex_inv ko net t w"
  shows "map_order ko" "complex_has_setup w" "future_part healthR good_health t (cw_health w) (cm_health (cw_mem w))"
    "future_part initR good_init t (cw_init w) (sm_init (cw_mem w))" "complex_http net t w" "complex_messaging t w"
    "complex_probes t" "\<not> sm_waits (cw_mem w)" "\<not> sm_panicked (cw_mem w)"
  using assms by (simp_all add: complex_inv_def)

text \<open>Changes of the memory that the parts do not look at.\<close>

definition mem_frame :: "'r complex_mem \<Rightarrow> 'r complex_mem \<Rightarrow> bool" where
  "mem_frame m m' \<longleftrightarrow> fc_outcome (sm_init m') = fc_outcome (sm_init m) \<and> cm_messaging m' = cm_messaging m \<and>
     length (sm_servers m) \<le> length (sm_servers m') \<and> sm_waits m' = sm_waits m \<and> sm_panicked m' = sm_panicked m \<and>
     (\<forall>p<length (sm_servers m). ws_Addr (sm_servers m' ! p) = ws_Addr (sm_servers m ! p))"

lemma mem_frameD:
  "mem_frame m m' \<Longrightarrow> fc_outcome (sm_init m') = fc_outcome (sm_init m)" "mem_frame m m' \<Longrightarrow> cm_messaging m' = cm_messaging m"
  by (simp_all add: mem_frame_def)

lemma http_ready_frame: "http_ready net d cl m \<Longrightarrow> mem_frame m m' \<Longrightarrow> http_ready net d cl m'"
  unfolding http_ready_def mem_frame_def by (metis order_less_le_trans)

lemma complex_http_frame:
  assumes "complex_http net t w" and "mem_frame (cw_mem w) (cw_mem w')" and "cw_http w' = cw_http w"
    and "\<And>e. ev \<noteq> EvReturn httpR' StepSetup e"
  shows "complex_http net (ev # t) w'"
proof -
  have o: "fc_outcome (sm_init (cw_mem w')) = fc_outcome (sm_init (cw_mem w))" using assms(2) by (simp add: mem_frame_def)
  have r: "returned_in (ev # t) httpR' StepSetup = returned_in t httpR' StepSetup"
    "\<And>e. EvReturn httpR' StepSetup e \<in> set (ev # t) \<longleftrightarrow> EvReturn httpR' StepSetup e \<in> set t"
    "returned_in t initR StepSetup \<Longrightarrow> returned_in (ev # t) initR StepSetup"
    using assms(4) by (auto simp: returned_in_iff)
  show ?thesis
    using assms(1) http_ready_frame [OF _ assms(2)] r(3) unfolding complex_http_def assms(3) o r(1,2) by blast
qed

lemma complex_messaging_frame:
  assumes "complex_messaging t w" and o: "fc_outcome (sm_init (cw_mem w')) = fc_outcome (sm_init (cw_mem w))"
    "cm_messaging (cw_mem w') = cm_messaging (cw_mem w)" and "cw_messaging w' = cw_messaging w"
    and "\<And>st e. ev \<noteq> EvReturn messagingR st e"
  shows "complex_messaging (ev # t) w'"
proof -
  have r: "returned_in (ev # t) messagingR StepSetup = returned_in t messagingR StepSetup"
    "\<And>st e. EvReturn messagingR st e \<in> set (ev # t) \<longleftrightarrow> EvReturn messagingR st e \<in> set t"
    "returned_in t initR StepSetup \<Longrightarrow> returned_in (ev # t) initR StepSetup"
    "EvCall messagingR StepStop \<in> set t \<Longrightarrow> EvCall messagingR StepStop \<in> set (ev # t)"
    using assms(5) by (auto simp: returned_in_iff)
  show ?thesis using assms(1) r(3,4) unfolding complex_messaging_def assms(4) o r(1,2) by blast
qed

lemma complex_probes_event:
  "complex_probes t \<Longrightarrow> (\<And>e. ev \<noteq> EvReturn startedR StepSetup e) \<Longrightarrow> (\<And>e. ev \<noteq> EvReturn terminatingR StepStop e) \<Longrightarrow>
    complex_probes (ev # t)"
  by (cases ev) (auto simp: complex_probes_def)

section \<open>Calls that do not matter\<close>

lemma mem_frame_refl [simp]: "mem_frame m m"
  by (simp add: mem_frame_def)

lemma mem_frame_grows: "mem_grows m m' \<Longrightarrow> mem_frame m m'"
proof -
  assume g: "mem_grows m m'"
  then have "sample_mem.more m' = sample_mem.more m" by (simp add: mem_grows_def)
  then have "cm_messaging m' = cm_messaging m" by (cases m; cases m') simp
  with g show ?thesis by (simp add: mem_grows_def mem_frame_def)
qed

lemma mem_grows_health: "mem_grows m m' \<Longrightarrow> cm_health m' = cm_health m"
  by (cases m; cases m') (simp add: mem_grows_def)

text \<open>An event that is not a setup of a task, on a memory that is framed, keeps the invariant.\<close>

lemma complex_inv_frame:
  assumes inv: "complex_inv ko net t w" and m: "mem_frame (cw_mem w) (cw_mem w')"
    and h: "future_part healthR good_health t (cw_health w') (cm_health (cw_mem w'))"
    and i: "future_part initR good_init t (cw_init w') (sm_init (cw_mem w'))"
    and same: "cw_http w' = cw_http w" "cw_messaging w' = cw_messaging w" "complex_has_setup w'"
    and ev: "\<And>r e. ev \<noteq> EvSkipped r e" "\<And>e. ev \<noteq> EvReturn healthR StepSetup e" "\<And>e. ev \<noteq> EvReturn initR StepSetup e"
      "\<And>e. ev \<noteq> EvReturn httpR' StepSetup e" "\<And>st e. ev \<noteq> EvReturn messagingR st e"
    and probes: "complex_probes (ev # t)"
  shows "complex_inv ko net (ev # t) w'"
  using complex_http_frame [OF complex_invD(5) [OF inv] m same(1) ev(4)] complex_messaging_frame [OF complex_invD(6) [OF inv] mem_frameD [OF m] same(2) ev(5)]
    inv h i m same(3) probes ev
  by (simp add: complex_inv_def mem_frame_def future_part_event)

lemma complex_inv_call: "complex_inv ko net t w \<Longrightarrow> complex_inv ko net (EvCall r st # t) w"
  by (rule complex_inv_frame) (auto simp: complex_inv_def complex_probes_def)

lemma complex_inv_idle:
  assumes "complex_inv ko net t w" and "r = telemetryR \<or> r = flushR \<or> r = signalsR"
  shows "complex_inv ko net (EvReturn r st e # t) w"
  using assms
  by (intro complex_inv_frame [OF assms(1)]) (auto simp: complex_inv_def complex_probes_def complex_stage_defs)

section \<open>Calls of the tasks\<close>

lemma complex_health_runs:
  assumes "map_order ko" and "complex_health ko net m0 = (it, cl0)" and "c_parent cl = None" and "st \<noteq> StepSetup"
    and "c_data cl \<noteq> Some None" and "task_Run (instance_task it) c st (cl, fc, m) = (e, (cl', fc', m'))"
  shows "cl' = cl \<and> fc' = fc \<and> mem_grows m m'"
proof -
  note h = complex_health_ok [OF assms(1,2)]
  note n = assms(2) [unfolded complex_health_def futuretask_New_def]
  note run = inst_Run_standalone [OF h(2,3) assms(3), of c st "(fc, m)"]
  have "bo_stepFunc (it_options it) = [(StepStart, Some (\<lambda>c service (fc, m). case service of
         None \<Rightarrow> (None, (fc, m\<lparr>sm_panicked := True\<rparr>))
       | Some s \<Rightarrow> (let (e, m') = HealthServiceImpl_Start net s c m in (e, (fc, m'))))),
      (StepStop, Some (\<lambda>c service (fc, m). case service of
         None \<Rightarrow> (None, (fc, m\<lparr>sm_panicked := True\<rparr>))
       | Some s \<Rightarrow> (let (e, m') = HealthServiceImpl_Stop net s c m in (e, (fc, m')))))]"
    by (simp add: inst_Build_simps [OF n] sample_instance_defs)
  with run assms(4,5,6) show ?thesis
    using mem_grows_services
    by (auto simp: instance_task_def split_beta split: if_splits option.splits)
qed

lemma complex_health_returns:
  assumes inv: "complex_inv ko net t w" and new: "\<not> returned_in t healthR st" "\<not> skipped_in t healthR"
    and run: "task_Run (complex_tasks ko net healthR) c st w = (e, w')"
  shows "complex_inv ko net (EvReturn healthR st e # t) w'"
proof -
  obtain it cl0 where i: "complex_health ko net (complex_mem0 :: 'a complex_mem) = (it, cl0)" by force
  obtain cl' fc' m' where r: "task_Run (instance_task it) c st (cw_health w, cm_health (cw_mem w), cw_mem w) = (e, (cl', fc', m'))"
    and w': "w' = w\<lparr>cw_health := cl', cw_mem := m'\<lparr>cm_health := fc'\<rparr>\<rparr>"
    using run by (auto simp: complex_tasks_def complex_stage_defs cw_on_health_def i split: prod.splits)
  note part = complex_invD(3) [OF inv]
  have ko: "map_order ko" and par: "c_parent (cw_health w) = None" using complex_invD(1) [OF inv] part by (simp_all add: future_part_def)
  note h = complex_health_ok [OF ko i]
  show ?thesis
  proof (cases "st = StepSetup")
    case True
    with part new have "c_data (cw_health w) = None" by (simp add: future_part_def)
    moreover obtain s m2 where s: "NewHealthServiceImpl (cw_mem w) = (s, m2)" by force
    ultimately have e: "e = None" "cl' = (cw_health w)\<lparr>c_data := Some (Some s)\<rparr>" "m' = m2"
      "fc' = resolve_cell (OpResolve (Some s)) (cm_health (cw_mem w))"
      using r True inst_Run_standalone [OF h(2,3) par, of c StepSetup "(cm_health (cw_mem w), cw_mem w)"]
      by (auto simp: instance_task_def h(4) future_setup_def checked_setup_def complex_health_setup_def)
    have g: "mem_grows (cw_mem w) m2" using mem_grows_services(7) [of "cw_mem w"] s by simp
    have f: "future_part healthR good_health (EvReturn healthR st e # t) cl' fc'"
      unfolding e True using new True by (intro future_part_setup [OF part]) simp_all
    have m: "mem_frame (cw_mem w) (cw_mem w')" using mem_frame_grows [OF g] by (simp add: w' e mem_frame_def)
    have i': "sm_init m2 = sm_init (cw_mem w)" using g by (simp add: mem_grows_def)
    have "complex_http net (EvReturn healthR st e # t) w'"
      by (rule complex_http_frame [OF complex_invD(5) [OF inv] m]) (simp_all add: w' complex_stage_defs)
    moreover have "complex_messaging (EvReturn healthR st e # t) w'"
      by (rule complex_messaging_frame [OF complex_invD(6) [OF inv] mem_frameD [OF m]]) (simp_all add: w' complex_stage_defs)
    ultimately show ?thesis using inv f m i' e
      by (simp add: complex_inv_def w' mem_frame_def complex_has_setup_def future_part_event complex_probes_event complex_stage_defs)
  next
    case False
    have "c_data (cw_health w) \<noteq> Some None" using future_part_data [OF part] by auto
    from complex_health_runs [OF ko i par False this r] have k: "cl' = cw_health w" "fc' = cm_health (cw_mem w)"
      "mem_grows (cw_mem w) m'" by simp_all
    have i': "sm_init m' = sm_init (cw_mem w)" using k(3) by (simp add: mem_grows_def)
    show ?thesis
      using mem_frame_grows [OF k(3)] inv False
      by (intro complex_inv_frame [OF inv])
        (auto simp: w' k i' mem_frame_def complex_inv_def complex_has_setup_def complex_probes_event complex_stage_defs)
  qed
qed

text \<open>The setup of the init task reads the health future and resolves its own.\<close>

lemma complex_init_returns:
  assumes inv: "complex_inv ko net t w" and new: "\<not> returned_in t initR st" "\<not> skipped_in t initR"
    and first: "st = StepSetup \<Longrightarrow> returned_in t healthR StepSetup"
    and run: "task_Run (complex_tasks ko net initR) c st w = (e, w')"
  shows "complex_inv ko net (EvReturn initR st e # t) w'"
proof -
  obtain it cl0 where i: "complex_init ko (complex_mem0 :: 'a complex_mem) = (it, cl0)" by force
  obtain cl' fc' m' where r: "task_Run (instance_task it) c st (cw_init w, sm_init (cw_mem w), cw_mem w) = (e, (cl', fc', m'))"
    and w': "w' = w\<lparr>cw_init := cl', cw_mem := m'\<lparr>sm_init := fc'\<rparr>\<rparr>"
    using run by (auto simp: complex_tasks_def complex_stage_defs cw_on_init_def i split: prod.splits)
  note part = complex_invD(4) [OF inv]
  have ko: "map_order ko" and par: "c_parent (cw_init w) = None" using complex_invD(1) [OF inv] part by (simp_all add: future_part_def)
  note h = complex_init_ok [OF ko i]
  note run' = inst_Run_standalone [OF h(2,3) par, of c st "(sm_init (cw_mem w), cw_mem w)"]
  show ?thesis
  proof (cases "st = StepSetup")
    case True
    let ?m = "(cw_mem w)\<lparr>sm_dbs := sm_dbs (cw_mem w) + 1\<rparr>" and ?d = "\<lparr>itd_db = Some (sm_dbs (cw_mem w))\<rparr>"
    have d: "c_data (cw_init w) = None" using part new True by (simp add: future_part_def)
    obtain v fc where v: "healthTask_Value ?m = ((Some v, None), ?m\<lparr>cm_health := fc\<rparr>)"
      "future_part healthR good_health t (cw_health w) fc"
      using healthTask_Value_ok [of t "cw_health w" ?m] complex_invD(3) [OF inv] first [OF True] by auto
    have "future_setup None (Some complex_init_setup) c (sm_init (cw_mem w), cw_mem w) =
        ((Some ?d, None), (resolve_cell (OpResolve (Some ?d)) (sm_init (cw_mem w)), ?m\<lparr>cm_health := fc\<rparr>))"
      using v(1) by (simp add: future_setup_def checked_setup_def complex_init_setup_def call_health_def HealthServiceImpl_AddDBHealth_def Let_def)
    then have e: "e = None" "cl' = (cw_init w)\<lparr>c_data := Some (Some ?d)\<rparr>" "m' = ?m\<lparr>cm_health := fc\<rparr>"
      "fc' = resolve_cell (OpResolve (Some ?d)) (sm_init (cw_mem w))"
      using r True d run' by (auto simp: instance_task_def h(4))
    have f: "future_part initR good_init (EvReturn initR st e # t) cl' fc'"
      unfolding e True using new True by (intro future_part_setup [OF part]) simp_all
    have "\<not> returned_in t httpR' StepSetup" "\<not> returned_in t messagingR StepSetup"
      using inv new True by (auto simp: complex_inv_def complex_http_def complex_messaging_def returned_in_iff)
    then have no: "EvReturn httpR' StepSetup e' \<notin> set t" "EvReturn messagingR StepSetup e' \<notin> set t" for e'
      by (auto simp: returned_in_iff)
    have "complex_http net (EvReturn initR st e # t) w'"
      using complex_invD(5) [OF inv] no by (simp add: complex_http_def w' e complex_stage_defs)
    moreover have "complex_messaging (EvReturn initR st e # t) w'"
      using complex_invD(6) [OF inv] no by (simp add: complex_messaging_def w' e complex_stage_defs)
    ultimately show ?thesis using inv f v(2) e
      by (simp add: complex_inv_def w' complex_has_setup_def future_part_event complex_probes_event complex_stage_defs)
  next
    case False
    then have "cl' = cw_init w \<and> fc' = sm_init (cw_mem w) \<and> m' = cw_mem w"
      using r run' by (auto simp: instance_task_def h(7) split: if_splits option.splits)
    then have "w' = w" by (simp add: w')
    with False inv show ?thesis
      by (intro complex_inv_frame [OF inv]) (auto simp: complex_inv_def complex_probes_event complex_stage_defs)
  qed
qed

text \<open>A probe task reads the health future and calls the service.\<close>

lemma signal_health_runs:
  assumes inv: "complex_inv ko net t w" and res: "returned_in t healthR StepSetup \<or> skipped_in t healthR"
    and f: "\<And>s m. f s m = m" and run: "the (signal_health f) c (cw_mem w) = (e, m')"
  shows "(returned_in t healthR StepSetup \<longrightarrow> e = None) \<and> mem_frame (cw_mem w) m' \<and>
    future_part healthR good_health t (cw_health w) (cm_health m') \<and> sm_init m' = sm_init (cw_mem w)"
proof -
  obtain v err fc where v: "healthTask_Value (cw_mem w) = ((v, err), (cw_mem w)\<lparr>cm_health := fc\<rparr>)"
    "future_part healthR good_health t (cw_health w) fc" "err = None \<longleftrightarrow> returned_in t healthR StepSetup" "err = None \<longrightarrow> v \<noteq> None"
    using healthTask_Value_ok [OF complex_invD(3) [OF inv] res] by auto
  with run f show ?thesis
    by (cases err) (auto simp: signal_health_def call_health_def mem_frame_def)
qed

lemma probe_task_runs:
  "st \<noteq> StepSetup \<Longrightarrow> task_Run (started_probe_task ko m0) c st m = (e, m') \<Longrightarrow> m' = m"
  "st \<noteq> StepStop \<Longrightarrow> task_Run (terminating_probe_task ko m0) c st m = (e, m') \<Longrightarrow> m' = m"
  "task_Run (started_probe_task ko m0) c StepSetup m = the (signal_health HealthServiceImpl_ServiceStarted) c m"
  "task_Run (terminating_probe_task ko m0) c StepStop m = the (signal_health HealthServiceImpl_ServiceTerminating) c m"
  by (auto simp: started_probe_task_def terminating_probe_task_def build_task_def probe_build_defs taskBuild_Run_def loadParent_def)

lemma complex_probe_returns:
  assumes inv: "complex_inv ko net t w" and r: "r = startedR \<or> r = terminatingR"
    and res: "r = startedR \<Longrightarrow> st = StepSetup \<Longrightarrow> returned_in t healthR StepSetup"
      "r = terminatingR \<Longrightarrow> st = StepStop \<Longrightarrow> returned_in t healthR StepSetup \<or> skipped_in t healthR"
    and run: "task_Run (complex_tasks ko net r) c st w = (e, w')"
  shows "complex_inv ko net (EvReturn r st e # t) w'"
proof -
  let ?task = "if r = startedR then started_probe_task ko complex_mem0 else terminating_probe_task ko complex_mem0"
  obtain m' where m: "task_Run ?task c st (cw_mem w) = (e, m')" and w': "w' = w\<lparr>cw_mem := m'\<rparr>"
    using run r by (auto simp: complex_tasks_def complex_stage_defs cw_on_mem_def split: prod.splits)
  have k: "mem_frame (cw_mem w) m' \<and> future_part healthR good_health t (cw_health w) (cm_health m') \<and>
      sm_init m' = sm_init (cw_mem w) \<and> complex_probes (EvReturn r st e # t)"
  proof (cases "r = startedR \<and> st = StepSetup \<or> r = terminatingR \<and> st = StepStop")
    case True
    then have res': "returned_in t healthR StepSetup \<or> skipped_in t healthR" using res by blast
    have "\<exists>f. (\<forall>s m. f s m = m) \<and> the (signal_health f) c (cw_mem w) = (e, m')"
      using True m probe_task_runs(3,4) [of ko complex_mem0 c "cw_mem w"]
      by (intro exI [of _ "if r = startedR then HealthServiceImpl_ServiceStarted else HealthServiceImpl_ServiceTerminating"])
        (auto simp: HealthServiceImpl_ServiceStarted_def HealthServiceImpl_ServiceTerminating_def complex_stage_defs)
    then obtain f where f: "\<And>s m. f s m = m" "the (signal_health f) c (cw_mem w) = (e, m')" by blast
    from signal_health_runs [OF inv res' f] True res complex_invD(7) [OF inv] show ?thesis
      by (auto simp: complex_probes_def complex_stage_defs)
  next
    case False
    then have "m' = cw_mem w" using m r probe_task_runs(1,2) [of st ko complex_mem0 c "cw_mem w" e m'] by (auto split: if_splits)
    with False inv r show ?thesis by (auto simp: complex_inv_def complex_probes_def complex_stage_defs)
  qed
  have "complex_has_setup w'" using complex_invD(2) [OF inv] by (simp add: complex_has_setup_def w')
  then show ?thesis using k complex_invD(4) [OF inv] r
    by (intro complex_inv_frame [OF inv]) (auto simp: w' complex_stage_defs)
qed

lemma complex_http_returns:
  assumes inv: "complex_inv ko net t w" and new: "\<not> returned_in t httpR' st"
    and first: "st = StepSetup \<Longrightarrow> returned_in t initR StepSetup"
    and run: "task_Run (complex_tasks ko net httpR') c st w = (e, w')"
  shows "complex_inv ko net (EvReturn httpR' st e # t) w'"
proof -
  obtain it cl0 where i: "http_instance ko net (complex_mem0 :: 'a complex_mem) = (it, cl0)" by force
  obtain cl' m' where r: "task_Run (instance_task it) c st (cw_http w, cw_mem w) = (e, (cl', m'))"
    and w': "w' = w\<lparr>cw_http := cl', cw_mem := m'\<rparr>"
    using run by (auto simp: complex_tasks_def complex_stage_defs cw_on_http_def i split: prod.splits)
  have ko: "map_order ko" by (rule complex_invD(1) [OF inv])
  note part = complex_invD(4) [OF inv] and http = complex_invD(5) [OF inv]
  have m: "fc_outcome (sm_init m') = fc_outcome (sm_init (cw_mem w)) \<and> cm_messaging m' = cm_messaging (cw_mem w) \<and>
      sm_waits m' = sm_waits (cw_mem w) \<and> sm_panicked m' = sm_panicked (cw_mem w) \<and> future_part initR good_init t (cw_init w) (sm_init m') \<and> cm_health m' = cm_health (cw_mem w) \<and>
      complex_http net (EvReturn httpR' st e # t) w' \<and> complex_has_setup w'"
  proof (cases "st = StepSetup")
    case True
    obtain d fc where v: "fc_outcome (sm_init (cw_mem w)) = (Some \<lparr>itd_db = Some d\<rparr>, None)"
      using part first [OF True] by (auto simp: future_part_def returned_in_iff)
    have fc: "fc_inv None (sm_init (cw_mem w))" "fc_resolved (sm_init (cw_mem w))"
      using part first [OF True] by (simp_all add: future_part_def)
    have cl: "c_parent (cw_http w) = None" "c_data (cw_http w) = None" and nr: "\<And>e'. EvReturn httpR' StepSetup e' \<notin> set t"
      using http new True by (auto simp: complex_http_def returned_in_iff)
    from http_sets_up [OF ko i cl fc v r [unfolded True]]
    have a: "e = None" "http_ready net d cl' m'" "StepSetup \<in> set (bs_steps (c_state cl'))" "sm_waits m' = sm_waits (cw_mem w)"
      "sm_panicked m' = sm_panicked (cw_mem w)" "sample_mem.more m' = sample_mem.more (cw_mem w)" "fc_inv None (sm_init m')"
      "fc_resolved (sm_init m')" "fc_outcome (sm_init m') = fc_outcome (sm_init (cw_mem w))" by simp_all
    have "cm_health m' = cm_health (cw_mem w)" "cm_messaging m' = cm_messaging (cw_mem w)"
      using a(6) by (cases m'; cases "cw_mem w"; simp)+
    moreover have "future_part initR good_init t (cw_init w) (sm_init m')"
      using part a(7-9) fc by (simp add: future_part_def)
    moreover have "complex_http net (EvReturn httpR' st e # t) w'"
      using a v nr True first [OF True] by (auto simp: complex_http_def w')
    ultimately show ?thesis using a complex_invD(2) [OF inv] by (simp add: complex_has_setup_def w')
  next
    case False
    have k: "cl' = cw_http w \<and> mem_grows (cw_mem w) m'"
    proof (cases "returned_in t httpR' StepSetup")
      case True
      then obtain d where d: "http_ready net d (cw_http w) (cw_mem w)"
        using http by (auto simp: complex_http_def returned_in_iff)
      from http_runs [OF ko i d False r] show ?thesis by simp
    next
      case no: False
      then have "c_parent (cw_http w) = None" using http by (simp add: complex_http_def)
      from http_idle [OF ko i this False r] show ?thesis by simp
    qed
    moreover have "mem_frame (cw_mem w) (cw_mem w')" using mem_frame_grows [OF conjunct2 [OF k]] by (simp add: w')
    then have "complex_http net (EvReturn httpR' st e # t) w'"
      by (rule complex_http_frame [OF http]) (use k False in \<open>simp_all add: w'\<close>)
    moreover have "sm_init m' = sm_init (cw_mem w)" using k by (simp add: mem_grows_def)
    moreover have "mem_frame (cw_mem w) m'" "cm_health m' = cm_health (cw_mem w)"
      using k mem_frame_grows mem_grows_health by blast+
    ultimately show ?thesis using part complex_invD(2) [OF inv] k
      by (simp add: w' complex_has_setup_def mem_frame_def)
  qed
  then have "complex_messaging (EvReturn httpR' st e # t) w'"
    by (intro complex_messaging_frame [OF complex_invD(6) [OF inv]]) (simp_all add: w' complex_stage_defs)
  with m inv show ?thesis
    by (simp add: complex_inv_def w' mem_frame_def future_part_event complex_probes_event complex_stage_defs)
qed

text \<open>The messaging task: its setup makes a service, its other steps give what the methods returned.\<close>

lemma complex_messaging_setup:
  assumes inv: "complex_inv ko net t w" and new: "\<not> returned_in t messagingR StepSetup"
    and first: "returned_in t initR StepSetup" and i: "messaging_instance ko cm_messaging messaging_setup (complex_mem0 :: 'r complex_mem) = (it, cl0)"
    and r: "task_Run (instance_task it) c StepSetup (cw_messaging w, cw_mem w :: 'r complex_mem) = (e, (cl', m'))"
  shows "\<exists>d fc. e = None \<and> cl' = (cw_messaging w)\<lparr>c_data := Some (Some (length (cm_messaging (cw_mem w))))\<rparr> \<and>
    m' = (cw_mem w)\<lparr>sm_init := fc, cm_messaging := cm_messaging (cw_mem w) @ [new_messaging (Some d)]\<rparr> \<and>
    future_part initR good_init t (cw_init w) fc \<and> fc_outcome fc = fc_outcome (sm_init (cw_mem w)) \<and>
    fc_outcome (sm_init (cw_mem w)) = (Some \<lparr>itd_db = Some d\<rparr>, None)"
proof -
  note h = messaging_instance_ok [OF complex_invD(1) [OF inv] i]
  obtain d fc where v: "initTask_Value (cw_mem w) = ((Some \<lparr>itd_db = Some d\<rparr>, None), (cw_mem w)\<lparr>sm_init := fc\<rparr>)"
    "future_part initR good_init t (cw_init w) fc" "fc_outcome fc = fc_outcome (sm_init (cw_mem w))"
    "fc_outcome (sm_init (cw_mem w)) = (Some \<lparr>itd_db = Some d\<rparr>, None)"
    using initTask_Value_ok [OF complex_invD(4) [OF inv] first] by blast
  have "c_data (cw_messaging w) = None" and par: "c_parent (cw_messaging w) = None"
    using complex_invD(6) [OF inv] new by (simp_all add: complex_messaging_def)
  with r inst_Run_standalone [OF h(2,3) par, of c StepSetup "cw_mem w"] v show ?thesis
    by (auto simp: instance_task_def h(4) messaging_setup_def)
qed

lemma complex_messaging_returns:
  assumes inv: "complex_inv ko net t w" and new: "\<not> returned_in t messagingR st"
    and first: "st = StepSetup \<Longrightarrow> returned_in t initR StepSetup"
    and may: "env_returns complex_environment t messagingR st w"
    and run: "task_Run (complex_tasks ko net messagingR) c st w = (e, w')"
  shows "complex_inv ko net (EvReturn messagingR st e # t) w'"
proof -
  obtain it cl0 where i: "messaging_instance ko cm_messaging messaging_setup (complex_mem0 :: 'a complex_mem) = (it, cl0)" by force
  obtain cl' m' where r: "task_Run (instance_task it) c st (cw_messaging w, cw_mem w) = (e, (cl', m'))"
    and w': "w' = w\<lparr>cw_messaging := cl', cw_mem := m'\<rparr>"
    using run by (auto simp: complex_tasks_def complex_stage_defs cw_on_messaging_def i split: prod.splits)
  note ko = complex_invD(1) [OF inv] and msg = complex_invD(6) [OF inv]
  note h = messaging_instance_ok [OF ko i]
  have par: "c_parent (cw_messaging w) = None" using msg by (simp add: complex_messaging_def)
  have http: "complex_http net (EvReturn messagingR st e # t) w'"
    if "mem_frame (cw_mem w) m'" using that by (intro complex_http_frame [OF complex_invD(5) [OF inv]]) (simp_all add: w' complex_stage_defs)
  show ?thesis
  proof (cases "st = StepSetup")
    case True
    obtain d fc where e: "e = None" "cl' = (cw_messaging w)\<lparr>c_data := Some (Some (length (cm_messaging (cw_mem w))))\<rparr>"
      "m' = (cw_mem w)\<lparr>sm_init := fc, cm_messaging := cm_messaging (cw_mem w) @ [new_messaging (Some d)]\<rparr>"
      "future_part initR good_init t (cw_init w) fc" "fc_outcome fc = fc_outcome (sm_init (cw_mem w))"
      "fc_outcome (sm_init (cw_mem w)) = (Some \<lparr>itd_db = Some d\<rparr>, None)"
      using complex_messaging_setup [OF inv _ first [OF True] i r [unfolded True]] new True by blast
    have f: "complex_http net (EvReturn messagingR st e # t) w'"
      using complex_invD(5) [OF inv] e by (simp add: complex_http_def http_ready_def w' complex_stage_defs)
    have "c_data (cw_messaging w) = None" using msg new True by (simp add: complex_messaging_def)
    then have "EvReturn messagingR st' e' \<notin> set t" if "st' = StepSetup \<or> st' = StepStart \<or> st' = StepStop" for st' e'
      using that msg by (auto simp: complex_messaging_def service_at_def)
    moreover have "msg_inv (new_messaging (Some d))" using messaging.inv_start by blast
    ultimately have "complex_messaging (EvReturn messagingR st e # t) w'"
      using msg e True first [OF True]
      by (auto simp: complex_messaging_def w' new_messaging_def NewMessagingServiceImpl_def complex_stage_defs service_at_def)
    then show ?thesis using inv f e
      by (simp add: complex_inv_def w' complex_has_setup_def future_part_event complex_probes_event complex_stage_defs)
  next
    case False
    have same: "cl' = cw_messaging w \<and> m' = cw_mem w \<and>
        (st = StepStart \<or> st = StepStop \<longrightarrow> (\<exists>p. service_at (cw_messaging w) (cm_messaging (cw_mem w)) = Some p \<and>
           (if st = StepStart then ms_start (cm_messaging (cw_mem w) ! p) = StartReturned e
            else ms_stop (cm_messaging (cw_mem w) ! p) = StopReturned e)))"
      using r inst_Run_standalone [OF h(2,3) par, of c st "cw_mem w"] False may
      by (auto simp: instance_task_def h(7) complex_environment_def msg_environment_def service_at_def MessagingServiceImpl_Start_def
          MessagingServiceImpl_Stop_def split: if_splits option.splits start_at.splits stop_at.splits)
    then have eq: "w' = w" by (simp add: w')
    have "complex_messaging (EvReturn messagingR st e # t) w"
      using msg same False by (auto simp: complex_messaging_def complex_stage_defs)
    then show ?thesis using inv http same unfolding eq
      by (simp add: complex_inv_def future_part_event complex_probes_event complex_stage_defs)
  qed
qed

section \<open>Skipped tasks\<close>

lemma future_task_skipped:
  assumes "tb_skipped (instance_build it (setup_callback it)) = [\<lambda>c cause (x, u). (x, future_skipped c cause u)]"
    and "tb_parent (current_build it cl) = None" and "ti_Skipped (GetTaskInfo (instance_task it) (cl, fc, m)) = Some f"
  shows "f c cause (cl, fc, m) = (cl, fst (future_skipped c cause (fc, m)), m)"
proof -
  have "f = run_skipped [\<lambda>c cause (x, u). (x, future_skipped c cause u)] None"
    using assms(3) [unfolded instance_skipped] assms(1,2) by simp
  moreover have "snd (future_skipped c cause (fc, m)) = m" by (simp add: future_skipped_def split_beta Let_def)
  ultimately show ?thesis by (simp add: run_skipped_def prod_eq_iff)
qed

lemma complex_future_skipped:
  assumes "c_parent cl = None" and "ti_Skipped (GetTaskInfo (instance_task (fst (complex_init ko m0))) (cl, fc, m)) = Some f"
  shows "f c cause (cl, fc, m) = (cl, fst (future_skipped c cause (fc, m)), m)"
  using assms
  by (intro future_task_skipped [where it = "fst (complex_init ko m0)"])
    (simp_all add: complex_init_def futuretask_New_def sample_instance_defs current_build_def)

lemma complex_health_skipped:
  assumes "c_parent cl = None" and "ti_Skipped (GetTaskInfo (instance_task (fst (complex_health ko net m0))) (cl, fc, m)) = Some f"
  shows "f c cause (cl, fc, m) = (cl, fst (future_skipped c cause (fc, m)), m)"
  using assms
  by (intro future_task_skipped [where it = "fst (complex_health ko net m0)"])
    (simp_all add: complex_health_def futuretask_New_def sample_instance_defs current_build_def)

lemma complex_health_tracked: "tracked complex_has_setup (complex_tasks ko net healthR)"
proof -
  obtain it cl0 where i: "futuretask_New (ko [StepSetup, StepStart, StepStop]) (\<lambda>_. None) None (Some complex_health_setup)
     [inst_WithStart (Some (\<lambda>c service (fc, m). case service of
         None \<Rightarrow> (None, (fc, m\<lparr>sm_panicked := True\<rparr>))
       | Some s \<Rightarrow> (let (e, m') = HealthServiceImpl_Start net s c m in (e, (fc, m'))))),
      inst_WithStop (Some (\<lambda>c service (fc, m). case service of
         None \<Rightarrow> (None, (fc, m\<lparr>sm_panicked := True\<rparr>))
       | Some s \<Rightarrow> (let (e, m') = HealthServiceImpl_Stop net s c m in (e, (fc, m'))))),
      inst_WithName ''health service''] (cm_health (complex_mem0 :: 'a complex_mem), complex_mem0) = (it, cl0)" by force
  have it: "fst (complex_health ko net (complex_mem0 :: 'a complex_mem)) = it" by (simp only: complex_health_def i fst_conv)
  from futuretask_tracked [OF i] show ?thesis
    by (simp add: tracked_def has_setup_in_def complex_has_setup_def complex_tasks_def complex_stage_defs cw_on_health_def it has_setup_def
        del: instance_task_simps)
qed

lemma complex_others_not_notified:
  assumes "r \<in> complex_refs" and "r \<noteq> initR" and "r \<noteq> healthR" and "c_parent (cw_messaging w) = None"
    and "r = httpR' \<Longrightarrow> c_parent (cw_http w) = None"
  shows "ti_Skipped (GetTaskInfo (complex_tasks ko net r) w) = None"
proof -
  consider "r = telemetryR" | "r = flushR" | "r = signalsR" | "r = startedR" | "r = terminatingR" | "r = httpR'" | "r = messagingR"
    using assms(1-3) by (auto simp: complex_refs_def)
  then show ?thesis
  proof cases
    case 1
    then have "complex_tasks ko net r = telemetry_task ko complex_world0" by (simp add: complex_tasks_def)
    then show ?thesis unfolding telemetry_task_def by (simp only:) (rule BuildTask_skipped; simp add: sample_build_defs)
  next
    case 2
    then have "complex_tasks ko net r = sample_flush_task ko complex_world0" by (simp add: complex_tasks_def complex_stage_defs)
    then show ?thesis unfolding sample_flush_task_def by (simp only:) (rule BuildTask_skipped; simp add: sample_build_defs)
  next
    case 3
    then show ?thesis
      by (simp add: complex_tasks_def complex_stage_defs signals_task_def GetTaskInfo_def signal_task_def TaskSignalTask_TaskInfo_def)
  next
    case 4
    have "ti_Skipped (GetTaskInfo (started_probe_task ko complex_mem0) (cw_mem w)) = None"
      unfolding started_probe_task_def by (rule BuildTask_skipped; simp add: probe_build_defs)
    with 4 show ?thesis by (simp add: complex_tasks_def complex_stage_defs cw_on_mem_def)
  next
    case 5
    have "ti_Skipped (GetTaskInfo (terminating_probe_task ko complex_mem0) (cw_mem w)) = None"
      unfolding terminating_probe_task_def by (rule BuildTask_skipped; simp add: probe_build_defs)
    with 5 show ?thesis by (simp add: complex_tasks_def complex_stage_defs cw_on_mem_def)
  next
    case 6
    have "ti_Skipped (GetTaskInfo (instance_task (fst (http_instance ko net complex_mem0))) (cw_http w, cw_mem w)) = None"
      using assms(5) 6
      by (intro instance_not_notified) (simp_all add: http_instance_def Provider_def sample_instance_defs current_build_def)
    with 6 show ?thesis by (simp del: instance_task_simps add: complex_tasks_def complex_stage_defs cw_on_http_def)
  next
    case 7
    have "ti_Skipped (GetTaskInfo (instance_task (fst (messaging_instance ko cm_messaging messaging_setup complex_mem0))) (cw_messaging w, cw_mem w)) = None"
      using assms(4) by (intro instance_not_notified) (simp_all add: messaging_instance_def sample_instance_defs current_build_def)
    with 7 show ?thesis by (simp del: instance_task_simps add: complex_tasks_def complex_stage_defs cw_on_messaging_def)
  qed
qed

lemma complex_skip_world:
  assumes "complex_inv ko net t w" and "r \<in> complex_refs" and "\<And>st. \<not> returned_in t r st"
    and "ti_Skipped (GetTaskInfo (complex_tasks ko net r) w) = Some f"
  shows "r = initR \<and> f c cause w = w\<lparr>cw_mem := (cw_mem w)\<lparr>sm_init := fst (future_skipped c cause (sm_init (cw_mem w), cw_mem w))\<rparr>\<rparr> \<or>
    r = healthR \<and> f c cause w = w\<lparr>cw_mem := (cw_mem w)\<lparr>cm_health := fst (future_skipped c cause (cm_health (cw_mem w), cw_mem w))\<rparr>\<rparr>"
proof -
  have par: "c_parent (cw_messaging w) = None" "c_parent (cw_init w) = None" "c_parent (cw_health w) = None"
    using assms(1) by (simp_all add: complex_inv_def complex_messaging_def future_part_def)
  have "r = httpR' \<Longrightarrow> c_parent (cw_http w) = None" using assms(1,3) by (auto simp: complex_inv_def complex_http_def)
  with complex_others_not_notified [OF assms(2) _ _ par(1), of ko net] assms(4) consider "r = initR" | "r = healthR" by fastforce
  then show ?thesis
  proof cases
    case 1
    obtain g where "ti_Skipped (GetTaskInfo (instance_task (fst (complex_init ko (complex_mem0 :: 'a complex_mem))))
         (cw_init w, sm_init (cw_mem w), cw_mem w)) = Some g"
      "f = (\<lambda>c cause w. (\<lambda>(cl, fc, m) w. w\<lparr>cw_init := cl, cw_mem := m\<lparr>sm_init := fc\<rparr>\<rparr>)
             (g c cause (cw_init w, sm_init (cw_mem w), cw_mem w)) w)"
      using assms(4) by (auto simp: 1 complex_tasks_def complex_stage_defs cw_on_init_def simp del: instance_task_simps)
    with complex_future_skipped [OF par(2) this(1)] show ?thesis by (simp add: 1)
  next
    case 2
    obtain g where "ti_Skipped (GetTaskInfo (instance_task (fst (complex_health ko net (complex_mem0 :: 'a complex_mem))))
         (cw_health w, cm_health (cw_mem w), cw_mem w)) = Some g"
      "f = (\<lambda>c cause w. (\<lambda>(cl, fc, m) w. w\<lparr>cw_health := cl, cw_mem := m\<lparr>cm_health := fc\<rparr>\<rparr>)
             (g c cause (cw_health w, cm_health (cw_mem w), cw_mem w)) w)"
      using assms(4) by (auto simp: 2 complex_tasks_def complex_stage_defs cw_on_health_def simp del: instance_task_simps)
    with complex_health_skipped [OF par(3) this(1)] show ?thesis by (simp add: 2)
  qed
qed

lemma complex_inv_skip:
  assumes inv: "complex_inv ko net t w" and r: "r \<in> complex_refs" and new: "\<not> skipped_in t r" "\<And>st. \<not> returned_in t r st"
    and f: "ti_Skipped (GetTaskInfo (complex_tasks ko net r) w) = Some f"
  shows "complex_inv ko net (EvSkipped r cause # t) (f c cause w)"
proof -
  let ?m = "cw_mem w" and ?w = "f c cause w"
  have probes: "complex_probes (EvSkipped r cause # t)" using complex_invD(7) [OF inv] by (auto simp: complex_probes_def)
  from complex_skip_world [OF inv r new(2) f, where c = c and cause = cause] show ?thesis
  proof (elim disjE conjE)
    assume r: "r = initR" and w': "?w = w\<lparr>cw_mem := ?m\<lparr>sm_init := fst (future_skipped c cause (sm_init ?m, ?m))\<rparr>\<rparr>"
    have no: "EvReturn httpR' StepSetup e \<notin> set t" "EvReturn messagingR StepSetup e \<notin> set t" for e
      using inv new(2) [of StepSetup] by (auto simp: r complex_inv_def complex_http_def complex_messaging_def)
    have "complex_http net (EvSkipped r cause # t) ?w" "complex_messaging (EvSkipped r cause # t) ?w"
      using complex_invD(5,6) [OF inv] no by (simp_all add: complex_http_def complex_messaging_def w')
    moreover have "future_part initR good_init (EvSkipped r cause # t) (cw_init ?w) (sm_init (cw_mem ?w))"
      using future_part_skip [OF complex_invD(4) [OF inv], where cause = cause and c = c and x = ?m] new r by (simp add: w')
    ultimately show ?thesis using inv probes
      by (simp add: complex_inv_def w' complex_has_setup_def future_part_event r complex_stage_defs)
  next
    assume r: "r = healthR" and w': "?w = w\<lparr>cw_mem := ?m\<lparr>cm_health := fst (future_skipped c cause (cm_health ?m, ?m))\<rparr>\<rparr>"
    have m: "mem_frame (cw_mem w) (cw_mem ?w)" by (simp add: w' mem_frame_def)
    have "complex_http net (EvSkipped r cause # t) ?w"
      by (rule complex_http_frame [OF complex_invD(5) [OF inv] m]) (simp_all add: w')
    moreover have "complex_messaging (EvSkipped r cause # t) ?w"
      by (rule complex_messaging_frame [OF complex_invD(6) [OF inv] mem_frameD [OF m]]) (simp_all add: w')
    moreover have "future_part healthR good_health (EvSkipped r cause # t) (cw_health ?w) (cm_health (cw_mem ?w))"
      using future_part_skip [OF complex_invD(3) [OF inv], where cause = cause and c = c and x = ?m] new r by (simp add: w')
    ultimately show ?thesis using inv probes
      by (simp add: complex_inv_def w' complex_has_setup_def future_part_event r complex_stage_defs)
  qed
qed

section \<open>The messaging service moves\<close>

lemma msg_returned_stays:
  assumes "msg_step s ev s'"
  shows "ms_start s = StartReturned e \<Longrightarrow> ms_start s' = StartReturned e" "ms_stop s = StopReturned e \<Longrightarrow> ms_stop s' = StopReturned e"
  using assms by (cases ev; auto)+

lemma complex_messaging_moves:
  assumes msg: "complex_messaging t w" and same: "cw_messaging w' = cw_messaging w" "sm_init (cw_mem w') = sm_init (cw_mem w)"
    and len: "length (cm_messaging (cw_mem w')) = length (cm_messaging (cw_mem w))"
    and all: "\<forall>s\<in>set (cm_messaging (cw_mem w')). msg_inv s"
    and db: "\<And>q. msi_db (ms_obj (cm_messaging (cw_mem w') ! q)) = msi_db (ms_obj (cm_messaging (cw_mem w) ! q))"
    and ret: "\<And>q e. ms_start (cm_messaging (cw_mem w) ! q) = StartReturned e \<Longrightarrow> ms_start (cm_messaging (cw_mem w') ! q) = StartReturned e"
      "\<And>q e. ms_stop (cm_messaging (cw_mem w) ! q) = StopReturned e \<Longrightarrow> ms_stop (cm_messaging (cw_mem w') ! q) = StopReturned e"
    and stop: "\<And>q. ms_stop (cm_messaging (cw_mem w') ! q) \<noteq> AtStore \<Longrightarrow>
      ms_stop (cm_messaging (cw_mem w) ! q) \<noteq> AtStore \<or> EvCall messagingR StepStop \<in> set t"
  shows "complex_messaging t w'"
proof -
  have at: "service_at (cw_messaging w) (cm_messaging (cw_mem w')) = service_at (cw_messaging w) (cm_messaging (cw_mem w))"
    by (simp add: service_at_def len split: option.split)
  have "\<exists>p. service_at (cw_messaging w) (cm_messaging (cw_mem w)) = Some p \<and> ms_start (cm_messaging (cw_mem w') ! p) = StartReturned e"
    if "EvReturn messagingR StepStart e \<in> set t" for e using msg that ret(1) unfolding complex_messaging_def by blast
  moreover have "\<exists>p. service_at (cw_messaging w) (cm_messaging (cw_mem w)) = Some p \<and> ms_stop (cm_messaging (cw_mem w') ! p) = StopReturned e"
    if "EvReturn messagingR StepStop e \<in> set t" for e using msg that ret(2) unfolding complex_messaging_def by blast
  moreover have "EvCall messagingR StepStop \<in> set t" if "service_at (cw_messaging w) (cm_messaging (cw_mem w)) = Some q"
    "ms_stop (cm_messaging (cw_mem w') ! q) \<noteq> AtStore" for q using msg that stop [of q] unfolding complex_messaging_def by blast
  ultimately show ?thesis using msg all unfolding complex_messaging_def same at len db by simp
qed

lemma complex_inv_outside:
  assumes inv: "complex_inv ko net t w" and out: "env_do complex_environment ev t w = Some w'"
  shows "complex_inv ko net t w'"
proof -
  let ?l = "cm_messaging (cw_mem w)"
  obtain p s' where p: "service_at (cw_messaging w) ?l = Some p" "msg_do ev (?l ! p) = Some s'"
    and w': "w' = w\<lparr>cw_mem := (cw_mem w)\<lparr>cm_messaging := ?l[p := s']\<rparr>\<rparr>" and of: "\<not> of_start ev \<longrightarrow> was_called t messagingR StepStop"
    using out by (auto simp: complex_environment_def msg_environment_def split: option.splits if_splits)
  then have len: "p < length ?l" by (auto simp: service_at_def split: option.splits if_splits)
  have step: "msg_step (?l ! p) ev s'" using p(2) by (simp add: msg_do_step)
  note msg = complex_invD(6) [OF inv]
  have all: "\<forall>s\<in>set ?l. msg_inv s" using msg by (simp add: complex_messaging_def)
  then have "msg_inv s'" using messaging.inv_step [OF _ step] len by simp
  with all have "\<forall>s\<in>set (?l[p := s']). msg_inv s" using set_update_subset_insert [of ?l p s'] by blast
  moreover have "msi_db (ms_obj (?l[p := s'] ! q)) = msi_db (ms_obj (?l ! q))" for q
    using msg_db [OF step] len by (cases "q = p") simp_all
  moreover have "ms_start (?l ! q) = StartReturned e \<Longrightarrow> ms_start (?l[p := s'] ! q) = StartReturned e"
    "ms_stop (?l ! q) = StopReturned e \<Longrightarrow> ms_stop (?l[p := s'] ! q) = StopReturned e" for q e
    using msg_returned_stays [OF step] len by (cases "q = p"; simp)+
  moreover have "ms_stop (?l ! q) \<noteq> AtStore \<or> EvCall messagingR StepStop \<in> set t" if "ms_stop (?l[p := s'] ! q) \<noteq> AtStore" for q
  proof (cases "q = p \<and> ms_stop (?l ! p) = AtStore")
    case True
    with step that len have "\<not> of_start ev" by (cases ev) auto
    with of show ?thesis by (simp add: was_called_def)
  next
    case False
    with that show ?thesis by (cases "q = p") auto
  qed
  ultimately have "complex_messaging t w'" by (intro complex_messaging_moves [OF msg]) (simp_all add: w')
  moreover have "complex_http net t w'" using complex_invD(5) [OF inv] by (simp add: complex_http_def http_ready_def w')
  ultimately show ?thesis using inv by (simp add: complex_inv_def complex_has_setup_def w')
qed

section \<open>The program\<close>

lemma complex_tasks_have_setup:
  "has_setup_in complex_has_setup (complex_tasks ko net healthR)" "has_setup_in complex_has_setup (complex_tasks ko net initR)"
  using tracked_has_setup [OF complex_health_tracked]
  by (simp_all add: has_setup_in_def complex_has_setup_def complex_tasks_def complex_stage_defs cw_on_init_def)

lemma complex_returns:
  assumes inv: "complex_inv ko net t w" and r: "r \<in> complex_refs" and new: "\<not> returned_in t r st" "\<not> skipped_in t r"
    and rely: "may_rely_on True complex_stages (\<lambda>r. r \<in> complex_refs) (complex_tasks ko net) complex_has_setup t r st"
    and may: "env_returns complex_environment t r st w" and run: "task_Run (complex_tasks ko net r) c st w = (e, w')"
  shows "complex_inv ko net (EvReturn r st e # t) w'"
proof -
  have before: "returned_in t r' StepSetup" if "st = StepSetup" "r' \<in> complex_refs" "has_setup_in complex_has_setup (complex_tasks ko net r')"
    "earlier complex_stages (fst r') (fst r)" for r'
    using rely that by (auto simp: may_rely_on_def setup_succeeded_def returned_in_iff)
  have order: "earlier complex_stages stageManagement x" if "x \<in> {stageInitialize, stageReady, stageService}" for x
    using that by (auto simp: earlier_def complex_stages_def complex_stage_defs)
  have order': "earlier complex_stages stageInitialize stageService"
    by (auto simp: earlier_def complex_stages_def complex_stage_defs)
  have refs: "healthR \<in> complex_refs" "initR \<in> complex_refs" by (simp_all add: complex_refs_def)
  consider "r = initR" | "r = httpR'" | "r = messagingR" | "r = healthR" | "r = startedR \<or> r = terminatingR" | "r = telemetryR \<or> r = flushR \<or> r = signalsR"
    using r by (auto simp: complex_refs_def)
  then show ?thesis
  proof cases
    case 1
    have "returned_in t healthR StepSetup" if "st = StepSetup"
      using before [OF that refs(1) complex_tasks_have_setup(1)] order 1 by simp
    with complex_init_returns [OF inv] new run 1 show ?thesis by blast
  next
    case 2
    have "returned_in t initR StepSetup" if "st = StepSetup"
      using before [OF that refs(2) complex_tasks_have_setup(2)] order' 2 by simp
    with complex_http_returns [OF inv] new run 2 show ?thesis by blast
  next
    case 3
    have "returned_in t initR StepSetup" if "st = StepSetup"
      using before [OF that refs(2) complex_tasks_have_setup(2)] order' 3 by simp
    with complex_messaging_returns [OF inv] new may run 3 show ?thesis by blast
  next
    case 4
    with complex_health_returns [OF inv] new run show ?thesis by blast
  next
    case 5
    have "returned_in t healthR StepSetup" if "r = startedR" "st = StepSetup"
      using before [OF that(2) refs(1) complex_tasks_have_setup(1)] order that by simp
    moreover have "returned_in t healthR StepSetup \<or> skipped_in t healthR" if "st = StepStop"
      using rely that refs(1) complex_health_tracked [of ko net] by (auto simp: may_rely_on_def)
    ultimately show ?thesis using complex_probe_returns [OF inv 5] run by blast
  next
    case 6
    have "w' = w"
      using 6 run otel_runs(1,2) [of ko complex_world0 c st w] otel_runs(3) [of net c st w]
      by (auto simp: complex_tasks_def complex_stage_defs)
    with complex_inv_idle [OF inv 6] show ?thesis by blast
  qed
qed

interpretation complex: program complex_environment True complex_stages "\<lambda>r. r \<in> complex_refs" "complex_tasks ko net" complex_has_setup
  "complex_inv ko net" for ko net
proof unfold_locales
  show "complex_has_setup w" if "complex_inv ko net t w" for t w using complex_invD(2) [OF that] .
  show "complex_inv ko net (EvCall r st # t) w" if "complex_inv ko net t w" for t w r st using that by (rule complex_inv_call)
  show "complex_inv ko net t w'" if "complex_inv ko net t w" "env_do complex_environment ev t w = Some w'" for t w ev w'
    using that by (rule complex_inv_outside)
next
  show "complex_inv ko net (EvReturn r st e # t) w'"
    if "complex_inv ko net t w" "r \<in> complex_refs" "was_called t r st" "\<not> returned_in t r st" "\<not> skipped_in t r"
      "may_rely_on True complex_stages (\<lambda>r. r \<in> complex_refs) (complex_tasks ko net) complex_has_setup t r st"
      "env_returns complex_environment t r st w" "task_Run (complex_tasks ko net r) c st w = (e, w')" for t w r st c e w'
    using complex_returns [OF that(1,2,4-8)] .
  show "complex_inv ko net (EvSkipped r cause # t) (f c cause w)"
    if "complex_inv ko net t w" "r \<in> complex_refs" "\<not> skipped_in t r" "\<And>st. \<not> was_called t r st" "\<And>st. \<not> returned_in t r st"
      "ti_Skipped (GetTaskInfo (complex_tasks ko net r) w) = Some f" for t w r f c cause
    using complex_inv_skip [OF that(1,2,3,5,6)] .
qed

section \<open>Properties\<close>

lemma complex_inv_start:
  assumes "map_order ko"
  shows "complex_inv ko net [] (complex_world1 ko net)"
proof -
  obtain hit hcl where h: "complex_health ko net complex_mem0 = (hit, hcl)" by force
  obtain iit icl where i: "complex_init ko (complex_mem0 :: 'a complex_mem) = (iit, icl)" by force
  obtain pit pcl where p: "http_instance ko net (complex_mem0 :: 'a complex_mem) = (pit, pcl)" by force
  obtain mit mcl where m: "messaging_instance ko cm_messaging messaging_setup (complex_mem0 :: 'a complex_mem) = (mit, mcl)" by force
  have "chan_closed chans_init closedchan" by (simp add: chan_closed_def chans_init_def closedchan_def)
  note fc = new_future_cell_ok [OF this]
  have mem: "sm_init (complex_mem0 :: 'a complex_mem) = new_future_cell None chans_init" "cm_health (complex_mem0 :: 'a complex_mem) = new_future_cell None chans_init"
    "\<not> sm_waits (complex_mem0 :: 'a complex_mem)" "\<not> sm_panicked (complex_mem0 :: 'a complex_mem)" "cm_messaging (complex_mem0 :: 'a complex_mem) = []"
    by (simp_all add: complex_mem0_def)
  note ok = complex_health_ok(5,6,8) [OF assms h] complex_init_ok(5,6,8) [OF assms i] http_instance_ok(6,7) [OF assms p]
    http_instance_steps [OF assms p] messaging_instance_ok(5,6,8) [OF assms m]
  show ?thesis
    using assms by (simp add: complex_inv_def complex_has_setup_def future_part_def complex_http_def complex_messaging_def
        complex_probes_def complex_world1_def h i p m ok mem fc service_at_def)
qed

lemma complex_run_inv:
  assumes "map_order ko" and "ctxs_wf st" and "complex_run ko net logger st = Inr s0" and "real_run complex_environment s0 s"
  shows "complex_inv ko net (s_trace s) (s_world s)"
proof -
  have s0: "s0 = initial_sys (complex_manager ko net logger) st (complex_world1 ko net)"
    using assms(3) by (simp add: complex_run_eq [OF assms(1)])
  have "complex.runs ko net s"
  proof (rule complex.runs_from [OF _ _ _ _ _ _ _ assms(4)])
    show "initial s0" "bare s0" by (simp_all add: s0 complex_initial [OF assms(2)] complex_bare)
    show "valid s0 r = (r \<in> complex_refs)" for r by (simp add: s0 initial_sys_def complex_manager_def complex_valid)
    show "task_of s0 r = complex_tasks ko net r" if "r \<in> complex_refs" for r
      using that by (simp add: s0 initial_sys_def complex_manager_def complex_at newTaskWrapper_def)
    show "m_enforceShutdownTimeout (s_mgr s0) = True" "s_stages s0 = complex_stages"
      by (simp_all add: s0 initial_sys_def complex_manager_def)
    show "complex_inv ko net [] (s_world s0)" using complex_inv_start [OF assms(1)] by (simp add: s0 initial_sys_def)
  qed
  then show ?thesis by (simp add: complex.runs_def)
qed


text \<open>A run up to the setups of the two services.\<close>

definition complex_schedule :: "'w \<Rightarrow> (msg_event, 'w) move list" where
  "complex_schedule w = [Act (ARun 0 None)] @ mains 7 @ go_returns 0 w @ go_returns 1 w @ mains 6 @
     [Act (AGo 2), Act (AGo 3)] @ mains 4 @ go_returns 4 w @ mains 8 @ go_returns 5 w @ mains 11 @
     replicate 4 (Act (AGo 6)) @ [Act (AReturn 6 None w)] @ replicate 4 (Act (AGo 7)) @ [Act (AReturn 7 None w)]"

lemma complex_schedule_ends:
  "case complex_run (\<lambda>l. l) net 0 background of Inl _ \<Rightarrow> False | Inr s0 \<Rightarrow>
     (case exec_real complex_environment (complex_schedule w) s0 of None \<Rightarrow> False | Some s \<Rightarrow>
        returned_in (s_trace s) (''service'', 2) StepSetup \<and> returned_in (s_trace s) (''service'', 3) StepSetup)"
  by code_simp


end
