(* ===== verification/SingleHttp.thy ===== *)
theory SingleHttp
  imports K8sRun SampleRuns
begin

text \<open>
  The program of \<open>k8sinit/sample/main_singlehttp.go\<close>: one HTTP server for the probes and the application.
  The health handler is a part of the HTTP wrapper (the code keeps a pointer to it in both), the server is
  the data of the health task, and the task of the service gives the wrapper its application. What
  \<open>net/http\<close> does is a parameter.
\<close>

declare split_paired_All [simp del] split_paired_Ex [simp del]

section \<open>The world\<close>

text \<open>The handler of the server is the wrapper of the program; the mux that the setup function makes is dropped.\<close>

datatype single_served = TheWrapper

record single_server =
  ss_Handler :: single_served
  ss_Addr :: string

record 'r single_net =
  sn_net :: "'r net"
  sn_route :: "(string \<times> route) list \<Rightarrow> 'r \<Rightarrow> route option"
  sn_ListenAndServe :: "single_server \<Rightarrow> go_error option"
  sn_Shutdown :: "single_server \<Rightarrow> ctx \<Rightarrow> go_error option"

record 'r single_mem =
  h1_wrapper :: "'r httpWrapper"
  h1_panicked :: bool

record 'r single_world =
  h1_mem :: "'r single_mem"
  h1_server :: "single_server option cell"

definition on_single_server ::
  "(single_server option cell \<times> 'r single_mem) task \<Rightarrow> 'r single_world k8s_world task" where
  "on_single_server = focus_task (\<lambda>(h, w). (h1_server w, h1_mem w)) (\<lambda>(cl, m) (h, w). (h, w\<lparr>h1_server := cl, h1_mem := m\<rparr>))"

definition on_single_mem :: "'r single_mem task \<Rightarrow> 'r single_world k8s_world task" where
  "on_single_mem = focus_task (\<lambda>(h, w). h1_mem w) (\<lambda>m (h, w). (h, w\<lparr>h1_mem := m\<rparr>))"

section \<open>The tasks\<close>

definition wrapper_health :: "('r handler \<Rightarrow> 'r handler) \<Rightarrow> 'r single_world \<Rightarrow> 'r single_world" where
  "wrapper_health f w = w\<lparr>h1_mem := (h1_mem w)\<lparr>h1_wrapper :=
     (h1_wrapper (h1_mem w))\<lparr>hw_healthHandler := f (hw_healthHandler (h1_wrapper (h1_mem w)))\<rparr>\<rparr>\<rparr>"

definition single_healthHandler :: "'r single_world healthHandler" where
  "single_healthHandler = \<lparr>hh_ServiceStarted = (\<lambda>c. wrapper_health handler_ServiceStarted),
     hh_ServiceTerminating = (\<lambda>c. wrapper_health handler_ServiceTerminating)\<rparr>"

definition the_server :: single_server where
  "the_server = \<lparr>ss_Handler = TheWrapper, ss_Addr = '':8080''\<rparr>"

definition single_setup :: "(single_server option, 'r single_mem) setup_func" where
  "single_setup c m = (let mux = Register (hw_healthHandler (h1_wrapper m)) in ((Some the_server, None), m))"

definition single_instance :: "(step list \<Rightarrow> step list) \<Rightarrow> 'r single_net \<Rightarrow> 'r single_mem \<Rightarrow>
    (single_server option, 'r single_mem) instanceTask \<times> single_server option cell" where
  "single_instance ko sn m = inst_Build (ko [StepSetup, StepStart, StepStop]) (\<lambda>_. None) (Some single_setup)
     [inst_WithStart (Some (\<lambda>c service m. case service of
         None \<Rightarrow> (None, m\<lparr>h1_panicked := True\<rparr>)
       | Some s \<Rightarrow> (sn_ListenAndServe sn s, m))),
      inst_WithStop (Some (\<lambda>c service m. case service of
         None \<Rightarrow> (None, m\<lparr>h1_panicked := True\<rparr>)
       | Some s \<Rightarrow> (sn_Shutdown sn s c, m))),
      inst_WithName ''health''] m"

definition single_app :: "'r single_net \<Rightarrow> 'r http_handler" where
  "single_app sn = (let mux = [(''GET /test'', hello_test), (''GET /'', hello)] in mux_handler (sn_net sn) mux)"

definition single_http_task :: "(step list \<Rightarrow> step list) \<Rightarrow> 'r single_net \<Rightarrow> 'r single_mem \<Rightarrow> 'r single_mem task" where
  "single_http_task ko sn m0 = BuildTask (ko [StepSetup]) m0
     [WithSetup (Some (\<lambda>c m. (None, m\<lparr>h1_wrapper := SetHTTPHandler (single_app sn) (h1_wrapper m)\<rparr>))),
      WithName ''HTTP service'']"

section \<open>The program\<close>

definition single_start :: "'r single_mem" where
  "single_start = (let healthHandler = NewHandler [WithStartupProbe True]
     in \<lparr>h1_wrapper = NewHTTPWrapper healthHandler, h1_panicked = False\<rparr>)"

definition single_signal :: "'r single_net \<Rightarrow> ctx \<Rightarrow> 'w \<Rightarrow> signal_wake \<times> 'w" where
  "single_signal sn c w = (n_signal (sn_net sn) c, w)"

definition single_register :: "(step list \<Rightarrow> step list) \<Rightarrow> 'r single_net \<Rightarrow> 'r single_world \<Rightarrow> 'r single_world k8s_state \<Rightarrow>
    'r single_world \<times> 'r single_world k8s_state" where
  "single_register ko sn w s =
     (let s = SetHealthHandler (Some single_healthHandler) [] w s;
          (server, cl) = single_instance ko sn (h1_mem w);
          w = w\<lparr>h1_server := cl\<rparr>;
          s = SetHealthTask (Some (on_single_server (instance_task server))) [] w s;
          s = k8s_AddTask StageService (Some (on_single_mem (single_http_task ko sn (h1_mem w)))) [] w s
      in (w, s))"

text \<open>\<open>runSingleHTTP\<close>, up to the call of \<open>Run\<close>.\<close>

definition single_run :: "(step list \<Rightarrow> step list) \<Rightarrow> 'r single_net \<Rightarrow> nat \<Rightarrow> ctxs \<Rightarrow> go_error + 'r single_world k8s_world sys" where
  "single_run ko sn logger st =
     (let w = \<lparr>h1_mem = single_start, h1_server = zero_cell\<rparr>
      in case k8s_New (single_signal sn) [k8s_WithLogger logger] w st of
           Inl err \<Rightarrow> Inl err
         | Inr s \<Rightarrow> (let (w, s) = single_register ko sn w s in Inr (k8s_run_state w s)))"

section \<open>The registered tasks\<close>

lemma single_instance_ok:
  assumes "map_order ko" and "single_instance ko sn m = (it, cl)"
  shows "ti_InitError (GetTaskInfo (instance_task it) (cl, u)) = None" "options_ok (it_options it)" "standalone it"
    "it_setupFunc it = Some single_setup" "c_parent cl = None" "c_data cl = None"
    "bo_stepFunc (it_options it) = [(StepStart, Some (\<lambda>c service m. case service of
         None \<Rightarrow> (None, m\<lparr>h1_panicked := True\<rparr>)
       | Some s \<Rightarrow> (sn_ListenAndServe sn s, m))),
      (StepStop, Some (\<lambda>c service m. case service of
         None \<Rightarrow> (None, m\<lparr>h1_panicked := True\<rparr>)
       | Some s \<Rightarrow> (sn_Shutdown sn s c, m)))]" "StepSetup \<in> set (bs_steps (c_state cl))"
proof -
  note n = assms(2) [unfolded single_instance_def]
  note b = inst_Build_simps [OF n]
  show ok: "options_ok (it_options it)" by (simp add: b sample_options_ok)
  show "standalone it" "bo_stepFunc (it_options it) = [(StepStart, Some (\<lambda>c service m. case service of
         None \<Rightarrow> (None, m\<lparr>h1_panicked := True\<rparr>)
       | Some s \<Rightarrow> (sn_ListenAndServe sn s, m))),
      (StepStop, Some (\<lambda>c service m. case service of
         None \<Rightarrow> (None, m\<lparr>h1_panicked := True\<rparr>)
       | Some s \<Rightarrow> (sn_Shutdown sn s c, m)))]"
    by (simp_all add: standalone_def b sample_instance_defs)
  show "it_setupFunc it = Some single_setup" "c_parent cl = None" "c_data cl = None" by (simp_all add: b)
  have key: "key_order (ko [StepSetup, StepStart, StepStop]) (instance_build it (setup_callback it))"
    by (rule map_order_key [OF assms(1)]) (auto simp: b sample_instance_defs)
  note i = instance_task_ok [OF n ok key]
  show "ti_InitError (GetTaskInfo (instance_task it) (cl, u)) = None" "StepSetup \<in> set (bs_steps (c_state cl))"
    by (subst i; simp add: b sample_instance_defs)+
qed

lemma single_http_task_ok:
  assumes "map_order ko"
  shows "ti_InitError (GetTaskInfo (single_http_task ko sn m) m') = None"
  unfolding single_http_task_def by (subst BuildTask_ok [OF assms]; simp add: build_ok_def sample_build_defs)

abbreviation k_signalsR :: tref where "k_signalsR \<equiv> (StageManagement, 0)"
abbreviation k_serverR :: tref where "k_serverR \<equiv> (StageManagement, 1)"
abbreviation k_startedR :: tref where "k_startedR \<equiv> (StageReady, 0)"
abbreviation k_terminatingR :: tref where "k_terminatingR \<equiv> (StageService, 0)"
abbreviation k_httpR :: tref where "k_httpR \<equiv> (StageService, 1)"

definition single_world0 :: "'r single_world" where
  "single_world0 = \<lparr>h1_mem = single_start, h1_server = zero_cell\<rparr>"

definition single_world1 :: "(step list \<Rightarrow> step list) \<Rightarrow> 'r single_net \<Rightarrow> 'r single_world" where
  "single_world1 ko sn = \<lparr>h1_mem = single_start, h1_server = snd (single_instance ko sn single_start)\<rparr>"

definition single_handlers :: "'r single_world k8s_handlers" where
  "single_handlers = default_handlers\<lparr>kh_healthHandler := single_healthHandler\<rparr>"

definition single_tasks :: "(step list \<Rightarrow> step list) \<Rightarrow> 'r single_net \<Rightarrow> tref \<Rightarrow> 'r single_world k8s_world task" where
  "single_tasks ko sn r =
     (if r = k_signalsR then signal_task (single_signal sn) (SignalTask [''interrupt'', ''terminated''])
      else if r = k_startedR then started_probe (single_handlers, single_world0)
      else if r = k_terminatingR then terminating_probe (single_handlers, single_world0)
      else if r = k_serverR then on_single_server (instance_task (fst (single_instance ko sn single_start)))
      else on_single_mem (single_http_task ko sn single_start))"

definition single_stageTasks :: "(step list \<Rightarrow> step list) \<Rightarrow> 'r single_net \<Rightarrow> 'r single_world k8s_world stageTasks" where
  "single_stageTasks ko sn =
     (let add = (\<lambda>r. stageTasks_add (fst r) (newTaskWrapper (single_tasks ko sn r) []))
      in add k_httpR (add k_serverR (add k_terminatingR (add k_startedR (add k_signalsR newStageTasks)))))"

definition single_manager :: "(step list \<Rightarrow> step list) \<Rightarrow> 'r single_net \<Rightarrow> nat \<Rightarrow> 'r single_world k8s_world manager" where
  "single_manager ko sn logger = default_manager\<lparr>m_logger := logger, m_stages := allStages, m_enforceShutdownTimeout := True,
     m_shutdownTimeout := second * 20, m_teardownTimeout := second * 5, m_tasks := single_stageTasks ko sn\<rparr>"

text \<open>\<open>New\<close> with a logger only: the manager with its four stages and the signal task.\<close>

lemma k8s_New_logger:
  "k8s_New env [k8s_WithLogger logger] x st =
     Inr (new_k8s_manager (k8s_WithLogger logger default_config) (default_manager\<lparr>m_logger := logger, m_stages := allStages,
       m_enforceShutdownTimeout := True, m_shutdownTimeout := second * 20, m_teardownTimeout := second * 5,
       m_tasks := stageTasks_add StageManagement (newTaskWrapper (signal_task env (SignalTask [''interrupt'', ''terminated''])) [])
         newStageTasks\<rparr>), st, default_handlers)"
proof -
  let ?m = "default_manager\<lparr>m_logger := logger, m_stages := allStages, m_enforceShutdownTimeout := True,
     m_shutdownTimeout := second * 20, m_teardownTimeout := second * 5\<rparr> :: 'a k8s_world manager"
  let ?c = "k8s_WithLogger logger default_config :: 'a k8s_config"
  have "New (k_managerOptions ?c @ enforced_options ?c) = Inr ?m"
    using manager_init_None [of ?m] allStages_ok
    by (simp add: New_def Let_def k8s_WithLogger_def default_config_def enforced_options_def WithLogger_def WithStages_def
        WithShutdownTimeout_def WithTeardownTimeout_def WithEnforceShutdownTimeout_def)
  then show ?thesis
    by (simp add: k8s_New_def on_AddTask AddTask_valid [OF _ signal_info] allStages_def default_manager_def new_k8s_manager_def
        k8s_WithLogger_def default_config_def)
qed

lemma single_run_eq:
  fixes sn :: "'r single_net"
  assumes "map_order ko"
  shows "single_run ko sn logger st = Inr (initial_sys (single_manager ko sn logger) st (single_handlers, single_world1 ko sn))"
proof -
  obtain it cl where i: "single_instance ko sn single_start = (it, cl)" by force
  have ok: "ti_InitError (GetTaskInfo (on_single_server (instance_task it)) (h, \<lparr>h1_mem = m, h1_server = cl\<rparr>)) = None" for h and m :: "'r single_mem"
    using single_instance_ok(1) [OF assms i] by (simp add: on_single_server_def)
  have ok': "ti_InitError (GetTaskInfo (on_single_mem (single_http_task ko sn single_start)) hw) = None" for hw
    using single_http_task_ok [OF assms] by (simp add: on_single_mem_def)
  show ?thesis
    by (simp del: instance_task_simps focus_task_simps add: single_run_def k8s_New_logger single_register_def i ok ok' SetHealthHandler_def SetHealthTask_def
        on_AddTask new_k8s_manager_def AddTask_valid probe_info default_manager_def allStages_def k8s_run_state_def Let_def
        single_manager_def single_world1_def single_stageTasks_def single_tasks_def single_handlers_def single_world0_def stage_defs)
qed

lemma single_get:
  "stageTasks_get (single_stageTasks ko sn) stage =
     map (\<lambda>r. newTaskWrapper (single_tasks ko sn r) [])
       (if stage = StageManagement then [k_signalsR, k_serverR] else if stage = StageReady then [k_startedR]
        else if stage = StageService then [k_terminatingR, k_httpR] else [])"
  by (simp add: single_stageTasks_def stage_defs)

definition single_refs :: "tref set" where
  "single_refs = {k_signalsR, k_serverR, k_startedR, k_terminatingR, k_httpR}"

lemma single_valid: "tw_valid (single_stageTasks ko sn) r \<longleftrightarrow> r \<in> single_refs"
  by (cases r) (auto simp: tw_valid_def single_get single_refs_def stage_defs less_Suc_eq numeral_2_eq_2 split: if_splits)

lemma single_at: "r \<in> single_refs \<Longrightarrow> tw_at (single_stageTasks ko sn) r = newTaskWrapper (single_tasks ko sn r) []"
  by (auto simp: tw_at_def single_get single_refs_def stage_defs)

lemma single_initial:
  assumes "ctxs_wf st"
  shows "initial (initial_sys (single_manager ko sn logger) st w)"
proof -
  have "tw_executeSteps (tw_at (single_stageTasks ko sn) r) = []" "tw_startCancel (tw_at (single_stageTasks ko sn) r) = None"
    "tw_finishCtx (tw_at (single_stageTasks ko sn) r) = None" if "r \<in> single_refs" for r
    using that by (simp_all add: single_at newTaskWrapper_def)
  then have "idle_manager (single_manager ko sn logger)"
    using allStages_ok
    by (auto simp: idle_manager_def single_manager_def default_manager_def wrappers_fresh_def single_valid)
      (auto simp: single_stageTasks_def stageTasks_add_def stageTasks_get_def newStageTasks_def allStages_def stage_defs)
  then show ?thesis
    using assms by (intro startable_initial) (simp add: startable_def single_manager_def default_manager_def)
qed

lemma single_bare: "bare (initial_sys (single_manager ko sn logger) st w)"
  by (auto simp: bare_def initial_sys_def single_manager_def default_manager_def single_valid single_at newTaskWrapper_def
      zero_taskOptions_def)

section \<open>The invariant\<close>

definition single_has_setup :: "'r single_world k8s_world \<Rightarrow> bool" where
  "single_has_setup hw \<longleftrightarrow> StepSetup \<in> set (bs_steps (c_state (h1_server (snd hw))))"

text \<open>The wrapper after the events \<open>t\<close>.\<close>

definition single_wrapper :: "'r single_net \<Rightarrow> event list \<Rightarrow> 'r httpWrapper" where
  "single_wrapper sn t = \<lparr>hw_httpHandler = if returned_in t k_httpR StepSetup then Some (single_app sn) else None,
     hw_healthHandler = (NewHandler [WithStartupProbe True])\<lparr>h_isStarted := returned_in t k_startedR StepSetup,
        h_isTerminating := returned_in t k_terminatingR StepStop\<rparr>,
     hw_mux = hw_mux (NewHTTPWrapper (NewHandler [WithStartupProbe True] :: 'r handler))\<rparr>"

definition single_inv :: "(step list \<Rightarrow> step list) \<Rightarrow> 'r single_net \<Rightarrow> event list \<Rightarrow> 'r single_world k8s_world \<Rightarrow> bool" where
  "single_inv ko sn t hw \<longleftrightarrow> map_order ko \<and> single_has_setup hw \<and> fst hw = single_handlers \<and>
     h1_wrapper (h1_mem (snd hw)) = single_wrapper sn t \<and> \<not> h1_panicked (h1_mem (snd hw)) \<and>
     c_parent (h1_server (snd hw)) = None \<and>
     c_data (h1_server (snd hw)) = (if returned_in t k_serverR StepSetup then Some (Some the_server) else None) \<and>
     (\<forall>e. EvReturn k_serverR StepStart e \<in> set t \<longrightarrow> e = sn_ListenAndServe sn the_server) \<and>
     (returned_in t k_httpR StepSetup \<longrightarrow> setup_succeeded t k_startedR)"

lemma single_inv_event:
  assumes "single_inv ko sn t hw"
    and "\<And>r st e. ev = EvReturn r st e \<Longrightarrow> (r, st) \<notin> {(k_httpR, StepSetup), (k_startedR, StepSetup), (k_terminatingR, StepStop),
      (k_serverR, StepSetup), (k_serverR, StepStart)}"
  shows "single_inv ko sn (ev # t) hw"
proof -
  have "returned_in (ev # t) r st = returned_in t r st" if "(r, st) \<in> {(k_httpR, StepSetup), (k_startedR, StepSetup),
      (k_terminatingR, StepStop), (k_serverR, StepSetup)}" for r st
    using assms(2) that by (cases ev) auto
  then have same: "single_wrapper sn (ev # t) = single_wrapper sn t"
    "returned_in (ev # t) k_httpR StepSetup = returned_in t k_httpR StepSetup"
    "returned_in (ev # t) k_serverR StepSetup = returned_in t k_serverR StepSetup" by (simp_all add: single_wrapper_def)
  have "EvReturn k_serverR StepStart e \<in> set (ev # t) \<longleftrightarrow> EvReturn k_serverR StepStart e \<in> set t" for e
    using assms(2) by auto
  moreover have "setup_succeeded t k_startedR \<Longrightarrow> setup_succeeded (ev # t) k_startedR" by (simp add: setup_succeeded_def)
  ultimately show ?thesis using assms(1) unfolding single_inv_def same by blast
qed

section \<open>Calls of the tasks\<close>

lemma single_server_returns:
  assumes inv: "single_inv ko sn t hw" and new: "\<not> returned_in t k_serverR st"
    and own: "st \<noteq> StepSetup \<Longrightarrow> returned_in t k_serverR StepSetup"
    and run: "task_Run (single_tasks ko sn k_serverR) c st hw = (e, hw')"
  shows "single_inv ko sn (EvReturn k_serverR st e # t) hw'"
proof -
  obtain h w where hw: "hw = (h, w)" by force
  obtain it cl0 where i: "single_instance ko sn (single_start :: 'a single_mem) = (it, cl0)" by force
  obtain cl' m' where r: "task_Run (instance_task it) c st (h1_server w, h1_mem w) = (e, (cl', m'))"
    and hw': "hw' = (h, w\<lparr>h1_server := cl', h1_mem := m'\<rparr>)"
    using run by (auto simp: single_tasks_def stage_defs on_single_server_def i hw split: prod.splits)
  have ko: "map_order ko" and par: "c_parent (h1_server w) = None" using inv by (simp_all add: single_inv_def hw)
  note s = single_instance_ok [OF ko i]
  note r' = r [unfolded instance_task_def] inst_Run_standalone [OF s(2,3) par, of c st "h1_mem w"]
  show ?thesis
  proof (cases "st = StepSetup")
    case True
    then have "e = None \<and> cl' = (h1_server w)\<lparr>c_data := Some (Some the_server)\<rparr> \<and> m' = h1_mem w"
      using r' inv new by (auto simp: s(4) single_setup_def single_inv_def hw)
    then show ?thesis using inv True
      by (auto simp: single_inv_def single_has_setup_def hw hw' single_wrapper_def setup_succeeded_def stage_defs)
  next
    case False
    with own inv have "c_data (h1_server w) = Some (Some the_server)" by (simp add: single_inv_def hw)
    then have "cl' = h1_server w \<and> m' = h1_mem w \<and> (st = StepStart \<longrightarrow> e = sn_ListenAndServe sn the_server)"
      using r' False by (auto simp: s(7) split: if_splits option.splits)
    then have "hw' = hw" "st = StepStart \<longrightarrow> e = sn_ListenAndServe sn the_server" by (simp_all add: hw hw')
    then show ?thesis using inv False
      by (auto simp: single_inv_def single_wrapper_def setup_succeeded_def stage_defs)
  qed
qed

lemma single_http_returns:
  assumes inv: "single_inv ko sn t hw" and first: "st = StepSetup \<Longrightarrow> setup_succeeded t k_startedR"
    and run: "task_Run (single_tasks ko sn k_httpR) c st hw = (e, hw')"
  shows "single_inv ko sn (EvReturn k_httpR st e # t) hw'"
proof -
  obtain h w where hw: "hw = (h, w)" by force
  obtain m' where r: "task_Run (single_http_task ko sn single_start) c st (h1_mem w) = (e, m')" and hw': "hw' = (h, w\<lparr>h1_mem := m'\<rparr>)"
    using run by (auto simp: single_tasks_def stage_defs on_single_mem_def hw split: prod.splits)
  show ?thesis
  proof (cases "st = StepSetup")
    case True
    then have "e = None \<and> m' = (h1_mem w)\<lparr>h1_wrapper := SetHTTPHandler (single_app sn) (h1_wrapper (h1_mem w))\<rparr>"
      using r by (simp add: single_http_task_def sample_build_defs build_task_def taskBuild_Run_def loadParent_def)
    then show ?thesis using inv True first
      by (auto simp: single_inv_def single_has_setup_def hw hw' single_wrapper_def SetHTTPHandler_def setup_succeeded_def stage_defs)
  next
    case False
    then have "m' = h1_mem w"
      using r by (simp add: single_http_task_def sample_build_defs build_task_def taskBuild_Run_def loadParent_def)
    then have "hw' = hw" by (simp add: hw hw')
    with inv False show ?thesis by (intro single_inv_event) (auto simp: stage_defs)
  qed
qed

lemma single_probe_returns:
  assumes inv: "single_inv ko sn t hw" and r: "r = k_startedR \<or> r = k_terminatingR"
    and run: "task_Run (single_tasks ko sn r) c st hw = (e, hw')"
  shows "single_inv ko sn (EvReturn r st e # t) hw'"
proof -
  obtain h w where hw: "hw = (h, w)" by force
  have h: "h = single_handlers" using inv by (simp add: single_inv_def hw)
  show ?thesis
  proof (cases "r = k_startedR \<and> st = StepSetup \<or> r = k_terminatingR \<and> st = StepStop")
    case True
    let ?f = "if r = k_startedR then handler_ServiceStarted else handler_ServiceTerminating"
    have k: "e = None \<and> hw' = (h, wrapper_health ?f w)"
      using True run by (auto simp: single_tasks_def stage_defs probe_runs hw h single_handlers_def single_healthHandler_def)
    have "h1_wrapper (h1_mem w) = single_wrapper sn t" using inv by (simp add: single_inv_def hw)
    then have "h1_wrapper (h1_mem (wrapper_health ?f w)) = single_wrapper sn (EvReturn r st e # t)"
      using True by (elim disjE conjE) (simp_all add: wrapper_health_def single_wrapper_def handler_ServiceStarted_def
          handler_ServiceTerminating_def stage_defs)
    moreover have "returned_in (EvReturn r st e # t) k_httpR StepSetup = returned_in t k_httpR StepSetup"
      "returned_in (EvReturn r st e # t) k_serverR StepSetup = returned_in t k_serverR StepSetup"
      "\<And>e'. EvReturn k_serverR StepStart e' \<in> set (EvReturn r st e # t) \<longleftrightarrow> EvReturn k_serverR StepStart e' \<in> set t"
      "setup_succeeded t k_startedR \<Longrightarrow> setup_succeeded (EvReturn r st e # t) k_startedR"
      using True by (auto simp: setup_succeeded_def stage_defs)
    moreover have "h1_panicked (h1_mem (wrapper_health ?f w)) = h1_panicked (h1_mem w)" "h1_server (wrapper_health ?f w) = h1_server w"
      by (simp_all add: wrapper_health_def)
    ultimately show ?thesis using inv unfolding single_inv_def single_has_setup_def hw conjunct2 [OF k] snd_conv fst_conv by metis
  next
    case False
    then have "hw' = hw" using run r by (auto simp: single_tasks_def stage_defs probe_runs hw split: if_splits)
    with inv False r show ?thesis by (intro single_inv_event) (auto simp: stage_defs)
  qed
qed

section \<open>The program\<close>

lemma single_tasks_have_setup:
  "has_setup_in single_has_setup (single_tasks ko sn k_serverR)" "has_setup_in single_has_setup (single_tasks ko sn k_startedR)"
proof -
  show "has_setup_in single_has_setup (single_tasks ko sn k_serverR)"
    by (simp add: has_setup_in_def single_has_setup_def single_tasks_def stage_defs on_single_server_def split_beta)
  show "has_setup_in single_has_setup (single_tasks ko sn k_startedR)"
    by (simp add: has_setup_in_def single_tasks_def stage_defs taskHasStep_def taskSteps_def probe_info)
qed

lemma single_returns:
  assumes inv: "single_inv ko sn t hw" and r: "r \<in> single_refs" and new: "\<not> returned_in t r st"
    and rely: "may_rely_on True allStages (\<lambda>r. r \<in> single_refs) (single_tasks ko sn) single_has_setup t r st"
    and run: "task_Run (single_tasks ko sn r) c st hw = (e, hw')"
  shows "single_inv ko sn (EvReturn r st e # t) hw'"
proof -
  consider "r = k_serverR" | "r = k_httpR" | "r = k_startedR \<or> r = k_terminatingR" | "r = k_signalsR"
    using r by (auto simp: single_refs_def)
  then show ?thesis
  proof cases
    case 1
    have "returned_in t k_serverR StepSetup" if "st \<noteq> StepSetup"
      using rely that single_tasks_have_setup(1) [of ko sn] 1 by (auto simp: may_rely_on_def returned_in_iff)
    with single_server_returns [OF inv] new run 1 show ?thesis by blast
  next
    case 2
    have "earlier allStages StageReady StageService" by (simp add: earlier_def allStages_def stage_defs)
    then have "setup_succeeded t k_startedR" if "st = StepSetup"
      using rely that single_tasks_have_setup(2) [of ko sn] 2 by (auto simp: may_rely_on_def single_refs_def)
    with single_http_returns [OF inv] run 2 show ?thesis by blast
  next
    case 3
    with single_probe_returns [OF inv] run show ?thesis by blast
  next
    case 4
    then have "hw' = hw"
      using run by (auto simp: single_tasks_def signal_task_def single_signal_def split: if_splits)
    with inv 4 show ?thesis by (intro single_inv_event) (auto simp: stage_defs)
  qed
qed

lemma single_not_notified:
  assumes "single_inv ko sn t hw" and "r \<in> single_refs"
  shows "ti_Skipped (GetTaskInfo (single_tasks ko sn r) hw) = None"
proof -
  obtain h w where hw: "hw = (h, w)" by force
  have par: "c_parent (h1_server w) = None" using assms(1) by (simp add: single_inv_def hw)
  consider "r = k_serverR" | "r = k_httpR" | "r = k_startedR" | "r = k_terminatingR" | "r = k_signalsR"
    using assms(2) by (auto simp: single_refs_def)
  then show ?thesis
  proof cases
    case 1
    have "ti_Skipped (GetTaskInfo (instance_task (fst (single_instance ko sn single_start))) (h1_server w, h1_mem w)) = None"
      using par by (intro instance_not_notified) (simp_all add: single_instance_def sample_instance_defs current_build_def)
    with 1 show ?thesis by (simp del: instance_task_simps add: single_tasks_def stage_defs on_single_server_def hw)
  next
    case 2
    have "ti_Skipped (GetTaskInfo (single_http_task ko sn single_start) (h1_mem w)) = None"
      unfolding single_http_task_def by (rule BuildTask_skipped; simp add: sample_build_defs)
    with 2 show ?thesis by (simp add: single_tasks_def stage_defs on_single_mem_def hw)
  next
    case 5
    then show ?thesis by (simp add: single_tasks_def GetTaskInfo_def signal_task_def TaskSignalTask_TaskInfo_def)
  qed (simp_all add: single_tasks_def stage_defs probe_info)
qed

interpretation single: program no_environment True allStages "\<lambda>r. r \<in> single_refs" "single_tasks ko sn" single_has_setup
  "single_inv ko sn" for ko sn
proof unfold_locales
  show "single_has_setup w" if "single_inv ko sn t w" for t w using that by (simp add: single_inv_def)
  show "single_inv ko sn (EvCall r st # t) w" if "single_inv ko sn t w" for t w r st using that by (rule single_inv_event) simp
  show "single_inv ko sn t w'" if "env_do no_environment ev t w = Some w'" for t w ev w' using that by (simp add: no_environment_def)
next
  show "single_inv ko sn (EvReturn r st e # t) w'"
    if "single_inv ko sn t w" "r \<in> single_refs" "was_called t r st" "\<not> returned_in t r st" "\<not> skipped_in t r"
      "may_rely_on True allStages (\<lambda>r. r \<in> single_refs) (single_tasks ko sn) single_has_setup t r st"
      "env_returns no_environment t r st w" "task_Run (single_tasks ko sn r) c st w = (e, w')" for t w r st c e w'
    using single_returns [OF that(1,2,4,6,8)] .
  show "single_inv ko sn (EvSkipped r cause # t) (f c cause w)"
    if "single_inv ko sn t w" "r \<in> single_refs" "\<not> skipped_in t r" "\<And>st. \<not> was_called t r st" "\<And>st. \<not> returned_in t r st"
      "ti_Skipped (GetTaskInfo (single_tasks ko sn r) w) = Some f" for t w r f c cause
    using single_not_notified [OF that(1,2)] that(6) by simp
qed

section \<open>Properties\<close>

lemma single_run_inv:
  assumes "map_order ko" and "ctxs_wf st" and "single_run ko sn logger st = Inr s0" and "real_run no_environment s0 s"
  shows "single_inv ko sn (s_trace s) (s_world s)"
proof -
  have s0: "s0 = initial_sys (single_manager ko sn logger) st (single_handlers, single_world1 ko sn)"
    using assms(3) by (simp add: single_run_eq [OF assms(1)])
  obtain it cl where i: "single_instance ko sn single_start = (it, cl)" by force
  have "single.runs ko sn s"
  proof (rule single.runs_from [OF _ _ _ _ _ _ _ assms(4)])
    show "initial s0" "bare s0" by (simp_all add: s0 single_initial [OF assms(2)] single_bare)
    show "valid s0 r = (r \<in> single_refs)" for r by (simp add: s0 initial_sys_def single_manager_def single_valid)
    show "task_of s0 r = single_tasks ko sn r" if "r \<in> single_refs" for r
      using that by (simp add: s0 initial_sys_def single_manager_def single_at newTaskWrapper_def)
    show "m_enforceShutdownTimeout (s_mgr s0) = True" "s_stages s0 = allStages"
      by (simp_all add: s0 initial_sys_def single_manager_def)
    have "single_wrapper sn [] = h1_wrapper (single_start :: 'a single_mem)"
      by (simp add: single_wrapper_def single_start_def NewHTTPWrapper_def NewHandler_def handler_init_def Let_def)
    then show "single_inv ko sn [] (s_world s0)"
      using assms(1) single_instance_ok(5,6,8) [OF assms(1) i]
      by (simp add: s0 initial_sys_def single_inv_def single_has_setup_def single_world1_def i) (simp add: single_start_def Let_def)
  qed
  then show ?thesis by (simp add: single.runs_def)
qed

text \<open>
  C38: in every run of the program with one HTTP server, at any moment and whatever the schedule: a request
  never panics. One to the application is answered 412 until the started probe was signalled, 404 from
  then until the setup of the HTTP service has returned, and by the application after that; the readiness
  probe answers 412, then 200, and 503 once the terminating probe was signalled. The setup of the service
  comes after the signal, so there is a time at which the probe says ready and the application is missing.
\<close>

theorem single_http_answers:
  assumes "map_order ko" and "ctxs_wf st" and "single_run ko sn logger st = Inr s0" and "real_run no_environment s0 s"
    and "\<And>ms rt. sn_route sn ms r = Some rt \<Longrightarrow> rt \<in> snd ` set ms"
  defines "t \<equiv> s_trace s" and "hw \<equiv> h1_wrapper (h1_mem (snd (s_world s)))"
  shows "wrapper_ServeHTTP (sn_route sn) hw r new_response \<noteq> None \<and>
    (sn_route sn (hw_mux hw) r = Some AppRoute \<longrightarrow> wrapper_ServeHTTP (sn_route sn) hw r new_response = Some (
       if \<not> returned_in t (''ready'', 0) StepSetup then \<lparr>rw_code = Some 412, rw_body = ''service not ready''\<rparr>
       else if \<not> returned_in t (''service'', 1) StepSetup then NotFound new_response
       else mux_handler (sn_net sn) [(''GET /test'', hello_test), (''GET /'', hello)] r new_response)) \<and>
    (sn_route sn (hw_mux hw) r = Some (ProbeRoute (Some ProbeReadiness)) \<longrightarrow> wrapper_ServeHTTP (sn_route sn) hw r new_response = Some (
       if \<not> returned_in t (''ready'', 0) StepSetup then \<lparr>rw_code = Some 412, rw_body = ''service not ready''\<rparr>
       else if returned_in t (''service'', 0) StepStop then \<lparr>rw_code = Some 503, rw_body = ''service shutting down''\<rparr>
       else \<lparr>rw_code = Some 200, rw_body = ''''\<rparr>)) \<and>
    (returned_in t (''service'', 1) StepSetup \<longrightarrow> setup_succeeded t (''ready'', 0)) \<and> \<not> h1_panicked (h1_mem (snd (s_world s)))"
proof -
  have inv: "single_inv ko sn t (s_world s)" using single_run_inv [OF assms(1-4)] by (simp add: t_def)
  then have w: "hw = single_wrapper sn t" by (simp add: single_inv_def hw_def)
  have ph: "h_probeHandler (hw_healthHandler hw) = Some DefaultProbeHandler"
    by (simp add: w single_wrapper_def NewHandler_def handler_init_def Let_def)
  have "rt = AppRoute \<or> (\<exists>probe. rt = ProbeRoute (Some probe))" if "sn_route sn (hw_mux hw) r = Some rt" for rt
    using assms(5) [OF that] by (auto simp: w single_wrapper_def NewHTTPWrapper_def Register_def NewHandler_def handler_init_def Let_def)
  then have "wrapper_ServeHTTP (sn_route sn) hw r new_response \<noteq> None"
    by (cases "sn_route sn (hw_mux hw) r") (auto simp: wrapper_ServeHTTP_def probe_ServeHTTP_def ph)
  moreover have "wrapper_ServeHTTP (sn_route sn) hw r new_response = Some (
       if \<not> returned_in t k_startedR StepSetup then \<lparr>rw_code = Some 412, rw_body = ''service not ready''\<rparr>
       else if \<not> returned_in t k_httpR StepSetup then NotFound new_response
       else mux_handler (sn_net sn) [(''GET /test'', hello_test), (''GET /'', hello)] r new_response)"
    if "sn_route sn (hw_mux hw) r = Some AppRoute"
    using that by (simp add: wrapper_ServeHTTP_def serveApp_def handler_IsStarted_def w single_wrapper_def single_app_def rw_Write_def
        WriteHeader_def new_response_def StatusPreconditionFailed_def Let_def)
  moreover have "wrapper_ServeHTTP (sn_route sn) hw r new_response = Some (
       if \<not> returned_in t k_startedR StepSetup then \<lparr>rw_code = Some 412, rw_body = ''service not ready''\<rparr>
       else if returned_in t k_terminatingR StepStop then \<lparr>rw_code = Some 503, rw_body = ''service shutting down''\<rparr>
       else \<lparr>rw_code = Some 200, rw_body = ''''\<rparr>)" if "sn_route sn (hw_mux hw) r = Some (ProbeRoute (Some ProbeReadiness))"
    using that ph by (simp add: wrapper_ServeHTTP_def probe_ServeHTTP_def DefaultProbeHandler_def w single_wrapper_def rw_Write_def
        WriteHeader_def new_response_def StatusPreconditionFailed_def StatusServiceUnavailable_def StatusOK_def Let_def)
  ultimately show ?thesis using inv by (simp add: single_inv_def stage_defs)
qed

text \<open>A run up to the setup of the HTTP service, with its requests written as the patterns of the mux.\<close>

definition quiet_single :: "string single_net" where
  "quiet_single = \<lparr>sn_net = \<lparr>n_match = (\<lambda>routes _. map_option snd (List.find (\<lambda>_. True) routes)),
     n_ListenAndServe = (\<lambda>_. None), n_Shutdown = (\<lambda>_ _. None), n_signal = (\<lambda>_. SignalReceived ''interrupt'')\<rparr>,
     sn_route = first_match, sn_ListenAndServe = (\<lambda>_. Some (UserError ''http: Server closed'')), sn_Shutdown = (\<lambda>_ _. None)\<rparr>"

definition single_schedule :: "'w \<Rightarrow> (unit, 'w) move list" where
  "single_schedule w = [Act (ARun 0 None)] @ mains 6 @ go_returns 0 w @ mains 5 @ replicate 4 (Act (AGo 1)) @
     replicate 4 (Act (AGo 2)) @ mains 10 @ go_returns 3 w @ mains 9"

lemma single_schedule_ends:
  "case single_run (\<lambda>l. l) sn 0 background of Inl _ \<Rightarrow> False | Inr s0 \<Rightarrow>
     (case exec_real no_environment (single_schedule w) s0 of None \<Rightarrow> False | Some s \<Rightarrow>
        returned_in (s_trace s) (''ready'', 0) StepSetup \<and> \<not> returned_in (s_trace s) (''service'', 1) StepSetup \<and>
        \<not> returned_in (s_trace s) (''service'', 0) StepStop)"
  by code_simp

theorem single_http_answers_witness:
  "\<exists>s0 s hw. single_run (\<lambda>l. l) quiet_single 0 background = Inr s0 \<and> real_run no_environment s0 s \<and>
     hw = h1_wrapper (h1_mem (snd (s_world s))) \<and>
     map_option rw_code (wrapper_ServeHTTP first_match hw ''GET /ready'' new_response) = Some (Some 200) \<and>
     map_option rw_code (wrapper_ServeHTTP first_match hw ''GET /app'' new_response) = Some (Some 404)"
proof -
  obtain s0 where s0: "single_run (\<lambda>l. l) quiet_single 0 background = Inr s0"
    using single_schedule_ends [where sn = quiet_single and w = "(single_handlers, single_world0)"] by (auto split: sum.splits)
  then obtain s where s: "exec_real no_environment (single_schedule (s_world s0)) s0 = Some s"
    "returned_in (s_trace s) (''ready'', 0) StepSetup" "\<not> returned_in (s_trace s) (''service'', 1) StepSetup"
    "\<not> returned_in (s_trace s) (''service'', 0) StepStop"
    using single_schedule_ends [where sn = quiet_single and w = "s_world s0"] by (auto split: option.splits)
  note run = exec_real_run [OF s(1)]
  have ko: "map_order (\<lambda>l. l)" by (simp add: map_order_def)
  let ?hw = "h1_wrapper (h1_mem (snd (s_world s)))"
  have m: "first_match ms r = Some rt \<Longrightarrow> rt \<in> snd ` set ms" for ms r rt
    by (force simp: first_match_def split: option.splits if_splits dest: map_of_SomeD)
  have route: "sn_route quiet_single = first_match" by (simp add: quiet_single_def)
  have mux: "hw_mux ?hw = hw_mux (NewHTTPWrapper (NewHandler [WithStartupProbe True] :: string handler))"
    using single_run_inv [OF ko background_wf s0 run] by (simp add: single_inv_def single_wrapper_def)
  have r: "first_match (hw_mux ?hw) ''GET /app'' = Some AppRoute"
    "first_match (hw_mux ?hw) ''GET /ready'' = Some (ProbeRoute (Some ProbeReadiness))"
    by (simp_all add: mux first_match_def NewHTTPWrapper_def Register_def NewHandler_def handler_init_def Let_def)
  note p = single_http_answers [OF ko background_wf s0 run, unfolded route, OF m]
  have "wrapper_ServeHTTP first_match ?hw ''GET /app'' new_response = Some (NotFound new_response)"
    using p [of "''GET /app''"] r s(2-4) by simp
  moreover have "wrapper_ServeHTTP first_match ?hw ''GET /ready'' new_response = Some \<lparr>rw_code = Some 200, rw_body = ''''\<rparr>"
    using p [of "''GET /ready''"] r s(2-4) by simp
  moreover have "rw_code (NotFound new_response) = Some 404"
    by (simp add: NotFound_def rw_Write_def WriteHeader_def new_response_def StatusNotFound_def Let_def)
  ultimately show ?thesis using s0 run by auto
qed

end
