(* ===== verification/K8sSample.thy ===== *)
theory K8sSample
  imports SingleHttp ComplexMain
begin

text \<open>
  The program of \<open>k8sinit/sample/main.go\<close>: the bigger sample over \<open>k8sinit\<close>. The health server of
  \<open>health_http\<close> is both the health task and the health handler, the telemetry flush is a handler, and the
  stages, the timeouts, the signal task and the probe tasks come from \<open>k8sinit\<close>. Here are the program
  and its registration. Logging is left out.
\<close>

declare split_paired_All [simp del] split_paired_Ex [simp del]

section \<open>The world\<close>

record HealthHelperImpl =
  hhi_db :: "nat option"

text \<open>\<open>ListenAndServe\<close> and \<open>Shutdown\<close> of the health server are parameters beside those of the services.\<close>

record 'r k8s_net =
  kn_net :: "'r net"
  kn_ListenAndServe :: "http_server \<Rightarrow> go_error option"
  kn_Shutdown :: "http_server \<Rightarrow> ctx \<Rightarrow> go_error option"

record 'r k8s_mem = "'r sample_mem" +
  km_helper :: HealthHelperImpl
  km_server :: "('r, unit) server"
  km_messaging :: "messaging list"

record 'r k8s_program_world =
  kw_mem :: "'r k8s_mem"
  kw_init :: "initTaskData option cell"
  kw_http :: "'r k8s_mem task option cell"
  kw_messaging :: "nat option cell"

definition kw_on_mem :: "'r k8s_mem task \<Rightarrow> 'r k8s_program_world k8s_world task" where
  "kw_on_mem = focus_task (\<lambda>(h, w). kw_mem w) (\<lambda>m (h, w). (h, w\<lparr>kw_mem := m\<rparr>))"

definition kw_on_init ::
  "(initTaskData option cell \<times> initTaskData option future_cell \<times> 'r k8s_mem) task \<Rightarrow> 'r k8s_program_world k8s_world task" where
  "kw_on_init = focus_task (\<lambda>(h, w). (kw_init w, sm_init (kw_mem w), kw_mem w))
     (\<lambda>(cl, fc, m) (h, w). (h, w\<lparr>kw_init := cl, kw_mem := m\<lparr>sm_init := fc\<rparr>\<rparr>))"

definition kw_on_http :: "('r k8s_mem task option cell \<times> 'r k8s_mem) task \<Rightarrow> 'r k8s_program_world k8s_world task" where
  "kw_on_http = focus_task (\<lambda>(h, w). (kw_http w, kw_mem w)) (\<lambda>(cl, m) (h, w). (h, w\<lparr>kw_http := cl, kw_mem := m\<rparr>))"

definition kw_on_messaging :: "(nat option cell \<times> 'r k8s_mem) task \<Rightarrow> 'r k8s_program_world k8s_world task" where
  "kw_on_messaging = focus_task (\<lambda>(h, w). (kw_messaging w, kw_mem w)) (\<lambda>(cl, m) (h, w). (h, w\<lparr>kw_messaging := cl, kw_mem := m\<rparr>))"

section \<open>The health server\<close>

definition NewHealthHelperImpl :: HealthHelperImpl where
  "NewHealthHelperImpl = \<lparr>hhi_db = None\<rparr>"

definition HealthHelperImpl_AddDBHealth :: "nat option \<Rightarrow> HealthHelperImpl \<Rightarrow> HealthHelperImpl" where
  "HealthHelperImpl_AddDBHealth db s = s\<lparr>hhi_db := db\<rparr>"

text \<open>The probe handler does not read the database yet: both branches are the default.\<close>

definition HealthHelperImpl_ServeHTTP :: "HealthHelperImpl \<Rightarrow> 'r probe_handler" where
  "HealthHelperImpl_ServeHTTP s probe status r w =
     (if probe \<noteq> ProbeReadiness then DefaultProbeHandler probe status r w else DefaultProbeHandler probe status r w)"

definition k8s_health_server :: "HealthHelperImpl \<Rightarrow> ('r, unit) server" where
  "k8s_health_server helper = NewServer
     [HandlerOption (WithStartupProbe True), HandlerOption (WithProbeHandler (Some (HealthHelperImpl_ServeHTTP helper))),
      WithServerTaskName ''health'']"

text \<open>The server as a task; a nil server would be dereferenced.\<close>

definition k8s_server_task :: "'r k8s_net \<Rightarrow> 'r k8s_mem task" where
  "k8s_server_task kn = \<lparr>
     task_Run = (\<lambda>c st m. case server_Run (kn_ListenAndServe kn) (kn_Shutdown kn) (km_server m) c st () of
         None \<Rightarrow> (None, m\<lparr>sm_panicked := True\<rparr>)
       | Some (e, s, _) \<Rightarrow> (e, m\<lparr>km_server := s\<rparr>)),
     task_TaskInfo = Some (\<lambda>m. focus_info (\<lambda>_. ()) (\<lambda>_ m. m) (server_TaskInfo (km_server m))),
     task_Stringer = None, task_type = ''*health_http.Server''\<rparr>"

definition on_km_server :: "(('r, unit) server \<Rightarrow> ('r, unit) server) \<Rightarrow> 'r k8s_program_world \<Rightarrow> 'r k8s_program_world" where
  "on_km_server f w = w\<lparr>kw_mem := (kw_mem w)\<lparr>km_server := f (km_server (kw_mem w))\<rparr>\<rparr>"

definition k8s_server_handler :: "'r k8s_program_world healthHandler" where
  "k8s_server_handler = \<lparr>hh_ServiceStarted = (\<lambda>c. on_km_server server_ServiceStarted),
     hh_ServiceTerminating = (\<lambda>c. on_km_server server_ServiceTerminating)\<rparr>"

section \<open>The other tasks\<close>

definition k8s_flush_handler :: "'x telemetryHandler" where
  "k8s_flush_handler = BuildTelemetryHandler [WithTelemetryHandlerFlushTelemetry (Some (\<lambda>c x. (None, x)))]"

definition k8s_init_setup :: "(initTaskData option, 'r k8s_mem) setup_func" where
  "k8s_init_setup c m =
     (let err = None;
          data = \<lparr>itd_db = Some (sm_dbs m)\<rparr>;
          m1 = m\<lparr>sm_dbs := sm_dbs m + 1\<rparr>
      in if err \<noteq> None then ((None, err), m1)
         else ((Some data, err), m1\<lparr>km_helper := HealthHelperImpl_AddDBHealth (itd_db data) (km_helper m1)\<rparr>))"

definition k8s_init :: "(step list \<Rightarrow> step list) \<Rightarrow> 'r k8s_mem \<Rightarrow>
    (initTaskData option, initTaskData option future_cell \<times> 'r k8s_mem) instanceTask \<times> initTaskData option cell" where
  "k8s_init ko m = futuretask_New (ko [StepSetup, StepTeardown]) (\<lambda>_. None) None (Some k8s_init_setup)
     [inst_WithTeardown (Some (\<lambda>c data w. (None, w))), inst_WithName ''init data''] (sm_init m, m)"

definition k8s_messaging_setup :: "(nat option, 'r k8s_mem) setup_func" where
  "k8s_messaging_setup c m =
     (let ((initData, err), m1) = initTask_Value m
      in if err \<noteq> None then ((None, err), m1)
         else (case initData of
                 None \<Rightarrow> ((None, None), m1\<lparr>sm_panicked := True\<rparr>)
               | Some d \<Rightarrow> ((Some (length (km_messaging m1)), None),
                   m1\<lparr>km_messaging := km_messaging m1 @ [new_messaging (itd_db d)]\<rparr>)))"

section \<open>The program\<close>

definition k8s_mem0 :: "'r k8s_mem" where
  "k8s_mem0 = (let healthHelper = NewHealthHelperImpl
     in \<lparr>sm_servers = [], sm_dbs = 0, sm_init = new_future_cell None chans_init, sm_waits = False, sm_panicked = False,
         km_helper = healthHelper, km_server = k8s_health_server healthHelper, km_messaging = []\<rparr>)"

definition k8s_sample_register :: "(step list \<Rightarrow> step list) \<Rightarrow> 'r k8s_net \<Rightarrow> 'r k8s_program_world \<Rightarrow>
    'r k8s_program_world k8s_state \<Rightarrow> 'r k8s_program_world \<times> 'r k8s_program_world k8s_state" where
  "k8s_sample_register ko kn w s =
     (let s = SetTelemetryTask (Some (telemetry_task ko (default_handlers, w))) [] w s;
          s = SetTelemetryHandler (Some k8s_flush_handler) [] w s;
          s = SetHealthTask (Some (kw_on_mem (k8s_server_task kn))) [] w s;
          s = SetHealthHandler (Some k8s_server_handler) [] w s;
          (_, w, s) = k8s_InitAddTask StageInitialize
            (\<lambda>(h, w). let (init, cl) = k8s_init ko (kw_mem w)
                 in (Some (kw_on_init (instance_task init)), h, w\<lparr>kw_init := cl\<rparr>)) [] w s;
          (http, cl) = http_instance ko (kn_net kn) (kw_mem w);
          w = w\<lparr>kw_http := cl\<rparr>;
          s = k8s_AddTask StageService (Some (kw_on_http (instance_task http))) [] w s;
          (messaging, cl) = messaging_instance ko km_messaging k8s_messaging_setup (kw_mem w);
          w = w\<lparr>kw_messaging := cl\<rparr>;
          s = k8s_AddTask StageService (Some (kw_on_messaging (instance_task messaging))) [GlobalOption WithStartStepManager] w s
      in (w, s))"

definition k8s_sample_run :: "(step list \<Rightarrow> step list) \<Rightarrow> 'r k8s_net \<Rightarrow> nat \<Rightarrow> ctxs \<Rightarrow>
    go_error + 'r k8s_program_world \<times> 'r k8s_program_world k8s_state" where
  "k8s_sample_run ko kn logger st =
     (let w = \<lparr>kw_mem = k8s_mem0, kw_init = zero_cell, kw_http = zero_cell, kw_messaging = zero_cell\<rparr>
      in case k8s_New (\<lambda>c w. (n_signal (kn_net kn) c, w)) [k8s_WithLogger logger] w st of
           Inl err \<Rightarrow> Inl err
         | Inr s \<Rightarrow> Inr (k8s_sample_register ko kn w s))"

section \<open>The registration\<close>

lemma k8s_init_ok:
  assumes "map_order ko" and "k8s_init ko m = (it, cl)"
  shows "ti_InitError (GetTaskInfo (instance_task it) (cl, u)) = None" "tb_name (instance_build it (setup_callback it)) = ''init data''"
proof -
  note n = assms(2) [unfolded k8s_init_def futuretask_New_def]
  note b = inst_Build_simps [OF n]
  have ok: "options_ok (it_options it)" using sample_options_ok(2) by (simp add: b)
  have key: "key_order (ko [StepSetup, StepTeardown]) (instance_build it (setup_callback it))"
    by (rule map_order_key [OF assms(1)]) (auto simp: b sample_instance_defs)
  show "ti_InitError (GetTaskInfo (instance_task it) (cl, u)) = None"
    by (subst instance_task_ok [OF n ok key]; simp add: b sample_instance_defs)
  show "tb_name (instance_build it (setup_callback it)) = ''init data''"
    by (simp add: b sample_instance_defs)
qed

definition k8s_world0 :: "'r k8s_program_world" where
  "k8s_world0 = \<lparr>kw_mem = k8s_mem0, kw_init = zero_cell, kw_http = zero_cell, kw_messaging = zero_cell\<rparr>"

definition k8s_world1 :: "(step list \<Rightarrow> step list) \<Rightarrow> 'r k8s_net \<Rightarrow> 'r k8s_program_world" where
  "k8s_world1 ko kn = \<lparr>kw_mem = k8s_mem0, kw_init = snd (k8s_init ko (k8s_mem0 :: 'r k8s_mem)),
     kw_http = snd (http_instance ko (kn_net kn) (k8s_mem0 :: 'r k8s_mem)),
     kw_messaging = snd (messaging_instance ko km_messaging k8s_messaging_setup (k8s_mem0 :: 'r k8s_mem))\<rparr>"

definition k8s_handlers1 :: "'r k8s_program_world k8s_handlers" where
  "k8s_handlers1 = \<lparr>kh_healthHandler = k8s_server_handler, kh_telemetryHandler = k8s_flush_handler\<rparr>"

text \<open>The tasks of each stage.\<close>

definition k8s_sample_tasks :: "(step list \<Rightarrow> step list) \<Rightarrow> 'r k8s_net \<Rightarrow> string \<Rightarrow> 'r k8s_program_world k8s_world task list" where
  "k8s_sample_tasks ko kn stage =
     (if stage = StageManagement then
        [signal_task (\<lambda>c w. (n_signal (kn_net kn) c, w)) (SignalTask [''interrupt'', ''terminated'']),
         telemetry_task ko (default_handlers, k8s_world0), kw_on_mem (k8s_server_task kn)]
      else if stage = StageInitialize then [kw_on_init (instance_task (fst (k8s_init ko k8s_mem0)))]
      else if stage = StageReady then [started_probe (k8s_handlers1, k8s_world0)]
      else if stage = StageService then
        [flush_task k8s_flush_handler (default_handlers\<lparr>kh_telemetryHandler := k8s_flush_handler\<rparr>, k8s_world0),
         terminating_probe (k8s_handlers1, k8s_world0),
         kw_on_http (instance_task (fst (http_instance ko (kn_net kn) k8s_mem0))),
         kw_on_messaging (instance_task (fst (messaging_instance ko km_messaging k8s_messaging_setup k8s_mem0)))]
      else [])"

text \<open>The registration makes no error: the run can start, with the nine tasks in their stages, in the order of the calls.\<close>

lemma k8s_sample_run_eq:
  fixes kn :: "'r k8s_net"
  assumes "map_order ko"
  shows "\<exists>m. k8s_sample_run ko kn logger st = Inr (k8s_world1 ko kn, m, st, k8s_handlers1) \<and> m_initErrors (k_manager m) = [] \<and>
    m_stages (k_manager m) = allStages \<and> m_enforceShutdownTimeout (k_manager m) \<and>
    (\<forall>stage. map tw_task (stageTasks_get (m_tasks (k_manager m)) stage) = k8s_sample_tasks ko kn stage)"
proof -
  obtain iit icl where i: "k8s_init ko (k8s_mem0 :: 'r k8s_mem) = (iit, icl)" by force
  obtain pit pcl where p: "http_instance ko (kn_net kn) (k8s_mem0 :: 'r k8s_mem) = (pit, pcl)" by force
  obtain mit mcl where mi: "messaging_instance ko km_messaging k8s_messaging_setup (k8s_mem0 :: 'r k8s_mem) = (mit, mcl)" by force
  have ok: "ti_InitError (GetTaskInfo (kw_on_init (instance_task iit)) (h, w)) = None" if "kw_init w = icl" for h w
    using k8s_init_ok(1) [OF assms i] that by (simp add: kw_on_init_def)
  moreover have "ti_InitError (GetTaskInfo (kw_on_http (instance_task pit)) (h, w)) = None" if "kw_http w = pcl" for h w
    using http_instance_ok(1) [OF assms p] that by (simp add: kw_on_http_def)
  moreover have "ti_InitError (GetTaskInfo (kw_on_messaging (instance_task mit)) (h, w)) = None" if "kw_messaging w = mcl" for h w
    using messaging_instance_ok(1) [OF assms mi] that by (simp add: kw_on_messaging_def)
  moreover have "ti_InitError (GetTaskInfo (kw_on_mem (k8s_server_task kn)) (h, w)) = None" for h w
    by (simp add: kw_on_mem_def) (simp add: k8s_server_task_def GetTaskInfo_def server_TaskInfo_def zero_task_info_def)
  ultimately show ?thesis
    unfolding k8s_sample_run_def k8s_world0_def [symmetric] Let_def
    by (simp del: instance_task_simps focus_task_simps add: k8s_New_logger k8s_sample_register_def i p mi SetHealthHandler_def
        SetHealthTask_def SetTelemetryTask_def SetTelemetryHandler_def on_AddTask new_k8s_manager_def AddTask_valid probe_info
        otel_tasks_ok [OF assms] default_manager_def allStages_def k8s_InitAddTask_def InitAddTask_def Let_def k8s_world0_def
        k8s_world1_def k8s_handlers1_def default_handlers_def k8s_sample_tasks_def newTaskWrapper_def stage_defs)
qed

end
