(* ===== verification/Spec2Isabelle.thy ===== *)
theory Spec2Isabelle
  imports RunTheorems RunEarly RunLater RunWellFormed CoreTheorems Build DefaultTasks Health FutureTask FutureReady
    K8sRun SampleRuns ComplexRuns SingleHttp K8sSample
begin

text \<open>
  A verification development for \<open>svcinit\<close>, a Go library that runs the tasks of a service in ordered
  stages: each task has the steps setup, start, stop and teardown; the manager sets up and starts the
  stages in order, waits for the first task to return or for a request to stop, then stops and tears
  down the stages in reverse order.

  The parts of the program and the theories that model them (the definitions have the names of the
  code; a method of a type is prefixed by the type where the bare name would clash):

  \<^item> \<open>Prelude\<close>: theorem collections, runs of a step relation, the locale of invariants of a machine.
  \<^item> \<open>Errors\<close> (\<open>defs.go\<close>, \<open>util.go\<close>): error values as a tree, \<open>errors.Is\<close> and \<open>errors.As\<close>, the
    multi error builder, with the contract of an error sink as the locale \<open>error_sink\<close>.
  \<^item> \<open>Contexts\<close> (\<open>context.go\<close>): a store of contexts with cancellation and causes (the locale
    \<open>cancellation\<close> is its contract), the stop cause, the logger and the start step manager in it.
  \<^item> \<open>Tasks\<close> (\<open>task.go\<close>, \<open>task_helpers.go\<close>, \<open>callback.go\<close>): steps, tasks, task info and options. User
    code is a function on a world of a type that is a parameter.
  \<^item> \<open>TaskWrapper\<close> (\<open>task_wrapper.go\<close>): the bookkeeping of one task. The locale \<open>step_ledger\<close> states its
    contract: a step starts at most once.
  \<^item> \<open>Stages\<close> (\<open>run_helpers.go\<close>), \<open>Service\<close> (\<open>service.go\<close>), \<open>Manager\<close> (\<open>manager.go\<close>).
  \<^item> \<open>RunMachine\<close> and \<open>RunSteps\<close> (\<open>run.go\<close>): \<open>Run\<close>, \<open>start\<close>, \<open>shutdown\<close>, \<open>runStage\<close> and the goroutines of
    \<open>runStageStep\<close> as a transition system over the shared state \<open>sys\<close>; \<open>sys_step\<close> is the relation,
    \<open>exec\<close> its executable form.
  \<^item> \<open>RunFrames\<close> to \<open>RunResult\<close> and \<open>RunCovered\<close>: the invariants of the machine, one theory for each
    (control flow, schedule, ledger, wait groups, order, the abstract monitor, contexts, progress,
    results, completeness).
  \<^item> \<open>Examples\<close>: concrete runs; \<open>RunTheorems\<close>, \<open>RunEarly\<close>, \<open>CoreTheorems\<close>: the properties of the run (the
    second one of runs that end before their first stage) and of the components below it.
  \<^item> \<open>RunLater\<close>, \<open>RunReady\<close>, \<open>RunLife\<close>, \<open>RunWellFormed\<close>: what a failed setup stops, what has succeeded when
    a step is called (in the earlier stages, and of the task itself), and that no state of a run refers
    to a context, task or stage that does not exist.
  \<^item> \<open>Programs\<close>: runs in which the tasks really do what their code says (\<open>real_step\<close>), beside an
    environment; the locale \<open>program\<close> reduces an invariant of trace and world to single calls.
  \<^item> \<open>Build\<close> (\<open>build.go\<close>), \<open>DefaultTasks\<close> (\<open>default.go\<close>), \<open>Health\<close> (\<open>health.go\<close>, \<open>health_http\<close>): the
    library of tasks, each with its properties.
  \<^item> \<open>Future\<close> (\<open>future.go\<close>): channels, the latch, and futures; the locale \<open>resolve_once\<close> is the contract
    of a cell that is resolved once, given by the latch and by the future over it.
  \<^item> \<open>InstanceTask\<close> (\<open>instancetask\<close>): tasks whose setup step makes the data of the other steps, and the
    provider of a task. \<open>FutureTask\<close> (\<open>futuretask\<close>): an instance task that resolves a future; the events
    of a run are played on it, so its properties are about the runs of the manager; \<open>FutureReady\<close>: the
    future has its value while the later stages start.
  \<^item> \<open>K8s\<close>, \<open>K8sRun\<close> (\<open>k8sinit\<close>): the manager with four fixed stages, its registration of handlers and
    tasks as registers set once, and what that gives in a run.
  \<^item> \<open>SampleServices\<close>, \<open>SampleMain\<close>, \<open>SampleRuns\<close> (\<open>sample\<close>): the sample program as a \<open>program\<close>, with its two
    services, its registration and what holds in all its runs. \<open>Messaging\<close>, \<open>ComplexMain\<close>, \<open>ComplexRuns\<close>
    (\<open>sample/samplecomplex\<close>): the messaging service as a machine of its own, which is the environment of
    the bigger program, that program and its runs. \<open>SingleHttp\<close> (\<open>k8sinit/sample/main_singlehttp.go\<close>): the
    program that serves the probes and the application with one server, over \<open>K8s\<close> and \<open>Health\<close>. \<open>K8sSample\<close>
    (\<open>k8sinit/sample/main.go\<close>): the bigger sample over \<open>K8s\<close>, its tasks and its registration.

  The parts interact in one direction: \<open>K8s\<close> registers built tasks in a \<open>Manager\<close>; the run machine calls
  the tasks through their wrappers, with contexts from the store; instance, future and built tasks are
  tasks, so whatever is proved of every task of a run holds for them; the samples register such tasks
  in a manager and run it. Parts of the program that share
  memory with the tasks (the cell of an instance task, a future, the handlers of \<open>K8s\<close>) are in the world.

  What is not modelled: logging (also that of the samples) and the test utilities. Of
  \<open>k8sinit/sample/main.go\<close> there is the registration; what its runs do is what \<open>ComplexRuns\<close>, \<open>SingleHttp\<close>
  and \<open>K8sRun\<close> show of the same tasks. \<open>net/http\<close>, the listeners and
  the signals are parameters (\<open>net\<close>, the environment of a program). The scheduler, the clock and, outside
  of \<open>Programs\<close>, the user code are arbitrary: the run machine may take any enabled step, a timeout may
  fire at any time, a task may return anything at any time, so what is proved holds for all of them.
  There is no fuel in the model: the length of a run is bounded by the rank of its state.
\<close>

end
